(* ===== verification/Prelude.thy ===== *)
theory Prelude
  imports Main "HOL-Library.Word" "HOL-Library.Multiset" "HOL-Library.Product_Lexorder"
    "HOL-Library.List_Lexorder" "HOL-Library.Char_ord"
begin

text \<open>
  What every theory of the development shares: the names of the model's basic types, the
  theorem collections, and the generic facts on lists, sorting and association lists that
  the components use.

  Python's \<open>bytes\<close> are lists of 8-bit words. Python's \<open>str\<close> is a list of
  characters, read as the UTF-8 bytes of the string: comparing UTF-8 byte by byte gives the
  order of the code points, so the lexicographic order of \<open>List_Lexorder\<close> is both
  Python's order on \<open>str\<close> and the BINARY collation SQLite uses for TEXT columns.
  Python's \<open>int\<close> is unbounded and is \<open>int\<close>.
\<close>

type_synonym byte = "8 word"
type_synonym bytes = "byte list"

text \<open>
  Rules that turn a successful result of an operation into its conditions.
\<close>

named_theorems result_iff "characterisations of successful results"

subsection \<open>Slices\<close>

text \<open>Python's \<open>xs[i:j]\<close> for indices that are not negative.\<close>

definition py_slice :: "nat \<Rightarrow> nat \<Rightarrow> 'a list \<Rightarrow> 'a list" where
  "py_slice i j xs = take (j - i) (drop i xs)"

lemma length_py_slice [simp]: "length (py_slice i j xs) = min (j - i) (length xs - i)"
  by (simp add: py_slice_def min.commute)

lemma py_slice_append_left:
  "j \<le> length xs \<Longrightarrow> py_slice i j (xs @ ys) = py_slice i j xs"
  by (simp add: py_slice_def)

lemma py_slice_split: "i \<le> j \<Longrightarrow> take i xs @ py_slice i j xs = take j xs"
  by (simp add: py_slice_def take_add [symmetric])

subsection \<open>Sorting by a key\<close>

lemma sort_key_perm_eq:
  assumes "mset xs = mset ys" and "inj_on f (set xs)"
  shows "sort_key f xs = sort_key f ys"
proof (rule properties_for_sort_key)
  show "mset (sort_key f ys) = mset xs" using assms(1) by simp
  show "sorted (map f (sort_key f ys))" by simp
  fix k
  assume "k \<in> set (sort_key f ys)"
  then have k: "k \<in> set xs" using assms(1) by (metis mset_eq_setD set_sort)
  have eq: "filter (\<lambda>x. f k = f x) zs = replicate (count (mset zs) k) k"
    if "set zs \<subseteq> set xs" for zs
  proof -
    have "filter (\<lambda>x. f k = f x) zs = filter (\<lambda>x. k = x) zs"
      by (rule filter_cong) (use that k assms(2) in \<open>auto dest: inj_onD\<close>)
    then show ?thesis by (simp add: filter_eq_replicate_mset flip: replicate_count_mset_eq_filter_eq)
  qed
  have "set (sort_key f ys) \<subseteq> set xs" using assms(1) by (metis mset_eq_setD set_sort subset_refl)
  then show "filter (\<lambda>x. f k = f x) (sort_key f ys) = filter (\<lambda>x. f k = f x) xs"
    using assms(1) by (simp add: eq)
qed

lemma sort_key_eq_Nil [simp]: "sort_key f xs = [] \<longleftrightarrow> xs = []"
  by (metis length_0_conv length_sort)

lemma length_filter_mset_eq:
  "mset xs = mset ys \<Longrightarrow> length (filter P xs) = length (filter P ys)"
  by (metis mset_filter size_mset)

text \<open>In a list sorted by \<open>f\<close>, few elements lie strictly above a given position.\<close>

lemma sorted_above_nth:
  assumes "sorted (map f d)" and "i < length d" and "f (d ! i) \<le> k"
  shows "length (filter (\<lambda>x. k < f x) d) \<le> length d - Suc i"
proof -
  have "filter (\<lambda>x. k < f x) (take (Suc i) d) = []"
  proof (rule filter_False, rule ballI)
    fix x
    assume "x \<in> set (take (Suc i) d)"
    then obtain j where j: "x = d ! j" "j \<le> i"
      using assms(2) by (auto simp: in_set_conv_nth)
    then have "f (d ! j) \<le> f (d ! i)"
      using assms(1,2) sorted_nth_mono [of "map f d" j i] by simp
    then show "\<not> k < f x" using assms(3) j by simp
  qed
  then have "filter (\<lambda>x. k < f x) d = filter (\<lambda>x. k < f x) (drop (Suc i) d)"
    by (metis append_Nil append_take_drop_id filter_append)
  then show ?thesis by (metis length_drop length_filter_le)
qed

lemma sorted_below_nth:
  assumes "sorted (map f d)" and "i < length d" and "length (filter (\<lambda>x. k < f x) d) < length d - i"
  shows "f (d ! i) \<le> k"
proof (rule ccontr)
  assume above: "\<not> f (d ! i) \<le> k"
  have "filter (\<lambda>x. k < f x) (drop i d) = drop i d"
  proof (rule filter_True, rule ballI)
    fix x
    assume "x \<in> set (drop i d)"
    then obtain j where j: "x = d ! j" "i \<le> j" "j < length d"
      by (auto simp: in_set_conv_nth)
    then have "f (d ! i) \<le> f (d ! j)"
      using assms(1) sorted_nth_mono [of "map f d" i j] by simp
    then show "k < f x" using above j by simp
  qed
  then have "length d - i \<le> length (filter (\<lambda>x. k < f x) (take i d @ drop i d))"
    unfolding filter_append by simp
  then show False using assms(3) by simp
qed

lemma insort_key_map: "insort_key f (g x) (map g xs) = map g (insort_key (\<lambda>x. f (g x)) x xs)"
  by (induction xs) simp_all

lemma sort_key_map: "sort_key f (map g xs) = map g (sort_key (\<lambda>x. f (g x)) xs)"
  by (induction xs) (simp_all add: insort_key_map)

lemma sort_key_order_eq:
  assumes "\<And>x y. f x \<le> f y \<longleftrightarrow> x \<le> y"
  shows "sort_key f xs = sort xs"
proof -
  have "insort_key f x ys = insort x ys" for x ys by (induction ys) (simp_all add: assms)
  then show ?thesis by (induction xs) simp_all
qed

subsection \<open>The maximum of a sequence\<close>

text \<open>
  Python's \<open>max(xs, key=key)\<close>: the first element no later one of which is greater;
  \<open>None\<close> is the ValueError on no elements.
\<close>

fun py_max :: "('k \<Rightarrow> 'k \<Rightarrow> bool) \<Rightarrow> ('a \<Rightarrow> 'k) \<Rightarrow> 'a list \<Rightarrow> 'a option" where
  "py_max lt key [] = None"
| "py_max lt key (x # xs) = Some (fold (\<lambda>y best. if lt (key best) (key y) then y else best) xs x)"

lemma py_max_Some:
  fixes key :: "'a \<Rightarrow> 'k::linorder"
  assumes "py_max (<) key xs = Some m"
  shows "m \<in> set xs" and "\<forall>y\<in>set xs. key y \<le> key m"
proof -
  let ?f = "\<lambda>y best. if key best < key y then y else best"
  have *: "fold ?f ys x \<in> set (x # ys) \<and> (\<forall>y\<in>set (x # ys). key y \<le> key (fold ?f ys x))" for x ys
  proof (induction ys arbitrary: x)
    case (Cons y ys)
    let ?x = "?f y x"
    have "key x \<le> key ?x" "key y \<le> key ?x" by auto
    moreover have "?x = x \<or> ?x = y" by simp
    moreover have "key ?x \<le> key (fold ?f ys ?x)" using Cons.IH [of ?x] by simp
    ultimately show ?case using Cons.IH [of ?x] by (auto simp del: if_split intro: order_trans)
  qed simp
  obtain x ys where "xs = x # ys" using assms by (cases xs) auto
  with assms * [where ys = ys and x = x] show "m \<in> set xs" and "\<forall>y\<in>set xs. key y \<le> key m" by auto
qed

lemma py_max_perm:
  fixes key :: "'a \<Rightarrow> 'k::linorder"
  assumes "mset xs = mset ys" and "inj_on key (set xs)"
  shows "py_max (<) key xs = py_max (<) key ys"
proof (cases xs)
  case Nil
  then show ?thesis using assms(1) by simp
next
  case (Cons x xs')
  then obtain y ys' where ys: "ys = y # ys'" using assms(1) by (cases ys) auto
  obtain m n where m: "py_max (<) key xs = Some m" and n: "py_max (<) key ys = Some n"
    using Cons ys by simp
  have "set xs = set ys" using assms(1) by (rule mset_eq_setD)
  then have "key m = key n" "m \<in> set xs" "n \<in> set xs"
    using py_max_Some [OF m] py_max_Some [OF n] by (auto intro: antisym)
  then show ?thesis using m n assms(2) by (auto dest: inj_onD)
qed

end
