(* ===== verification/Py_Numbers.thy ===== *)
theory Py_Numbers
  imports Complex_Main Prelude
begin

text \<open>
  Python's numbers. An \<open>int\<close> is unbounded; a finite \<open>float\<close> is an IEEE-754
  binary64 value, modelled as the rational number it denotes. Every float operation of the
  code is the exact operation on rationals followed by \<open>rnd\<close>, the rounding to the
  nearest binary64 value, ties to even, with gradual underflow. The sign of a zero is not
  represented.

  The first part defines \<open>rnd\<close> and proves the facts the components use: it is
  monotone, odd, idempotent, exact on every value with a 53-bit significand, and off by at
  most half a unit in the last place. The second part is a locale with the laws of such a
  rounding, interpreted on \<open>rnd\<close>; the third part gives the mixed arithmetic of
  \<open>int\<close> and \<open>float\<close>, and \<open>statistics.median\<close>.
\<close>

section \<open>Rounding to binary64\<close>

function ilog2 :: "int \<Rightarrow> nat" where
  "ilog2 n = (if n < 2 then 0 else Suc (ilog2 (n div 2)))"
  by pat_completeness auto
termination
  by (relation "measure nat") auto

declare ilog2.simps [simp del]

text \<open>The binary exponent of a number: \<open>\<lfloor>log\<^sub>2 \<bar>x\<bar>\<rfloor>\<close>.\<close>

definition binexp :: "rat \<Rightarrow> int" where
  "binexp x = (let (p, q) = quotient_of \<bar>x\<bar>; k = int (ilog2 p) - int (ilog2 q)
     in if 2 powi k \<le> \<bar>x\<bar> then k else k - 1)"

definition round_even :: "rat \<Rightarrow> int" where
  "round_even x = (let f = \<lfloor>x\<rfloor>; d = x - of_int f
     in if d < 1/2 then f else if 1/2 < d then f + 1 else if even f then f else f + 1)"

text \<open>The exponent of the unit in the last place: 52 below the binary exponent, at least -1074.\<close>

definition ulp_exp :: "rat \<Rightarrow> int" where
  "ulp_exp x = max (binexp x - 52) (-1074)"

definition rnd :: "rat \<Rightarrow> rat" where
  "rnd x = (if x = 0 then 0
     else of_int (round_even (x / 2 powi ulp_exp x)) * 2 powi ulp_exp x)"

lemma ilog2_bounds: "0 < n \<Longrightarrow> 2 ^ ilog2 n \<le> n \<and> n < 2 ^ Suc (ilog2 n)"
proof (induction n rule: ilog2.induct)
  case (1 n)
  show ?case
  proof (cases "n < 2")
    case True
    with "1.prems" have "n = 1" by simp
    then show ?thesis by (simp add: ilog2.simps)
  next
    case False
    with "1.IH" have *: "2 ^ ilog2 (n div 2) \<le> n div 2 \<and> n div 2 < 2 ^ Suc (ilog2 (n div 2))"
      by simp
    have dbl: "2 * m \<le> n" if "m \<le> n div 2" for m using that by presburger
    have "2 * 2 ^ ilog2 (n div 2) \<le> n" by (rule dbl) (use * in simp)
    moreover have half: "n < 2 * m" if "n div 2 < m" for m using that by presburger
    have "n < 2 * (2 * 2 ^ ilog2 (n div 2))" by (rule half) (use * in simp)
    ultimately show ?thesis using False by (simp add: ilog2.simps [of n])
  qed
qed

lemma binexp_bounds:
  assumes "x \<noteq> 0"
  shows "2 powi binexp x \<le> \<bar>x\<bar>" and "\<bar>x\<bar> < 2 powi (binexp x + 1)"
proof -
  obtain p q where pq: "quotient_of \<bar>x\<bar> = (p, q)" by force
  have x: "\<bar>x\<bar> = of_int p / of_int q" and q: "0 < q"
    using quotient_of_div [OF pq] quotient_of_denom_pos [OF pq] by simp_all
  have p: "0 < p"
  proof -
    have "0 < (of_int p :: rat) / of_int q" using assms x by (metis zero_less_abs_iff)
    then show ?thesis using q by (simp add: zero_less_divide_iff)
  qed
  let ?a = "ilog2 p" and ?b = "ilog2 q"
  let ?k = "int ?a - int ?b"
  have a: "(2::rat) ^ ?a \<le> of_int p" "of_int p < (2::rat) ^ Suc ?a"
    using ilog2_bounds [OF p] by (metis of_int_le_iff of_int_numeral of_int_power, metis of_int_less_iff of_int_numeral of_int_power)
  have b: "(2::rat) ^ ?b \<le> of_int q" "of_int q < (2::rat) ^ Suc ?b"
    using ilog2_bounds [OF q] by (metis of_int_le_iff of_int_numeral of_int_power, metis of_int_less_iff of_int_numeral of_int_power)
  have kp: "(2::rat) powi (?k + j) = 2 ^ ?a / 2 ^ ?b * 2 powi j" for j
    by (simp add: power_int_add power_int_diff)
  have up: "\<bar>x\<bar> < 2 powi (?k + 1)"
  proof -
    have "of_int p / of_int q < (2::rat) ^ Suc ?a / 2 ^ ?b"
      using a b q p by (intro frac_less) auto
    then show ?thesis using kp [of 1] x by (simp add: mult.commute)
  qed
  have lo: "2 powi (?k - 1) \<le> \<bar>x\<bar>"
  proof -
    have "(2::rat) ^ ?a / 2 ^ Suc ?b \<le> of_int p / of_int q"
      using a b q p by (intro frac_le) auto
    then show ?thesis using kp [of "-1"] x by simp
  qed
  show "2 powi binexp x \<le> \<bar>x\<bar>" and "\<bar>x\<bar> < 2 powi (binexp x + 1)"
    using up lo by (simp_all add: binexp_def pq Let_def)
qed

lemma powi_less_iff [simp]: "(2::rat) powi a < 2 powi b \<longleftrightarrow> a < b"
  by (meson not_less one_le_numeral one_less_numeral_iff power_int_increasing
      power_int_strict_increasing semiring_norm(76))

lemma powi_le_iff [simp]: "(2::rat) powi a \<le> 2 powi b \<longleftrightarrow> a \<le> b"
  by (simp add: not_less [symmetric])

lemma powi_split: "(2::rat) powi a / 2 powi b = 2 powi (a - b)"
  by (simp add: power_int_diff)

lemma powi_of_int: "0 \<le> k \<Longrightarrow> (2::rat) powi k = of_int (2 ^ nat k)"
  by (simp add: power_int_def)

lemma powi_scale: "j \<le> k \<Longrightarrow> of_int (2 ^ nat (k - j)) * 2 powi j = (2::rat) powi k"
  by (subst powi_of_int [symmetric]) (simp_all add: power_int_diff)

lemma binexp_unique:
  assumes "2 powi k \<le> \<bar>x\<bar>" and "\<bar>x\<bar> < 2 powi (k + 1)"
  shows "binexp x = k"
proof -
  have nz: "x \<noteq> 0" using assms(1) by (metis abs_0 not_less power_int_eq_0_iff zero_neq_numeral zero_less_power_int zero_less_numeral)
  have "2 powi binexp x < (2::rat) powi (k + 1)" and "2 powi k < (2::rat) powi (binexp x + 1)"
    using binexp_bounds [OF nz] assms by linarith+
  then show ?thesis by simp
qed

lemma binexp_mono:
  assumes "x \<noteq> 0" and "\<bar>x\<bar> \<le> \<bar>y\<bar>"
  shows "binexp x \<le> binexp y"
proof -
  have "y \<noteq> 0" using assms by auto
  then have "2 powi binexp x < (2::rat) powi (binexp y + 1)"
    using binexp_bounds [OF assms(1)] binexp_bounds [of y] assms(2) by linarith
  then show ?thesis by simp
qed

lemma binexp_minus [simp]: "binexp (- x) = binexp x"
  by (simp add: binexp_def)

lemma ulp_exp_minus [simp]: "ulp_exp (- x) = ulp_exp x"
  by (simp add: ulp_exp_def)

subsection \<open>Rounding to an integer\<close>

lemma round_even_of_int [simp]: "round_even (of_int n) = n"
  by (simp add: round_even_def)

lemma round_even_cases: "round_even x = \<lfloor>x\<rfloor> \<or> round_even x = \<lfloor>x\<rfloor> + 1 \<and> of_int \<lfloor>x\<rfloor> < x"
  by (auto simp: round_even_def Let_def split: if_splits)

lemma round_even_error: "\<bar>of_int (round_even x) - x\<bar> \<le> 1/2"
proof -
  have "of_int \<lfloor>x\<rfloor> \<le> x" and "x < of_int \<lfloor>x\<rfloor> + 1" by linarith+
  then show ?thesis
    unfolding round_even_def Let_def abs_if by (simp split: if_splits; linarith?)
qed

lemma round_even_mono:
  assumes "x \<le> y"
  shows "round_even x \<le> round_even y"
proof (cases "\<lfloor>x\<rfloor> = \<lfloor>y\<rfloor>")
  case True
  then show ?thesis using assms by (simp add: round_even_def Let_def)
next
  case False
  then have "\<lfloor>x\<rfloor> + 1 \<le> \<lfloor>y\<rfloor>" using floor_mono [OF assms] by simp
  then show ?thesis using round_even_cases [of x] round_even_cases [of y] by linarith
qed

lemma round_even_minus: "round_even (- x) = - round_even x"
proof (cases "x = of_int \<lfloor>x\<rfloor>")
  case True
  then show ?thesis by (metis of_int_minus round_even_of_int)
next
  case False
  then have "\<lfloor>- x\<rfloor> = - \<lfloor>x\<rfloor> - 1"
    by linarith
  then show ?thesis by (auto simp: round_even_def Let_def)
qed

lemma round_even_bounds:
  "of_int a \<le> x \<Longrightarrow> a \<le> round_even x" "x \<le> of_int b \<Longrightarrow> round_even x \<le> b"
  using round_even_mono [of "of_int a" x] round_even_mono [of x "of_int b"] by simp_all

subsection \<open>Rounding to binary64\<close>

lemma rnd_0 [simp]: "rnd 0 = 0"
  by (simp add: rnd_def)

lemma rnd_minus [simp]: "rnd (- x) = - rnd x"
  by (simp add: rnd_def round_even_minus)

lemma rnd_exact_multiple:
  assumes "x = of_int m * 2 powi ulp_exp x"
  shows "rnd x = x"
proof -
  have "x / 2 powi ulp_exp x = of_int m" using assms by (metis nonzero_mult_div_cancel_right power_int_not_zero zero_neq_numeral)
  then show ?thesis using assms by (auto simp: rnd_def)
qed

lemma rnd_lower:
  assumes "x \<noteq> 0" and "of_int m * 2 powi ulp_exp x \<le> x"
  shows "of_int m * 2 powi ulp_exp x \<le> rnd x"
proof -
  have "of_int m \<le> x / 2 powi ulp_exp x" using assms(2) by (simp add: pos_le_divide_eq)
  then have "m \<le> round_even (x / 2 powi ulp_exp x)" by (rule round_even_bounds)
  then show ?thesis using assms(1) by (simp add: rnd_def)
qed

lemma rnd_upper:
  assumes "x \<noteq> 0" and "x \<le> of_int m * 2 powi ulp_exp x"
  shows "rnd x \<le> of_int m * 2 powi ulp_exp x"
proof -
  have "x / 2 powi ulp_exp x \<le> of_int m" using assms(2) by (simp add: pos_divide_le_eq)
  then have "round_even (x / 2 powi ulp_exp x) \<le> m" by (rule round_even_bounds)
  then show ?thesis using assms(1) by (simp add: rnd_def)
qed

lemma rnd_nonneg: "0 \<le> x \<Longrightarrow> 0 \<le> rnd x"
  using rnd_lower [of x 0] by (cases "x = 0") simp_all

text \<open>A power of two at or above the unit in the last place bounds the rounded value.\<close>

lemma rnd_le_powi:
  assumes "x \<noteq> 0" and "x \<le> 2 powi k" and "ulp_exp x \<le> k"
  shows "rnd x \<le> 2 powi k"
  using rnd_upper [OF assms(1), of "2 ^ nat (k - ulp_exp x)"] assms(2)
  unfolding powi_scale [OF assms(3)] .

lemma rnd_ge_powi:
  assumes "x \<noteq> 0" and "2 powi k \<le> x" and "ulp_exp x \<le> k"
  shows "2 powi k \<le> rnd x"
  using rnd_lower [OF assms(1), of "2 ^ nat (k - ulp_exp x)"] assms(2)
  unfolding powi_scale [OF assms(3)] .

lemma rnd_mono_pos:
  assumes "0 < x" and "x \<le> y"
  shows "rnd x \<le> rnd y"
proof (cases "ulp_exp x = ulp_exp y")
  case True
  have "x / 2 powi ulp_exp x \<le> y / 2 powi ulp_exp x"
    using assms by (simp add: divide_right_mono)
  then show ?thesis using assms True by (simp add: rnd_def round_even_mono)
next
  case False
  have "binexp x \<le> binexp y" using assms by (intro binexp_mono) auto
  then have y: "ulp_exp y = binexp y - 52" "ulp_exp x \<le> binexp y" "binexp x + 1 \<le> binexp y"
    using False by (auto simp: ulp_exp_def max_def split: if_splits)
  have "x \<le> 2 powi (binexp x + 1)" using binexp_bounds [of x] assms by simp
  also have "\<dots> \<le> 2 powi binexp y" using y by simp
  finally have "rnd x \<le> 2 powi binexp y" using assms y by (intro rnd_le_powi) auto
  also have "2 powi binexp y \<le> rnd y"
    using binexp_bounds [of y] assms y by (intro rnd_ge_powi) auto
  finally show ?thesis .
qed

lemma rnd_mono:
  assumes "x \<le> y"
  shows "rnd x \<le> rnd y"
proof -
  consider "0 < x" | "x \<le> 0" "0 \<le> y" | "y < 0" by linarith
  then show ?thesis
  proof cases
    case 1
    then show ?thesis using assms by (rule rnd_mono_pos)
  next
    case 2
    then show ?thesis using rnd_nonneg [of "- x"] rnd_nonneg [of y] by simp
  next
    case 3
    then show ?thesis using assms rnd_mono_pos [of "- y" "- x"] by simp
  qed
qed

text \<open>Values with a 53-bit significand are exact.\<close>

lemma rnd_exact:
  assumes x: "x = of_int m * 2 powi k" and m: "\<bar>m\<bar> \<le> 2 ^ 53" and k: "-1074 \<le> k"
  shows "rnd x = x"
proof (cases "x = 0")
  case False
  have step: "\<exists>n. x = of_int n * 2 powi ulp_exp x" if "ulp_exp x \<le> k"
  proof
    show "x = of_int (m * 2 ^ nat (k - ulp_exp x)) * 2 powi ulp_exp x"
      unfolding of_int_mult mult.assoc powi_scale [OF that] by (rule x)
  qed
  have "\<exists>n. x = of_int n * 2 powi ulp_exp x"
  proof (cases "\<bar>m\<bar> = 2 ^ 53")
    case False
    have "\<bar>x\<bar> < 2 powi 53 * 2 powi k"
    proof -
      have "\<bar>of_int m :: rat\<bar> < of_int (2 ^ 53)" using m False by (metis antisym_conv2 of_int_abs of_int_less_iff order_less_le)
      then show ?thesis using x by (simp add: abs_mult)
    qed
    then have "2 powi binexp x < (2::rat) powi (53 + k)"
      using binexp_bounds [OF \<open>x \<noteq> 0\<close>] by (simp add: power_int_add)
    then have "ulp_exp x \<le> k" using k unfolding powi_less_iff ulp_exp_def by simp
    then show ?thesis by (rule step)
  next
    case True
    then have "\<bar>x\<bar> = 2 powi (53 + k)" using x by (auto simp: abs_mult power_int_add simp flip: of_int_abs)
    then have "binexp x = 53 + k" by (intro binexp_unique) simp_all
    then have u: "ulp_exp x = k + 1" using k by (simp add: ulp_exp_def)
    have "x = of_int (sgn m * 2 ^ 52) * 2 powi (k + 1)"
    proof -
      have "m = sgn m * 2 ^ 53" using True by (metis mult_sgn_abs)
      then have "x = of_int (sgn m * 2 ^ 53) * 2 powi k" using x by simp
      then show ?thesis by (simp add: power_int_add)
    qed
    then show ?thesis unfolding u by blast
  qed
  then show ?thesis using rnd_exact_multiple by blast
qed simp

lemma rnd_of_int [simp]:
  assumes "\<bar>i\<bar> \<le> 2 ^ 53"
  shows "rnd (of_int i) = of_int i"
  by (rule rnd_exact [of _ i 0]) (use assms in simp_all)

lemma rnd_representable:
  obtains m where "rnd x = of_int m * 2 powi ulp_exp x" and "\<bar>m\<bar> \<le> 2 ^ 53"
proof (cases "x = 0")
  case True
  then show ?thesis using that [of 0] by simp
next
  case False
  have "\<bar>x\<bar> < 2 powi (binexp x + 1)" using binexp_bounds [OF False] by simp
  also have "\<dots> \<le> 2 powi (ulp_exp x + 53)" by (simp add: ulp_exp_def)
  finally have "\<bar>x\<bar> < 2 ^ 53 * 2 powi ulp_exp x" by (simp add: power_int_add mult.commute)
  then have "\<bar>x / 2 powi ulp_exp x\<bar> < 2 ^ 53" by (simp add: abs_divide pos_divide_less_eq)
  then have "x / 2 powi ulp_exp x \<le> of_int (2 ^ 53)" "of_int (- (2 ^ 53)) \<le> x / 2 powi ulp_exp x"
    by (simp_all only: abs_less_iff of_int_power of_int_minus of_int_numeral) linarith+
  then have "round_even (x / 2 powi ulp_exp x) \<le> 2 ^ 53" "- (2 ^ 53) \<le> round_even (x / 2 powi ulp_exp x)"
    by (blast intro: round_even_bounds)+
  then have "\<bar>round_even (x / 2 powi ulp_exp x)\<bar> \<le> 2 ^ 53" by linarith
  with False show ?thesis using that by (auto simp: rnd_def)
qed

lemma rnd_idem [simp]: "rnd (rnd x) = rnd x"
proof -
  obtain m where "rnd x = of_int m * 2 powi ulp_exp x" "\<bar>m\<bar> \<le> 2 ^ 53"
    by (rule rnd_representable)
  then show ?thesis by (rule rnd_exact) (simp add: ulp_exp_def)
qed

lemma rnd_error: "\<bar>rnd x - x\<bar> \<le> 2 powi ulp_exp x / 2"
proof (cases "x = 0")
  case False
  let ?u = "(2::rat) powi ulp_exp x"
  have "rnd x - x = (of_int (round_even (x / ?u)) - x / ?u) * ?u"
    using False by (simp add: rnd_def algebra_simps)
  then have "\<bar>rnd x - x\<bar> = \<bar>of_int (round_even (x / ?u)) - x / ?u\<bar> * ?u"
    by (simp add: abs_mult)
  also have "\<dots> \<le> 1/2 * ?u" by (intro mult_right_mono round_even_error) simp
  finally show ?thesis by simp
qed simp

section \<open>The laws of a rounding\<close>

text \<open>
  What the components rely on when they compare rounded results: a monotone, odd and
  idempotent rounding that keeps the integers up to 2 to the 53.
\<close>

locale rounding =
  fixes r :: "rat \<Rightarrow> rat"
  assumes mono: "x \<le> y \<Longrightarrow> r x \<le> r y"
    and odd_symmetric: "r (- x) = - r x"
    and idem: "r (r x) = r x"
    and small_int: "\<bar>i\<bar> \<le> 2 ^ 53 \<Longrightarrow> r (of_int i) = of_int i"
begin

lemma zero: "r 0 = 0"
  using small_int [of 0] by simp

lemma one: "r 1 = 1"
  using small_int [of 1] by simp

lemma nonneg: "0 \<le> x \<Longrightarrow> 0 \<le> r x"
  using mono [of 0 x] zero by simp

lemma nonpos: "x \<le> 0 \<Longrightarrow> r x \<le> 0"
  using mono [of x 0] zero by simp

lemma positive_arg: "0 < r x \<Longrightarrow> 0 < x"
  using nonpos [of x] by linarith

lemma above: "r x = x \<Longrightarrow> x \<le> y \<Longrightarrow> x \<le> r y"
  using mono [of x y] by simp

lemma below: "r y = y \<Longrightarrow> x \<le> y \<Longrightarrow> r x \<le> y"
  using mono [of x y] by simp

lemma mult_mono: "0 \<le> c \<Longrightarrow> x \<le> y \<Longrightarrow> r (c * x) \<le> r (c * y)"
  by (intro mono mult_left_mono)

lemma div_mono: "0 \<le> c \<Longrightarrow> x \<le> y \<Longrightarrow> r (x / c) \<le> r (y / c)"
  by (intro mono divide_right_mono)

lemma unit_interval: "0 \<le> x \<Longrightarrow> x \<le> 1 \<Longrightarrow> 0 \<le> r x \<and> r x \<le> 1"
  using nonneg below [OF one] by simp

text \<open>The float mean of two exact values lies between them.\<close>

lemma mean_between:
  assumes "r a = a" and "r b = b" and "a \<le> b"
  shows "a \<le> r ((a + b) / 2)" and "r ((a + b) / 2) \<le> b"
  using assms by (auto intro!: above below)

end

interpretation b64: rounding rnd
  by unfold_locales (auto intro: rnd_mono)

subsection \<open>Gaps between floats\<close>

lemma rnd_grid:
  assumes "rnd x = x"
  obtains m where "x = of_int m * 2 powi (-1074)"
proof -
  obtain m where m: "rnd x = of_int m * 2 powi ulp_exp x" by (rule rnd_representable)
  have "-1074 \<le> ulp_exp x" by (simp add: ulp_exp_def)
  then have "of_int (m * 2 ^ nat (ulp_exp x - (-1074))) * 2 powi (-1074) = (of_int m * 2 powi ulp_exp x :: rat)"
    unfolding of_int_mult mult.assoc using powi_scale [of "-1074" "ulp_exp x"] by simp
  then show ?thesis using that m assms by metis
qed

text \<open>A difference of two floats that is rounded is a normal number.\<close>

lemma rnd_diff_inexact:
  assumes "rnd a = a" and "rnd b = b" and "rnd (a - b) \<noteq> a - b"
  shows "ulp_exp (a - b) = binexp (a - b) - 52"
proof (rule ccontr)
  assume "\<not> ?thesis"
  then have u: "ulp_exp (a - b) = -1074" by (simp add: ulp_exp_def max_def split: if_splits)
  obtain m n where "a = of_int m * 2 powi (-1074)" "b = of_int n * 2 powi (-1074)"
    using rnd_grid [OF assms(1)] rnd_grid [OF assms(2)] by metis
  then have "a - b = of_int (m - n) * 2 powi ulp_exp (a - b)" unfolding u by (simp add: left_diff_distrib)
  then show False using rnd_exact_multiple assms(3) by blast
qed

lemma rnd_frac_exact:
  assumes k: "rnd k = k" and "0 \<le> k"
  shows "rnd (k - of_int \<lfloor>k\<rfloor>) = k - of_int \<lfloor>k\<rfloor>"
proof -
  obtain m where m: "k = of_int m * 2 powi ulp_exp k" "\<bar>m\<bar> \<le> 2 ^ 53"
    using rnd_representable [of k] k by metis
  let ?u = "ulp_exp k"
  show ?thesis
  proof (cases "0 \<le> ?u")
    case True
    then have "k = of_int (m * 2 ^ nat ?u)" using m(1) by (simp add: powi_of_int)
    then have "k - of_int \<lfloor>k\<rfloor> = 0" by (metis eq_iff_diff_eq_0 floor_of_int)
    then show ?thesis by simp
  next
    case False
    let ?n = "m - \<lfloor>k\<rfloor> * 2 ^ nat (- ?u)"
    have "of_int (2 ^ nat (0 - ?u)) * 2 powi ?u = (2::rat) powi 0" using False by (intro powi_scale) simp
    then have "of_int (\<lfloor>k\<rfloor> * 2 ^ nat (- ?u)) * 2 powi ?u = (of_int \<lfloor>k\<rfloor> :: rat)" unfolding of_int_mult mult.assoc by simp
    then have n: "k - of_int \<lfloor>k\<rfloor> = of_int ?n * 2 powi ?u" using m(1) by (simp add: left_diff_distrib)
    have "0 \<le> (of_int \<lfloor>k\<rfloor> :: rat)" using assms(2) by simp
    then have "0 \<le> k - of_int \<lfloor>k\<rfloor>" "k - of_int \<lfloor>k\<rfloor> \<le> k" by linarith+
    then have "0 * 2 powi ?u \<le> (of_int ?n * 2 powi ?u :: rat)" "of_int ?n * 2 powi ?u \<le> (of_int m * 2 powi ?u :: rat)"
      using n m(1) by simp_all
    then have "(0::rat) \<le> of_int ?n" "(of_int ?n :: rat) \<le> of_int m"
      by (simp_all only: mult_le_cancel_right_pos [OF zero_less_power_int [OF zero_less_numeral]])
    then have "0 \<le> ?n" "?n \<le> m" by (simp_all only: of_int_0_le_iff of_int_le_iff)
    then show ?thesis using n m(2) by (intro rnd_exact [of _ ?n ?u]) (auto simp: ulp_exp_def)
  qed
qed

text \<open>The float before 1 is one less a unit of the last place.\<close>

lemma rnd_below_one:
  assumes "rnd t = t" and "0 \<le> t" and "t < 1"
  shows "t \<le> 1 - 2 powi (-53)"
proof (cases "t < 1/2")
  case True
  have "(2::rat) powi (-53) \<le> 1/2" by (simp add: power_int_minus field_simps)
  then show ?thesis using True by linarith
next
  case False
  have "binexp t = -1" by (rule binexp_unique) (use assms False in \<open>simp_all add: power_int_minus\<close>)
  then have u: "ulp_exp t = -53" by (simp add: ulp_exp_def)
  obtain m where m: "t = of_int m * 2 powi (-53)" using rnd_representable [of t] assms(1) unfolding u by metis
  have "(of_int m :: rat) * 2 powi (-53) < of_int (2 ^ 53) * 2 powi (-53)" using m assms(3) by (simp add: power_int_minus)
  then have "m < 2 ^ 53" by (simp only: mult_less_cancel_right_pos [OF zero_less_power_int [OF zero_less_numeral]] of_int_less_iff)
  then have "(of_int m :: rat) \<le> of_int (2 ^ 53 - 1)" by (simp only: of_int_le_iff)
  then have "t \<le> of_int (2 ^ 53 - 1) * 2 powi (-53)" unfolding m by (intro mult_right_mono) simp_all
  then show ?thesis by (simp add: power_int_minus)
qed

text \<open>
  The rounded share of a rounded gap between two floats is not above the gap, although the
  rounded gap may be.
\<close>

lemma rnd_share_below_gap:
  assumes hi: "rnd hi = hi" and lo: "rnd lo = lo" and le: "lo \<le> hi"
    and t: "0 \<le> t" "t \<le> 1 - 2 powi (-53)"
  shows "rnd (rnd (hi - lo) * t) \<le> hi - lo"
proof -
  let ?d = "hi - lo" and ?x = "rnd (hi - lo)"
  have x0: "0 \<le> ?x" using le by (intro rnd_nonneg) simp
  have t1: "t \<le> 1" using t(2) by (rule order_trans) simp
  have xt: "?x * t \<le> ?x" using mult_left_mono [OF t1 x0] by simp
  have below_x: "rnd (?x * t) \<le> ?x" using xt by (rule b64.below [OF rnd_idem])
  show ?thesis
  proof (cases "?x \<le> ?d")
    case True
    then show ?thesis using below_x by simp
  next
    case False
    then have above: "?d < ?x" by simp
    let ?u = "ulp_exp ?d"
    have d0: "?d \<noteq> 0" using above by (cases "?d = 0") simp_all
    have u: "?u = binexp ?d - 52" by (rule rnd_diff_inexact [OF hi lo]) (use above in simp)
    define U where "U = (2::rat) powi ?u"
    have U: "0 < U" by (simp add: U_def)
    obtain M where M: "?x = of_int M * U" unfolding U_def by (rule rnd_representable)
    have "2 powi binexp ?d \<le> ?d" using binexp_bounds(1) [OF d0] le by simp
    then have low: "of_int (2 ^ 52) * U \<le> ?d" by (simp add: u U_def power_int_diff)
    have "of_int (2 ^ 52) * U < of_int M * U" using low above M by linarith
    then have "2 ^ 52 < M" by (simp only: mult_less_cancel_right_pos [OF U] of_int_less_iff)
    then have M1: "(of_int (2 ^ 52) :: rat) \<le> of_int (M - 1)" by (simp only: of_int_le_iff)
    let ?y = "of_int (M - 1) * U"
    have gap: "?x - ?d \<le> U / 2" using rnd_error [of ?d] above by (simp add: U_def)
    have "?y = ?x - U" using M by (simp add: left_diff_distrib)
    then have y: "?y \<le> ?d" using gap U by linarith
    let ?z = "?x * t"
    have z0: "0 \<le> ?z" using x0 t by simp
    show ?thesis
    proof (cases "?z \<le> of_int (2 ^ 52) * U")
      case True
      have "of_int (2 ^ 52) * U = of_int (2 ^ 52) * 2 powi ?u" by (simp add: U_def)
      then have "rnd (of_int (2 ^ 52) * U) = of_int (2 ^ 52) * U" by (rule rnd_exact) (simp_all add: ulp_exp_def)
      then have "rnd ?z \<le> of_int (2 ^ 52) * U" using True by (rule b64.below)
      then show ?thesis using low by simp
    next
      case False
      have nz: "?z \<noteq> 0" using False U by auto
      have dU: "?d < 2 powi (binexp ?d + 1)" using binexp_bounds(2) [OF d0] le by simp
      have xU: "?x \<le> 2 powi (binexp ?d + 1)"
        by (rule rnd_le_powi) (use d0 dU u in simp_all)
      have tz: "t < 1" using t(2) by (rule order_le_less_trans) simp
      have xpos: "0 < ?x" using above le by linarith
      have "?z < ?x" using mult_strict_left_mono [OF tz xpos] by simp
      then have zU: "?z < 2 powi (binexp ?d + 1)" using xU by linarith
      have "binexp ?z = binexp ?d"
        by (rule binexp_unique) (use False zU z0 in \<open>simp_all add: u U_def power_int_diff\<close>)
      then have uz: "ulp_exp ?z = ?u" by (simp add: ulp_exp_def)
      have "?z \<le> ?x * (1 - 2 powi (-53))" by (rule mult_left_mono [OF t(2) x0])
      also have "\<dots> = ?x - of_int M * U * 2 powi (-53)" using M by (simp add: right_diff_distrib)
      finally have "?z \<le> (of_int M - of_int M * 2 powi (-53)) * U" using M by (simp add: left_diff_distrib mult.commute mult.left_commute)
      moreover have "(of_int M :: rat) - of_int M * 2 powi (-53) < of_int M - 1/2"
      proof -
        have "(of_int (2 ^ 52) :: rat) < of_int M" using \<open>2 ^ 52 < M\<close> by (simp only: of_int_less_iff)
        then have "of_int (2 ^ 52) * 2 powi (-53) < (of_int M * 2 powi (-53) :: rat)" by (intro mult_strict_right_mono) simp_all
        moreover have "of_int (2 ^ 52) * 2 powi (-53) = (1/2 :: rat)" by (simp add: power_int_minus)
        ultimately show ?thesis by simp
      qed
      ultimately have "?z < (of_int M - 1/2) * U" using mult_strict_right_mono [OF _ U] by (meson le_less_trans)
      then have q: "?z / U < of_int M - 1/2" using U by (simp add: pos_divide_less_eq)
      have "of_int (round_even (?z / U)) \<le> ?z / U + 1/2" using round_even_error [of "?z / U"] by linarith
      then have "(of_int (round_even (?z / U)) :: rat) < of_int M" using q by linarith
      then have "round_even (?z / U) \<le> M - 1" by (simp only: of_int_less_iff)
      then have "(of_int (round_even (?z / U)) :: rat) \<le> of_int (M - 1)" by (simp only: of_int_le_iff)
      moreover have "rnd ?z = (if ?z = 0 then 0 else of_int (round_even (?z / 2 powi ulp_exp ?z)) * 2 powi ulp_exp ?z)"
        by (rule rnd_def)
      then have "rnd ?z = of_int (round_even (?z / U)) * U" unfolding uz U_def [symmetric] if_not_P [OF nz] .
      ultimately have "rnd ?z \<le> ?y" using mult_right_mono [OF _ less_imp_le [OF U]] by metis
      then show ?thesis using y by simp
    qed
  qed
qed

text \<open>The relative error of a rounding.\<close>

lemma rnd_relative_error: "\<bar>rnd x - x\<bar> \<le> \<bar>x\<bar> * 2 powi (-53) + 2 powi (-1075)"
proof (cases "x = 0")
  case False
  have half: "(2::rat) powi k / 2 = 2 powi (k - 1)" for k by (simp add: power_int_diff)
  have "2 powi ulp_exp x / 2 \<le> \<bar>x\<bar> * 2 powi (-53) + 2 powi (-1075)"
  proof (cases "ulp_exp x = -1074")
    case True
    then show ?thesis unfolding half by simp
  next
    case False
    then have u: "ulp_exp x - 1 = binexp x + (-53)" by (simp add: ulp_exp_def max_def split: if_splits)
    have "2 powi binexp x * 2 powi (-53) \<le> \<bar>x\<bar> * 2 powi (-53)"
      using binexp_bounds(1) [OF \<open>x \<noteq> 0\<close>] by (intro mult_right_mono) simp_all
    moreover have "(2::rat) powi (binexp x + (-53)) = 2 powi binexp x * 2 powi (-53)" by (rule power_int_add) simp
    ultimately have "2 powi ulp_exp x / 2 \<le> \<bar>x\<bar> * 2 powi (-53)" unfolding half u by simp
    moreover have "(0::rat) \<le> 2 powi (-1075)" by simp
    ultimately show ?thesis by linarith
  qed
  then show ?thesis using rnd_error [of x] by linarith
qed simp

lemma rnd_powi: "-1074 \<le> k \<Longrightarrow> rnd (2 powi k) = 2 powi k"
  by (rule rnd_exact [of _ 1 k]) simp_all

section \<open>Arithmetic on int and float\<close>

datatype pynum = PInt int | PFloat rat

primrec num_val :: "pynum \<Rightarrow> rat" where
  "num_val (PInt i) = of_int i"
| "num_val (PFloat q) = q"

text \<open>
  The conversion to \<open>float\<close> Python applies to the \<open>int\<close> operand of a mixed operation. It raises
  OverflowError from about 2 to the 1024 on; the only integers it meets in the code are differences and
  sums of two SQLite columns, which have 64 bits.
\<close>

primrec num_float :: "pynum \<Rightarrow> rat" where
  "num_float (PInt i) = rnd (of_int i)"
| "num_float (PFloat q) = q"

fun num_add :: "pynum \<Rightarrow> pynum \<Rightarrow> pynum" where
  "num_add (PInt a) (PInt b) = PInt (a + b)"
| "num_add a b = PFloat (rnd (num_float a + num_float b))"

fun num_sub :: "pynum \<Rightarrow> pynum \<Rightarrow> pynum" where
  "num_sub (PInt a) (PInt b) = PInt (a - b)"
| "num_sub a b = PFloat (rnd (num_float a - num_float b))"

fun num_mul :: "pynum \<Rightarrow> pynum \<Rightarrow> pynum" where
  "num_mul (PInt a) (PInt b) = PInt (a * b)"
| "num_mul a b = PFloat (rnd (num_float a * num_float b))"

text \<open>
  True division: of two integers, the correctly rounded quotient; \<open>None\<close> is
  ZeroDivisionError.
\<close>

fun num_div :: "pynum \<Rightarrow> pynum \<Rightarrow> pynum option" where
  "num_div a b = (if num_val b = 0 then None
     else case (a, b) of
       (PInt i, PInt j) \<Rightarrow> Some (PFloat (rnd (of_int i / of_int j)))
     | _ \<Rightarrow> Some (PFloat (rnd (num_float a / num_float b))))"

primrec num_abs :: "pynum \<Rightarrow> pynum" where
  "num_abs (PInt a) = PInt \<bar>a\<bar>"
| "num_abs (PFloat q) = PFloat \<bar>q\<bar>"

text \<open>Python's two-argument \<open>max\<close>: the first, unless the second is greater.\<close>

definition num_max :: "pynum \<Rightarrow> pynum \<Rightarrow> pynum" where
  "num_max a b = (if num_val a < num_val b then b else a)"

text \<open>\<open>statistics.median\<close>; \<open>None\<close> is StatisticsError on no data.\<close>

definition statistics_median :: "pynum list \<Rightarrow> pynum option" where
  "statistics_median data =
     (let d = sort_key num_val data; n = length d
      in if n = 0 then None
         else if odd n then Some (d ! (n div 2))
         else num_div (num_add (d ! (n div 2 - 1)) (d ! (n div 2))) (PInt 2))"

lemma num_val_max [simp]: "num_val (num_max a b) = max (num_val a) (num_val b)"
  by (simp add: num_max_def max_def)

lemma num_val_abs [simp]: "num_val (num_abs a) = \<bar>num_val a\<bar>"
  by (cases a) simp_all

lemma statistics_median_Some: "data \<noteq> [] \<Longrightarrow> \<exists>m. statistics_median data = Some m"
  by (auto simp: statistics_median_def Let_def split: pynum.splits)

end
