(* ===== verification/Stats.thy ===== *)
theory Stats
  imports Py_Numbers
begin

text \<open>
  \<open>ingestion/src/hpctel/analysis/stats.py\<close>: the Wilson score interval, in binary64. The first
  section is \<open>math.sqrt\<close>: the correctly rounded square root, computed from an integer square root
  with more digits than a significand has and a sticky half below them.
  \<open>float_sqrt_correct\<close> shows that it is the rounding of the exact square root. Counts are
  assumed to convert to float without overflow.
\<close>

section \<open>The square root\<close>

function isqrt :: "int \<Rightarrow> int" where
  "isqrt n = (if n < 1 then 0
     else let r = 2 * isqrt (n div 4) in if (r + 1) * (r + 1) \<le> n then r + 1 else r)"
  by pat_completeness auto
termination
  by (relation "measure nat") auto

declare isqrt.simps [simp del]

definition float_sqrt :: "rat \<Rightarrow> rat" where
  "float_sqrt x = (if x \<le> 0 then 0
     else let k = 55 - binexp x div 2; y = x * 2 powi (2 * k); s = isqrt \<lfloor>y\<rfloor>
       in rnd ((of_int s + (if of_int (s * s) = y then 0 else 1/2)) / 2 powi k))"

lemma isqrt_bounds: "0 \<le> n \<Longrightarrow> 0 \<le> isqrt n \<and> isqrt n * isqrt n \<le> n \<and> n < (isqrt n + 1) * (isqrt n + 1)"
proof (induction n rule: isqrt.induct)
  case (1 n)
  show ?case
  proof (cases "n < 1")
    case True
    then show ?thesis using "1.prems" by (simp add: isqrt.simps)
  next
    case False
    let ?q = "isqrt (n div 4)"
    have q: "0 \<le> ?q" "?q * ?q \<le> n div 4" "n div 4 < (?q + 1) * (?q + 1)"
      using "1.IH" False by simp_all
    have "4 * (?q * ?q) \<le> n" using q(2) by linarith
    moreover have "n < 4 * ((?q + 1) * (?q + 1))" using q(3) by linarith
    ultimately show ?thesis using q(1) False
      by (simp add: isqrt.simps [of n] Let_def algebra_simps)
  qed
qed

lemma float_sqrt_nonneg: "0 \<le> float_sqrt x"
proof (cases "x \<le> 0")
  case False
  let ?k = "55 - binexp x div 2"
  let ?y = "x * 2 powi (2 * ?k)"
  let ?s = "isqrt \<lfloor>?y\<rfloor>"
  have "0 \<le> ?y" using False by simp
  then have "0 \<le> \<lfloor>?y\<rfloor>" by (simp only: zero_le_floor)
  then have "0 \<le> ?s" using isqrt_bounds by blast
  then have pos: "0 \<le> (of_int ?s + e) / 2 powi ?k" if "0 \<le> e" for e :: rat
    using that by (intro divide_nonneg_nonneg add_nonneg_nonneg) simp_all
  have "0 \<le> (of_int ?s + (if P then 0 else 1/2)) / (2 :: rat) powi ?k" for P
    using pos [of "if P then 0 else 1/2"] by simp
  then show ?thesis using False unfolding float_sqrt_def Let_def by (simp only: if_False rnd_nonneg)
qed (simp add: float_sqrt_def)

lemma sq_le: "0 \<le> v \<Longrightarrow> u * u \<le> v * v \<Longrightarrow> u \<le> (v :: rat)"
  by (rule power2_le_imp_le) (simp_all add: power2_eq_square)

lemma sq_less: "0 \<le> v \<Longrightarrow> u * u < v * v \<Longrightarrow> u < (v :: rat)"
  by (rule power_less_imp_less_base [of _ 2]) (simp_all add: power2_eq_square)

text \<open>Between two consecutive integers of at least 56 bits, no value rounds differently from another.\<close>

lemma round_even_open:
  assumes "0 < h" and "of_int s < u" and "u < of_int s + 1"
  shows "round_even (u / of_int (2 * h)) = (if s mod (2 * h) < h then s div (2 * h) else s div (2 * h) + 1)"
proof -
  let ?M = "2 * h" and ?q = "s div (2 * h)" and ?r = "s mod (2 * h)"
  have M: "0 < (of_int ?M :: rat)" using assms(1) by simp
  have s: "s = ?M * ?q + ?r" by simp
  have r: "0 \<le> ?r" "?r < ?M" using assms(1) by simp_all
  have su: "(of_int s :: rat) = of_int ?M * of_int ?q + of_int ?r" using s by (metis of_int_add of_int_mult)
  have lo: "of_int ?M * of_int ?q \<le> u" using su assms(2) r(1) by linarith
  have "(of_int ?r :: rat) + 1 \<le> of_int ?M" using r(2) by (metis of_int_1 of_int_add of_int_le_iff zless_imp_add1_zle)
  then have hi: "u < of_int ?M * of_int ?q + of_int ?M" using su assms(3) by linarith
  have floor: "\<lfloor>u / of_int ?M\<rfloor> = ?q"
    using lo hi M by (intro floor_unique) (simp_all add: pos_le_divide_eq pos_divide_less_eq algebra_simps)
  define d where "d = u / of_int ?M - of_int ?q"
  have d: "d * of_int ?M = u - of_int ?M * of_int ?q" using M by (simp add: d_def left_diff_distrib)
  have half: "d < 1/2 \<longleftrightarrow> u - of_int ?M * of_int ?q < of_int h" "1/2 < d \<longleftrightarrow> of_int h < u - of_int ?M * of_int ?q"
    unfolding d [symmetric] using M by auto
  show ?thesis
  proof (cases "?r < h")
    case True
    then have "(of_int ?r :: rat) + 1 \<le> of_int h" by (metis of_int_1 of_int_add of_int_le_iff zless_imp_add1_zle)
    then have "d < 1/2" unfolding half using su assms(3) by linarith
    then show ?thesis using True unfolding round_even_def Let_def floor d_def [symmetric] by simp
  next
    case False
    then have "(of_int h :: rat) \<le> of_int ?r" by simp
    then have "1/2 < d" unfolding half using su assms(2) by linarith
    then show ?thesis using False unfolding round_even_def Let_def floor d_def [symmetric] by simp
  qed
qed

lemma rnd_open:
  assumes "2 ^ 55 \<le> s" and "of_int s < u" "u < of_int s + 1" and "of_int s < v" "v < of_int s + 1"
  shows "rnd (u / 2 powi k) = rnd (v / 2 powi k)"
proof -
  let ?b = "binexp (of_int s)"
  have pos: "0 < s" using assms(1) by (rule less_le_trans [rotated]) simp
  have b: "2 powi ?b \<le> (of_int s :: rat)" "(of_int s :: rat) < 2 powi (?b + 1)"
    using binexp_bounds [of "of_int s"] pos by simp_all
  have "2 powi 55 = (of_int (2 ^ 55) :: rat)" by (subst powi_of_int) simp_all
  also have "\<dots> \<le> of_int s" unfolding of_int_le_iff by (rule assms(1))
  finally have "2 powi 55 < (2 :: rat) powi (?b + 1)" using b(2) by (rule le_less_trans)
  then have b55: "55 \<le> ?b" unfolding powi_less_iff by simp
  have up: "(of_int s :: rat) + 1 \<le> 2 powi (?b + 1)"
  proof -
    have "(of_int s :: rat) < of_int (2 ^ nat (?b + 1))" using b(2) b55 by (subst (asm) powi_of_int) simp_all
    then have "s + 1 \<le> 2 ^ nat (?b + 1)" by (simp only: of_int_less_iff)
    then have "of_int (s + 1) \<le> (of_int (2 ^ nat (?b + 1)) :: rat)" by (simp only: of_int_le_iff)
    then show ?thesis using b55 by (subst powi_of_int) simp_all
  qed
  let ?e = "max (?b - k - 52) (-1074)"
  have E: "3 \<le> ?e + k" using b55 by simp
  define h :: int where "h = 2 ^ nat (?e + k - 1)"
  have h: "0 < h" "of_int (2 * h) = (2 :: rat) powi (?e + k)"
  proof -
    show "0 < h" by (simp add: h_def)
    have "(2 :: rat) powi (?e + k) = of_int (2 ^ nat (?e + k))" using E by (intro powi_of_int) simp
    also have "nat (?e + k) = Suc (nat (?e + k - 1))" using E by simp
    finally show "of_int (2 * h) = (2 :: rat) powi (?e + k)" by (simp add: h_def)
  qed
  have val: "rnd (w / 2 powi k) = of_int (if s mod (2 * h) < h then s div (2 * h) else s div (2 * h) + 1) * 2 powi ?e"
    if w: "of_int s < w" "w < of_int s + 1" for w :: rat
  proof -
    have w0: "0 < w" using w(1) pos by (meson less_trans of_int_pos)
    have "binexp (w / 2 powi k) = ?b - k"
    proof (rule binexp_unique)
      have "2 powi ?b \<le> w" "w < 2 powi (?b + 1)" using w b up by linarith+
      then have "2 powi ?b / 2 powi k \<le> w / 2 powi k" "w / 2 powi k < 2 powi (?b + 1) / 2 powi k"
        by (simp_all add: divide_right_mono divide_strict_right_mono)
      then show "2 powi (?b - k) \<le> \<bar>w / 2 powi k\<bar>" "\<bar>w / 2 powi k\<bar> < 2 powi (?b - k + 1)"
        using w0 by (simp_all add: powi_split algebra_simps)
    qed
    then have u: "ulp_exp (w / 2 powi k) = ?e" by (simp add: ulp_exp_def)
    have "w / 2 powi k / 2 powi ?e = w / of_int (2 * h)"
      unfolding h(2) by (simp add: power_int_add)
    then show ?thesis using w0 round_even_open [OF h(1) w] by (simp add: rnd_def u)
  qed
  show ?thesis unfolding val [OF assms(2,3)] val [OF assms(4,5)] ..
qed

text \<open>The square root is the rounding of the exact one, stated by the cut it makes in the rationals.\<close>

lemma float_sqrt_correct:
  assumes "0 < x" and "0 \<le> a"
  shows "a * a \<le> x \<Longrightarrow> rnd a \<le> float_sqrt x" and "x \<le> a * a \<Longrightarrow> float_sqrt x \<le> rnd a"
proof -
  define k where "k = 55 - binexp x div 2"
  define y where "y = x * 2 powi (2 * k)"
  define s where "s = isqrt \<lfloor>y\<rfloor>"
  let ?p = "(2 :: rat) powi k"
  have p: "0 < ?p" "2 powi (2 * k) = ?p * ?p" by (simp_all flip: power_int_add)
  have y0: "0 < y" using assms(1) by (simp add: y_def)
  then have "0 \<le> \<lfloor>y\<rfloor>" by simp
  from isqrt_bounds [OF this] have s: "0 \<le> s" "s * s \<le> \<lfloor>y\<rfloor>" "\<lfloor>y\<rfloor> < (s + 1) * (s + 1)" by (simp_all add: s_def)
  have sy: "of_int (s * s) \<le> y" "y < of_int ((s + 1) * (s + 1))"
    using s(2,3) by (simp_all only: le_floor_iff floor_less_iff)
  have big: "2 ^ 55 \<le> s"
  proof (rule ccontr)
    assume "\<not> 2 ^ 55 \<le> s"
    then have "s + 1 \<le> 2 ^ 55" by simp
    then have "(s + 1) * (s + 1) \<le> 2 ^ 55 * 2 ^ 55" using s(1) by (intro mult_mono) simp_all
    then have "of_int ((s + 1) * (s + 1)) \<le> (of_int (2 ^ 110) :: rat)" unfolding of_int_le_iff by simp
    also have "\<dots> = 2 powi 110" by (subst powi_of_int) simp_all
    also have "\<dots> \<le> 2 powi (binexp x + 2 * k)" unfolding powi_le_iff k_def by simp
    also have "\<dots> = 2 powi binexp x * 2 powi (2 * k)" by (simp add: power_int_add)
    also have "\<dots> \<le> y" unfolding y_def using binexp_bounds(1) [of x] assms(1) by (intro mult_right_mono) simp_all
    finally show False using sy(2) by simp
  qed
  have root: "float_sqrt x = rnd ((of_int s + (if of_int (s * s) = y then 0 else 1/2)) / ?p)"
    using assms(1) by (simp add: float_sqrt_def Let_def k_def y_def s_def)
  let ?b = "a * ?p"
  have b: "0 \<le> ?b" "?b * ?b = a * a * (2 powi (2 * k))" "a = ?b / ?p" using assms(2) p by (simp_all add: algebra_simps)
  have le_root: "rnd a \<le> rnd (c / ?p)" if "?b \<le> c" for c using that p(1) by (intro rnd_mono) (simp add: pos_le_divide_eq)
  have ge_root: "rnd (c / ?p) \<le> rnd a" if "c \<le> ?b" for c using that p(1) by (intro rnd_mono) (simp add: pos_divide_le_eq)
  have exact: "float_sqrt x = rnd (of_int s / ?p)" if "of_int (s * s) = y" by (simp only: root that refl if_True add_0_right)
  have sticky: "float_sqrt x = rnd ((of_int s + 1/2) / ?p)" if "of_int (s * s) \<noteq> y" by (simp only: root that if_False)
  have eq_root: "rnd a = rnd (?b / ?p)" using p(1) by simp
  have half: "of_int s < (of_int s + 1/2 :: rat)" "(of_int s + 1/2 :: rat) < of_int s + 1" by simp_all
  show "rnd a \<le> float_sqrt x" if "a * a \<le> x"
  proof -
    have yb: "?b * ?b \<le> y" unfolding b(2) y_def using that by (intro mult_right_mono) simp_all
    show ?thesis
    proof (cases "of_int (s * s) = y")
      case True
      have "?b * ?b \<le> of_int s * of_int s" using yb unfolding True [symmetric] of_int_mult .
      then have "?b \<le> of_int s" by (rule sq_le [rotated]) (use s(1) in simp)
      then show ?thesis unfolding exact [OF True] by (rule le_root)
    next
      case False
      have "?b * ?b < of_int (s + 1) * of_int (s + 1)" using yb sy(2) by simp
      then have lt: "?b < of_int s + 1" using s(1) sq_less [of "of_int (s + 1)" ?b] by simp
      show ?thesis
      proof (cases "?b \<le> of_int s + 1/2")
        case True
        then show ?thesis unfolding sticky [OF False] by (rule le_root)
      next
        case mid: False
        have "rnd (?b / ?p) = rnd ((of_int s + 1/2) / ?p)" by (rule rnd_open [OF big]) (use mid lt half in linarith)+
        then show ?thesis unfolding sticky [OF False] eq_root by simp
      qed
    qed
  qed
  show "float_sqrt x \<le> rnd a" if "x \<le> a * a"
  proof -
    have yb: "y \<le> ?b * ?b" unfolding b(2) y_def using that by (intro mult_right_mono) simp_all
    then have "of_int s * of_int s \<le> ?b * ?b" using sy(1) by simp
    then have le: "of_int s \<le> ?b" by (rule sq_le [OF b(1)])
    show ?thesis
    proof (cases "of_int (s * s) = y")
      case True
      then show ?thesis unfolding exact [OF True] using le by (intro ge_root)
    next
      case False
      then have "?b \<noteq> of_int s" using yb sy(1) by auto
      then have lt: "of_int s < ?b" using le by simp
      show ?thesis
      proof (cases "of_int s + 1/2 \<le> ?b")
        case True
        then show ?thesis unfolding sticky [OF False] by (rule ge_root)
      next
        case mid: False
        have "rnd (?b / ?p) = rnd ((of_int s + 1/2) / ?p)" by (rule rnd_open [OF big]) (use mid lt half in linarith)+
        then show ?thesis unfolding sticky [OF False] eq_root by simp
      qed
    qed
  qed
qed

section \<open>The interval\<close>

definition Z_95 :: rat where
  "Z_95 = rnd (1959963984540054 / 1000000000000000)"

datatype stats_error = ValueError

definition wilson_interval :: "int \<Rightarrow> int \<Rightarrow> rat \<Rightarrow> stats_error + rat \<times> rat" where
  "wilson_interval successes n z =
     (if n = 0 then Inr (0, 1)
      else if successes < 0 \<or> n < successes then Inl ValueError
      else let phat = rnd (of_int successes / of_int n);
               z_sq = rnd (z * z);
               denom = rnd (1 + rnd (z_sq / rnd (of_int n)));
               center = rnd (rnd (phat + rnd (z_sq / rnd (of_int (2 * n)))) / denom);
               radicand = rnd (rnd (rnd (phat * rnd (1 - phat)) + rnd (z_sq / rnd (of_int (4 * n)))) / rnd (of_int n))
           in if radicand < 0 then Inl ValueError
              else let margin = rnd (rnd (z * float_sqrt radicand) / denom)
                   in Inr (max 0 (rnd (center - margin)), min 1 (rnd (center + margin))))"

section \<open>Properties of the interval\<close>

lemma rnd_count: "0 < n \<Longrightarrow> 1 \<le> rnd (of_int n)"
  by (rule b64.above [OF b64.one]) simp

lemma wilson_interval_unit:
  assumes "0 \<le> z"
  shows "case wilson_interval successes n z of
      Inl _ \<Rightarrow> n \<noteq> 0 \<and> (successes < 0 \<or> n < successes)
    | Inr (lower, upper) \<Rightarrow> (n = 0 \<or> 0 \<le> successes \<and> successes \<le> n) \<and> (n \<noteq> 0 \<or> lower = 0 \<and> upper = 1)
        \<and> 0 \<le> lower \<and> lower \<le> upper \<and> upper \<le> 1"
proof (cases "n = 0 \<or> successes < 0 \<or> n < successes")
  case True
  then show ?thesis by (auto simp: wilson_interval_def)
next
  case False
  then have n: "0 < n" and s: "0 \<le> successes" "successes \<le> n" by simp_all
  let ?phat = "rnd (of_int successes / of_int n)" and ?z2 = "rnd (z * z)"
  let ?denom = "rnd (1 + rnd (?z2 / rnd (of_int n)))"
  let ?center = "rnd (rnd (?phat + rnd (?z2 / rnd (of_int (2 * n)))) / ?denom)"
  let ?rad = "rnd (rnd (rnd (?phat * rnd (1 - ?phat)) + rnd (?z2 / rnd (of_int (4 * n)))) / rnd (of_int n))"
  let ?margin = "rnd (rnd (z * float_sqrt ?rad) / ?denom)"
  have "0 \<le> (of_int successes / of_int n :: rat)" "(of_int successes / of_int n :: rat) \<le> 1" using n s by simp_all
  then have phat: "0 \<le> ?phat" "?phat \<le> 1" using b64.unit_interval by blast+
  have z2: "0 \<le> ?z2" by (rule rnd_nonneg) (use assms in simp)
  have c: "1 \<le> rnd (of_int (k * n))" if "0 < k" for k by (rule rnd_count) (use n that in simp)
  have q: "0 \<le> rnd (?z2 / rnd (of_int (k * n)))" if "0 < k" for k
    by (rule rnd_nonneg) (use z2 c [OF that] in simp)
  have denom: "1 \<le> ?denom" using q [of 1] by (intro b64.above [OF b64.one]) simp
  have "?z2 / rnd (of_int (2 * n)) \<le> ?z2 / rnd (of_int n)"
  proof (rule frac_le [OF z2 order_refl])
    show "0 < rnd (of_int n)" using c [of 1] by simp
    show "rnd (of_int n) \<le> rnd (of_int (2 * n))" using n by (intro rnd_mono) simp
  qed
  then have "rnd (?phat + rnd (?z2 / rnd (of_int (2 * n)))) \<le> ?denom"
    using phat by (intro rnd_mono add_mono rnd_mono) simp_all
  then have "rnd (?phat + rnd (?z2 / rnd (of_int (2 * n)))) / ?denom \<le> 1"
    using denom by (intro divide_le_eq_1_pos [THEN iffD2]) linarith+
  moreover have "0 \<le> rnd (?phat + rnd (?z2 / rnd (of_int (2 * n)))) / ?denom"
  proof (rule divide_nonneg_nonneg)
    show "0 \<le> rnd (?phat + rnd (?z2 / rnd (of_int (2 * n))))" using phat q [of 2] by (intro rnd_nonneg) simp
  qed (use denom in linarith)
  ultimately have center: "0 \<le> ?center" "?center \<le> 1" using b64.unit_interval by blast+
  have "0 \<le> rnd (1 - ?phat)" by (rule rnd_nonneg) (use phat in linarith)
  then have "0 \<le> rnd (?phat * rnd (1 - ?phat))" using phat(1) by (rule b64.nonneg [OF mult_nonneg_nonneg, rotated])
  then have "0 \<le> rnd (rnd (?phat * rnd (1 - ?phat)) + rnd (?z2 / rnd (of_int (4 * n))))"
    using q [of 4] by (intro b64.nonneg [OF add_nonneg_nonneg]) simp_all
  then have rad: "0 \<le> ?rad" using c [of 1] by (intro b64.nonneg [OF divide_nonneg_nonneg]) simp_all
  have margin: "0 \<le> ?margin"
  proof (intro b64.nonneg [OF divide_nonneg_nonneg])
    show "0 \<le> rnd (z * float_sqrt ?rad)" by (rule b64.nonneg [OF mult_nonneg_nonneg [OF assms float_sqrt_nonneg]])
  qed (use denom in linarith)
  have lo: "rnd (?center - ?margin) \<le> 1" by (rule b64.below [OF b64.one]) (use center margin in simp)
  have hi: "0 \<le> rnd (?center + ?margin)" using center margin by (intro rnd_nonneg) simp
  have "rnd (?center - ?margin) \<le> rnd (?center + ?margin)" using margin by (intro rnd_mono) simp
  moreover have "wilson_interval successes n z = Inr (max 0 (rnd (?center - ?margin)), min 1 (rnd (?center + ?margin)))"
    using False rad by (simp add: wilson_interval_def Let_def)
  ultimately show ?thesis using n s lo hi by simp
qed

text \<open>
  C25. The interval is an interval of probabilities: for z at least 0, the call raises ValueError
  exactly for a count of successes outside 0..n with n nonzero, and otherwise returns
  0 <= lower <= upper <= 1 in spite of every rounding; with no trial it is (0, 1).
\<close>

theorem wilson_interval_bounds:
  assumes "0 \<le> z"
  shows "case wilson_interval successes n z of
      Inl _ \<Rightarrow> n \<noteq> 0 \<and> (successes < 0 \<or> n < successes)
    | Inr (lower, upper) \<Rightarrow> (n = 0 \<or> 0 \<le> successes \<and> successes \<le> n) \<and> (n \<noteq> 0 \<or> lower = 0 \<and> upper = 1)
        \<and> 0 \<le> lower \<and> lower \<le> upper \<and> upper \<le> 1"
  using assms by (rule wilson_interval_unit)

theorem wilson_interval_bounds_witness:
  "\<exists>lower upper. wilson_interval 73 80 Z_95 = Inr (lower, upper) \<and> 0 \<le> lower \<and> lower \<le> upper \<and> upper \<le> 1"
proof -
  have "0 \<le> Z_95" unfolding Z_95_def by (rule rnd_nonneg) simp
  from wilson_interval_bounds [OF this, where successes = 73 and n = 80] show ?thesis
    by (cases "wilson_interval 73 80 Z_95") (auto split: prod.splits)
qed

end
