(* ===== verification/Sieve.thy ===== *)
theory Sieve
  imports Stats
begin

text \<open>
  \<open>workload/src/workloadrunner/compute.py\<close>: the prime sieve that is the work of a phase. The
  bytearray is a list of bytes; reading or writing it out of range is an IndexError,
  \<open>None\<close>. The power \<open>limit ** 0.5\<close> is the C library's, whose error is documented to be
  below one unit in the last place but whose result is not the correctly rounded square root
  on every platform: it is a parameter, and the locale \<open>faithful_root\<close> states that accuracy.
  The correctly rounded root of \<open>Stats\<close> has it.
\<close>

section \<open>The sieve\<close>

text \<open>\<open>range(start, stop, step)\<close> for a positive step.\<close>

definition py_range :: "int \<Rightarrow> int \<Rightarrow> int \<Rightarrow> int list" where
  "py_range start stop step = map (\<lambda>i. start + int i * step) [0..<nat ((stop - start + step - 1) div step)]"

text \<open>The inner loop: \<open>is_prime[multiple] = 0\<close> for every multiple.\<close>

fun clear_all :: "int list \<Rightarrow> bytes \<Rightarrow> bytes option" where
  "clear_all [] a = Some a"
| "clear_all (i # is) a = (if 0 \<le> i \<and> i < int (length a) then clear_all is (a[nat i := 0]) else None)"

text \<open>The outer loop over the candidates that are left.\<close>

fun sieve_loop :: "int \<Rightarrow> int list \<Rightarrow> bytes \<Rightarrow> bytes option" where
  "sieve_loop limit [] a = Some a"
| "sieve_loop limit (c # cs) a =
     (if 0 \<le> c \<and> c < int (length a)
      then if a ! nat c \<noteq> 0
           then (case clear_all (py_range (c * c) (limit + 1) c) a of
                   None \<Rightarrow> None
                 | Some a' \<Rightarrow> sieve_loop limit cs a')
           else sieve_loop limit cs a
      else None)"

definition run_prime_sieve :: "(rat \<Rightarrow> rat) \<Rightarrow> int \<Rightarrow> nat option" where
  "run_prime_sieve rt limit =
     (if limit < 2 then Some 0
      else map_option (\<lambda>a. sum_list (map unat a))
        (sieve_loop limit (py_range 2 (\<lfloor>rt (rnd (of_int limit))\<rfloor> + 1) 1)
          ((replicate (nat (limit + 1)) 1)[0 := 0, 1 := 0])))"

section \<open>The loops\<close>

lemma le_div_pos:
  fixes s :: int
  assumes "0 < s"
  shows "k \<le> n div s \<longleftrightarrow> k * s \<le> n"
proof
  assume "k \<le> n div s"
  then have "k * s \<le> n div s * s" using assms by (intro mult_right_mono) simp_all
  moreover have "n div s * s \<le> n" using assms by (simp add: minus_mod_eq_div_mult [symmetric])
  ultimately show "k * s \<le> n" by simp
next
  assume "k * s \<le> n"
  from zdiv_mono1 [OF this assms] show "k \<le> n div s" using assms by simp
qed

lemma set_py_range:
  assumes "0 < step"
  shows "x \<in> set (py_range start stop step) \<longleftrightarrow> start \<le> x \<and> x < stop \<and> step dvd x - start"
proof
  assume "x \<in> set (py_range start stop step)"
  then obtain i where "i < nat ((stop - start + step - 1) div step)" and i: "x = start + int i * step"
    unfolding py_range_def by auto
  then have "int i + 1 \<le> (stop - start + step - 1) div step" by linarith
  then have "(int i + 1) * step \<le> stop - start + step - 1"
    using assms by (simp add: le_div_pos)
  then show "start \<le> x \<and> x < stop \<and> step dvd x - start" using i assms by (simp add: distrib_right)
next
  assume x: "start \<le> x \<and> x < stop \<and> step dvd x - start"
  then obtain j where j: "x = start + j * step" by (metis add.commute diff_add_cancel dvd_def mult.commute)
  have "0 \<le> j" using x j assms by (simp add: zero_le_mult_iff)
  have "(j + 1) * step \<le> stop - start + step - 1" using x j by (simp add: distrib_right)
  then have "j + 1 \<le> (stop - start + step - 1) div step" using assms by (simp add: le_div_pos)
  then show "x \<in> set (py_range start stop step)" using j \<open>0 \<le> j\<close>
    by (auto simp: py_range_def intro!: image_eqI [of _ _ "nat j"])
qed

lemma py_range_unit: "py_range start stop 1 = [start..stop - 1]"
  by (intro nth_equalityI) (simp_all add: py_range_def)

lemma clear_all_result:
  assumes "\<forall>i\<in>set is. 0 \<le> i \<and> i < int (length a)"
  shows "\<exists>a'. clear_all is a = Some a' \<and> length a' = length a
    \<and> (\<forall>j<length a. a' ! j = (if int j \<in> set is then 0 else a ! j))"
  using assms
proof (induction "is" arbitrary: a)
  case (Cons i "is")
  from Cons.IH [of "a[nat i := 0]"] Cons.prems show ?case
    by (fastforce simp: nth_list_update)
qed simp

text \<open>
  The array once the candidates below \<open>c\<close> are done: an index is cleared when it is below 2 or
  has a divisor below \<open>c\<close> whose square does not exceed it.
\<close>

definition struck :: "int \<Rightarrow> int \<Rightarrow> bool" where
  "struck c j \<longleftrightarrow> j < 2 \<or> (\<exists>d. 2 \<le> d \<and> d < c \<and> d * d \<le> j \<and> d dvd j)"

definition sieved :: "int \<Rightarrow> int \<Rightarrow> bytes \<Rightarrow> bool" where
  "sieved limit c a \<longleftrightarrow> length a = nat (limit + 1)
     \<and> (\<forall>j<length a. a ! j = (if struck c (int j) then 0 else 1))"

text \<open>A candidate that is struck itself has no multiple left to strike.\<close>

lemma struck_Suc:
  assumes "2 \<le> c"
  shows "struck (c + 1) j \<longleftrightarrow> struck c j \<or> \<not> struck c c \<and> c * c \<le> j \<and> c dvd j"
proof -
  have "struck c j" if s: "struck c c" and j: "c * c \<le> j" "c dvd j"
  proof -
    obtain d where d: "2 \<le> d" "d < c" "d * d \<le> c" "d dvd c" using s assms by (auto simp: struck_def)
    have "c * 1 \<le> c * c" using assms by (intro mult_left_mono) simp_all
    then have "d * d \<le> j" using d(3) j(1) by linarith
    then show ?thesis using d j(2) dvd_trans unfolding struck_def by blast
  qed
  moreover have "struck (c + 1) j \<longleftrightarrow> struck c j \<or> c * c \<le> j \<and> c dvd j"
  proof -
    have "d < c + 1 \<longleftrightarrow> d < c \<or> d = c" for d by auto
    then show ?thesis unfolding struck_def using assms by blast
  qed
  ultimately show ?thesis by blast
qed

lemma sieve_loop_result:
  assumes "sieved limit c a" and "2 \<le> c" and "r \<le> limit"
  shows "\<exists>a'. sieve_loop limit [c..r] a = Some a' \<and> sieved limit (max c (r + 1)) a'"
  using assms(1,2)
proof (induction "nat (r + 1 - c)" arbitrary: c a)
  case 0
  then show ?case by (simp add: max_def)
next
  case (Suc n)
  then have c: "2 \<le> c" "c \<le> r" by simp_all
  have len: "int (length a) = limit + 1" using Suc.prems(1) c assms(3) by (simp add: sieved_def)
  have cr: "[c..r] = c # [c + 1..r]" using c by (simp add: upto_rec1)
  have ac: "a ! nat c \<noteq> 0 \<longleftrightarrow> \<not> struck c c" using Suc.prems(1) c len assms(3) by (simp add: sieved_def)
  have rest: "\<exists>a''. sieve_loop limit [c + 1..r] a' = Some a'' \<and> sieved limit (max c (r + 1)) a''"
    if "sieved limit (c + 1) a'" for a'
    using Suc.hyps(1) [OF _ that] Suc.hyps(2) c by (simp add: max_def split: if_splits)
  show ?case
  proof (cases "struck c c")
    case True
    then have "sieved limit (c + 1) a" using Suc.prems(1) c by (simp add: sieved_def struck_Suc)
    from rest [OF this] show ?thesis using True c len assms(3) ac by (simp add: cr)
  next
    case False
    let ?is = "py_range (c * c) (limit + 1) c"
    have in_is: "i \<in> set ?is \<longleftrightarrow> c * c \<le> i \<and> i \<le> limit \<and> c dvd i" for i
      using c by (subst set_py_range) (auto simp: dvd_diff_left_iff)
    have "0 \<le> c * c" by simp
    then have "0 \<le> i \<and> i < int (length a)" if "i \<in> set ?is" for i using that unfolding in_is len by linarith
    then have "\<forall>i\<in>set ?is. 0 \<le> i \<and> i < int (length a)" by blast
    from clear_all_result [OF this] obtain a' where a': "clear_all ?is a = Some a'" "length a' = length a"
      "\<forall>j<length a. a' ! j = (if int j \<in> set ?is then 0 else a ! j)" by blast
    have "a' ! j = (if struck (c + 1) (int j) then 0 else 1)" if "j < length a" for j
      using a'(3) that Suc.prems(1) False len unfolding in_is struck_Suc [OF c(1)] sieved_def by auto
    then have "sieved limit (c + 1) a'" using a'(2) Suc.prems(1) by (simp add: sieved_def)
    from rest [OF this] show ?thesis using False c len assms(3) ac a'(1) by (simp add: cr)
  qed
qed

section \<open>The root\<close>

text \<open>
  A power function whose error is below one unit in the last place: a float whose square is
  at most the argument is not above the result, and dually.
\<close>

locale faithful_root =
  fixes rt :: "rat \<Rightarrow> rat"
  assumes root_above: "0 < x \<Longrightarrow> 0 \<le> a \<Longrightarrow> rnd a = a \<Longrightarrow> a * a \<le> x \<Longrightarrow> a \<le> rt x"
    and root_below: "0 < x \<Longrightarrow> 0 \<le> a \<Longrightarrow> rnd a = a \<Longrightarrow> x \<le> a * a \<Longrightarrow> rt x \<le> a"
begin

text \<open>The last candidate is at least every integer root, and an index of the array.\<close>

lemma last_candidate:
  assumes "2 \<le> limit" and "limit < 2 ^ 53"
  shows "0 \<le> d \<Longrightarrow> d * d \<le> limit \<Longrightarrow> d \<le> \<lfloor>rt (of_int limit)\<rfloor>" and "\<lfloor>rt (of_int limit)\<rfloor> \<le> limit"
proof -
  assume d: "0 \<le> d" "d * d \<le> limit"
  have "d * 1 \<le> d * d \<or> d = 0" using d(1) by (cases "d = 0") (auto intro: mult_left_mono)
  then have "d \<le> 2 ^ 53" using d assms(2) by auto
  then have "\<bar>d\<bar> \<le> 2 ^ 53" using d(1) by simp
  then have "rnd (of_int d) = of_int d" by (rule rnd_of_int)
  moreover have "of_int d * of_int d \<le> (of_int limit :: rat)" using d(2) by (metis of_int_le_iff of_int_mult)
  ultimately have "of_int d \<le> rt (of_int limit)" using assms(1) d(1) by (intro root_above) simp_all
  then show "d \<le> \<lfloor>rt (of_int limit)\<rfloor>" by (simp add: le_floor_iff)
next
  have "limit * 1 \<le> limit * limit" using assms(1) by (intro mult_left_mono) simp_all
  then have "of_int limit \<le> of_int limit * (of_int limit :: rat)" by (metis mult_1_right of_int_le_iff of_int_mult)
  then have "rt (of_int limit) \<le> of_int limit" using assms by (intro root_below) simp_all
  then show "\<lfloor>rt (of_int limit)\<rfloor> \<le> limit" by linarith
qed

end

interpretation libm: faithful_root float_sqrt
proof
  fix x a :: rat
  assume *: "0 < x" "0 \<le> a" "rnd a = a"
  show "a \<le> float_sqrt x" if "a * a \<le> x" using float_sqrt_correct(1) [OF *(1,2) that] *(3) by simp
  show "float_sqrt x \<le> a" if "x \<le> a * a" using float_sqrt_correct(2) [OF *(1,2) that] *(3) by simp
qed

section \<open>The primes\<close>

definition prime_number :: "int \<Rightarrow> bool" where
  "prime_number p \<longleftrightarrow> 1 < p \<and> (\<forall>d\<in>{2..<p}. \<not> d dvd p)"

text \<open>A composite number has a divisor whose square does not exceed it.\<close>

lemma not_struck_prime:
  assumes "\<And>d. 0 \<le> d \<Longrightarrow> d * d \<le> j \<Longrightarrow> d < c"
  shows "\<not> struck c j \<longleftrightarrow> prime_number j"
proof
  assume n: "\<not> struck c j"
  have "\<not> d dvd j" if d: "2 \<le> d" "d < j" for d
  proof
    assume "d dvd j"
    then obtain e where e: "j = d * e" by blast
    have "d * 1 < d * e" using d e by simp
    then have "1 < e" using d(1) by (simp only: mult_less_cancel_left_pos)
    define m where "m = min d e"
    have "2 \<le> m" "m dvd j" using d \<open>1 < e\<close> e by (auto simp: m_def min_def)
    moreover have "m * m \<le> j" unfolding e using d \<open>1 < e\<close> by (intro mult_mono) (simp_all add: m_def)
    moreover have "m < c" using assms \<open>m * m \<le> j\<close> \<open>2 \<le> m\<close> by simp
    ultimately show False using n by (auto simp: struck_def)
  qed
  then show "prime_number j" using n by (auto simp: struck_def prime_number_def)
next
  assume p: "prime_number j"
  have "d < j" if "2 \<le> d" "d * d \<le> j" for d
  proof -
    have "d * 2 \<le> d * d" using that by (intro mult_left_mono) simp_all
    then show ?thesis using that by linarith
  qed
  then show "\<not> struck c j" using p by (auto simp: struck_def prime_number_def)
qed

lemma sum_of_flags:
  "\<forall>j<length a. a ! j = (if P j then 0 else 1) \<Longrightarrow> sum_list (map unat (a :: bytes)) = card {j. j < length a \<and> \<not> P j}"
proof (induction a rule: rev_induct)
  case (snoc x a)
  have "a ! j = (if P j then 0 else 1)" if "j < length a" for j
    using spec [OF snoc.prems, of j] that by (simp add: nth_append)
  then have "sum_list (map unat a) = card {j. j < length a \<and> \<not> P j}" using snoc.IH by blast
  moreover have "x = (if P (length a) then 0 else 1)" using spec [OF snoc.prems, of "length a"] by simp
  moreover have "{j. j < length (a @ [x]) \<and> \<not> P j} = {j. j < length a \<and> \<not> P j} \<union> (if P (length a) then {} else {length a})"
    by (auto simp: less_Suc_eq)
  ultimately show ?case by simp
qed simp

lemma run_prime_sieve_primes:
  assumes "faithful_root rt" and "limit < 2 ^ 53"
  shows "run_prime_sieve rt limit = Some (card {p. prime_number p \<and> p \<le> limit})"
proof (cases "limit < 2")
  case True
  then have "{p. prime_number p \<and> p \<le> limit} = {}" by (auto simp: prime_number_def)
  then show ?thesis using True by (simp only: run_prime_sieve_def if_True card.empty)
next
  case False
  let ?r = "\<lfloor>rt (of_int limit)\<rfloor>" and ?a = "(replicate (nat (limit + 1)) (1 :: byte))[0 := 0, 1 := 0]"
  note last = faithful_root.last_candidate [OF assms(1) _ assms(2)]
  have "sieved limit 2 ?a" using False by (auto simp: sieved_def struck_def nth_list_update)
  from sieve_loop_result [OF this, of ?r] obtain a where a: "sieve_loop limit [2..?r] ?a = Some a"
    "sieved limit (max 2 (?r + 1)) a" using last(2) False by auto
  have prime: "\<not> struck (max 2 (?r + 1)) j \<longleftrightarrow> prime_number j" if "j \<le> limit" for j
    by (rule not_struck_prime) (use last(1) False that in fastforce)
  have "struck (max 2 (?r + 1)) (int j) \<longleftrightarrow> \<not> prime_number (int j)" if "j < length a" for j
  proof -
    have "int j \<le> limit" using a(2) that by (simp add: sieved_def)
    then show ?thesis using prime by blast
  qed
  then have "\<forall>j<length a. a ! j = (if \<not> prime_number (int j) then 0 else 1)"
    using a(2) by (simp add: sieved_def)
  from sum_of_flags [OF this]
  have "sum_list (map unat a) = card {j. j < length a \<and> prime_number (int j)}" by simp
  also have "\<dots> = card (int ` {j. j < length a \<and> prime_number (int j)})" by (simp add: card_image)
  also have "int ` {j. j < length a \<and> prime_number (int j)} = {p. prime_number p \<and> p \<le> limit}"
    using a(2) by (auto simp: sieved_def prime_number_def image_iff intro!: exI [of _ "nat _"])
  finally show ?thesis using False a(1) assms(2) by (simp add: run_prime_sieve_def py_range_unit)
qed

text \<open>
  C26. The sieve is right: it reads and writes the array within its bounds and returns the
  number of primes up to the limit, although the last candidate is computed in floating point,
  for every power function whose error is below a unit in the last place and every limit whose
  array fits into memory.
\<close>

theorem sieve_counts_primes:
  assumes "\<And>x a. 0 < x \<Longrightarrow> 0 \<le> a \<Longrightarrow> rnd a = a \<Longrightarrow> a * a \<le> x \<Longrightarrow> a \<le> rt x"
    and "\<And>x a. 0 < x \<Longrightarrow> 0 \<le> a \<Longrightarrow> rnd a = a \<Longrightarrow> x \<le> a * a \<Longrightarrow> rt x \<le> a"
    and "limit < 2 ^ 53"
  shows "run_prime_sieve rt limit = Some (card {p. prime_number p \<and> p \<le> limit})"
  by (rule run_prime_sieve_primes [OF faithful_root.intro [OF assms(1,2)] assms(3)])

theorem sieve_counts_primes_witness:
  "run_prime_sieve float_sqrt 2000000 = Some (card {p. prime_number p \<and> p \<le> 2000000})"
  by (rule sieve_counts_primes [OF libm.root_above libm.root_below]) simp_all

end
