(* ===== verification/Framing.thy ===== *)
theory Framing
  imports Prelude
begin

text \<open>
  \<open>ingestion/src/hpctel/framing.py\<close> and the wire constants of \<open>constants.py\<close>: the
  frame decoder, and the encoder of \<open>workload/src/workloadrunner/reporter.py\<close> whose
  frames it reads. A frame is a tag byte, a 4-byte big-endian length and the payload.

  The lemmas show that the two are inverse to each other on every payload of less than
  2 to the 32 bytes, that an incomplete frame is never decoded and never refused, and that
  what follows a complete frame does not change how it is decoded. The locale
  \<open>frame_decoder\<close> states that contract for the connection loop.
\<close>

section \<open>The decoder\<close>

definition FRAME_TAG_SAMPLE_BATCH :: int where
  "FRAME_TAG_SAMPLE_BATCH = 1"

definition FRAME_TAG_PHASE_EVENT :: int where
  "FRAME_TAG_PHASE_EVENT = 2"

definition FRAME_HEADER_LENGTH :: nat where
  "FRAME_HEADER_LENGTH = 5"

definition KNOWN_TAGS :: "int list" where
  "KNOWN_TAGS = [FRAME_TAG_SAMPLE_BATCH, FRAME_TAG_PHASE_EVENT]"

datatype framing_error = UnknownFrameTagError

record decoded_frame =
  tag :: int
  payload :: bytes

text \<open>\<open>int.from_bytes(bs, byteorder="big", signed=False)\<close>\<close>

definition int_from_bytes_big :: "bytes \<Rightarrow> nat" where
  "int_from_bytes_big bs = foldl (\<lambda>n b. n * 256 + unat b) 0 bs"

definition decode_frame :: "bytes \<Rightarrow> framing_error + decoded_frame option \<times> nat" where
  "decode_frame buffer =
     (if length buffer < 1 then Inr (None, 0)
      else let tg = uint (buffer ! 0) in
        if tg \<notin> set KNOWN_TAGS then Inl UnknownFrameTagError
        else if length buffer < FRAME_HEADER_LENGTH then Inr (None, 0)
        else let len = int_from_bytes_big (py_slice 1 FRAME_HEADER_LENGTH buffer);
                 total = FRAME_HEADER_LENGTH + len in
          if length buffer < total then Inr (None, 0)
          else Inr (Some \<lparr>tag = tg, payload = py_slice FRAME_HEADER_LENGTH total buffer\<rparr>, total))"

section \<open>The encoder\<close>

text \<open>\<open>n.to_bytes(k, "big")\<close>; \<open>None\<close> is OverflowError.\<close>

primrec be_bytes :: "nat \<Rightarrow> nat \<Rightarrow> bytes" where
  "be_bytes 0 n = []"
| "be_bytes (Suc k) n = be_bytes k (n div 256) @ [word_of_nat (n mod 256)]"

definition to_bytes_big :: "nat \<Rightarrow> nat \<Rightarrow> bytes option" where
  "to_bytes_big k n = (if n < 256 ^ k then Some (be_bytes k n) else None)"

text \<open>\<open>bytes([tag]) + len(payload).to_bytes(4, "big") + payload\<close>\<close>

definition encode_frame :: "byte \<Rightarrow> bytes \<Rightarrow> bytes option" where
  "encode_frame tg p = (case to_bytes_big 4 (length p) of
     None \<Rightarrow> None | Some l \<Rightarrow> Some ([tg] @ l @ p))"

section \<open>Correctness of the codec\<close>

lemma length_be_bytes [simp]: "length (be_bytes k n) = k"
  by (induction k arbitrary: n) simp_all

lemma int_from_bytes_big_Nil [simp]: "int_from_bytes_big [] = 0"
  by (simp add: int_from_bytes_big_def)

lemma int_from_bytes_big_snoc [simp]:
  "int_from_bytes_big (bs @ [b]) = int_from_bytes_big bs * 256 + unat b"
  by (simp add: int_from_bytes_big_def)

lemma int_from_be_bytes: "n < 256 ^ k \<Longrightarrow> int_from_bytes_big (be_bytes k n) = n"
proof (induction k arbitrary: n)
  case (Suc k)
  then have "n div 256 < 256 ^ k" by (simp add: less_mult_imp_div_less mult.commute)
  with Suc.IH have "int_from_bytes_big (be_bytes k (n div 256)) = n div 256" by blast
  then show ?case by (simp add: unat_of_nat)
qed simp

lemma be_bytes_int_from: "be_bytes (length bs) (int_from_bytes_big bs) = bs"
proof (induction bs rule: rev_induct)
  case (snoc b bs)
  have "unat b < 256" using unsigned_less [of b, where 'a = nat] by simp
  then show ?case using snoc by simp
qed simp

lemma int_from_bytes_big_bound: "int_from_bytes_big bs < 256 ^ length bs"
proof (induction bs rule: rev_induct)
  case (snoc b bs)
  have "unat b < 256" using unsigned_less [of b, where 'a = nat] by simp
  with snoc show ?case by simp
qed simp

lemma length_encode_frame:
  "encode_frame tg p = Some bs \<Longrightarrow> length bs = FRAME_HEADER_LENGTH + length p"
  by (auto simp: encode_frame_def to_bytes_big_def FRAME_HEADER_LENGTH_def split: if_splits)

lemma encode_frame_Some [result_iff]:
  "encode_frame tg p = Some bs \<longleftrightarrow> length p < 256 ^ 4 \<and> bs = tg # be_bytes 4 (length p) @ p"
  by (auto simp: encode_frame_def to_bytes_big_def)

text \<open>The decoder's cases, over the header fields of the buffer.\<close>

lemma decode_frame_header:
  assumes "length h = 4"
  shows "decode_frame (tg # h @ rest) =
    (if uint tg \<notin> set KNOWN_TAGS then Inl UnknownFrameTagError
     else let len = int_from_bytes_big h in
       if length rest < len then Inr (None, 0)
       else Inr (Some \<lparr>tag = uint tg, payload = take len rest\<rparr>, 5 + len))"
  using assms by (simp add: decode_frame_def py_slice_def FRAME_HEADER_LENGTH_def Let_def)

lemma decode_frame_short:
  "bs \<noteq> [] \<Longrightarrow> length bs < 5 \<Longrightarrow> uint (hd bs) \<in> set KNOWN_TAGS \<Longrightarrow> decode_frame bs = Inr (None, 0)"
  by (cases bs) (simp_all add: decode_frame_def FRAME_HEADER_LENGTH_def)

lemma decode_frame_Nil [simp]: "decode_frame [] = Inr (None, 0)"
  by (simp add: decode_frame_def)

lemma header_split:
  assumes "5 \<le> length bs"
  obtains tg h rest where "bs = tg # h @ rest" and "length h = 4"
proof (cases bs)
  case (Cons b cs)
  show thesis
  proof (rule that [of b "take 4 cs" "drop 4 cs"])
    show "bs = b # take 4 cs @ drop 4 cs" using Cons by simp
    show "length (take 4 cs) = 4" using Cons assms by simp
  qed
qed (use assms in simp)

lemma known_not_empty: "decode_frame bs = Inl e \<longleftrightarrow> bs \<noteq> [] \<and> uint (hd bs) \<notin> set KNOWN_TAGS"
  by (cases bs; cases e) (auto simp: decode_frame_def Let_def)

lemma decode_frame_SomeE:
  assumes "decode_frame bs = Inr (Some f, n)"
  obtains tg h rest where "bs = tg # h @ rest" and "length h = 4"
    and "uint tg \<in> set KNOWN_TAGS" and "int_from_bytes_big h \<le> length rest"
    and "f = \<lparr>tag = uint tg, payload = take (int_from_bytes_big h) rest\<rparr>"
    and "n = 5 + int_from_bytes_big h"
proof -
  have "5 \<le> length bs"
    using assms by (auto simp: decode_frame_def Let_def FRAME_HEADER_LENGTH_def split: if_splits)
  then obtain tg h rest where bs: "bs = tg # h @ rest" "length h = 4" by (rule header_split)
  show thesis
    using assms bs by (intro that [OF bs]) (auto simp: decode_frame_header Let_def split: if_splits)
qed

lemma decode_frame_NoneD: "decode_frame bs = Inr (None, k) \<Longrightarrow> k = 0"
  by (auto simp: decode_frame_def Let_def split: if_splits)

lemma decode_frame_consumed:
  assumes "decode_frame bs = Inr (Some f, n)"
  shows "n = FRAME_HEADER_LENGTH + length (payload f)" and "n \<le> length bs"
  by (rule decode_frame_SomeE [OF assms], simp add: FRAME_HEADER_LENGTH_def)+

lemma decode_frame_extend:
  assumes "decode_frame bs = Inr (Some f, n)"
  shows "decode_frame (bs @ c) = Inr (Some f, n)"
  by (rule decode_frame_SomeE [OF assms]) (simp add: decode_frame_header Let_def)

lemma decode_frame_known_tag:
  assumes "decode_frame bs = Inr (Some f, n)"
  shows "tag f \<in> set KNOWN_TAGS"
  by (rule decode_frame_SomeE [OF assms]) simp

lemma decode_encode:
  assumes "encode_frame tg p = Some bs" and "uint tg \<in> set KNOWN_TAGS"
  shows "decode_frame (bs @ rest) = Inr (Some \<lparr>tag = uint tg, payload = p\<rparr>, length bs)"
proof -
  have bs: "bs = tg # be_bytes 4 (length p) @ p" and len: "length p < 256 ^ 4"
    using assms(1) by (auto simp: encode_frame_Some)
  then show ?thesis
    using assms(2) int_from_be_bytes [OF len] by (simp add: decode_frame_header Let_def)
qed

lemma encode_decode:
  assumes "decode_frame bs = Inr (Some f, n)"
  shows "encode_frame (hd bs) (payload f) = Some (take n bs) \<and> uint (hd bs) = tag f"
proof -
  from assms obtain tg h rest where bs: "bs = tg # h @ rest" and h: "length h = 4"
    and le: "int_from_bytes_big h \<le> length rest"
    and f: "f = \<lparr>tag = uint tg, payload = take (int_from_bytes_big h) rest\<rparr>"
    and n: "n = 5 + int_from_bytes_big h"
    by (rule decode_frame_SomeE)
  have "be_bytes 4 (int_from_bytes_big h) = h" using be_bytes_int_from [of h] h by simp
  moreover have "int_from_bytes_big h < 256 ^ 4" using int_from_bytes_big_bound [of h] h by simp
  ultimately show ?thesis using bs h le f n by (simp add: encode_frame_Some take_Cons')
qed

lemma decode_incomplete:
  assumes "encode_frame tg p = Some bs" and "uint tg \<in> set KNOWN_TAGS" and "k < length bs"
  shows "decode_frame (take k bs) = Inr (None, 0)"
proof (cases "k < 5")
  case True
  show ?thesis
  proof (cases "k = 0")
    case False
    then have "take k bs \<noteq> []" and "hd (take k bs) = tg"
      using assms by (auto simp: encode_frame_Some)
    with True assms(2) show ?thesis by (intro decode_frame_short) auto
  qed simp
next
  case False
  have bs: "bs = tg # be_bytes 4 (length p) @ p" and len: "length p < 256 ^ 4"
    using assms(1) by (auto simp: encode_frame_Some)
  from False bs have "take k bs = tg # be_bytes 4 (length p) @ take (k - 5) p"
    by (cases k) simp_all
  then show ?thesis
    using assms(2,3) False bs int_from_be_bytes [OF len] by (simp add: decode_frame_header Let_def)
qed

section \<open>The decoder's contract\<close>

text \<open>
  \<open>reads dec b fs b'\<close>: taking one frame after another from the front of \<open>b\<close> with
  \<open>dec\<close> gives the frames \<open>fs\<close> and leaves \<open>b'\<close>.
\<close>

inductive reads :: "(bytes \<Rightarrow> 'e + 'f option \<times> nat) \<Rightarrow> bytes \<Rightarrow> 'f list \<Rightarrow> bytes \<Rightarrow> bool"
  for dec :: "bytes \<Rightarrow> 'e + 'f option \<times> nat" where
  reads_none: "reads dec b [] b"
| reads_frame: "dec b = Inr (Some f, n) \<Longrightarrow> reads dec (drop n b) fs b' \<Longrightarrow> reads dec b (f # fs) b'"

inductive_cases reads_NilE [elim!]: "reads dec b [] b'"
inductive_cases reads_ConsE: "reads dec b (f # fs) b'"

locale frame_decoder =
  fixes dec :: "bytes \<Rightarrow> 'e + 'f option \<times> nat"
  assumes progress: "dec b = Inr (Some f, n) \<Longrightarrow> 0 < n \<and> n \<le> length b"
    and extend: "dec b = Inr (Some f, n) \<Longrightarrow> dec (b @ c) = Inr (Some f, n)"
    and extend_error: "dec b = Inl e \<Longrightarrow> dec (b @ c) = Inl e"
    and waits: "dec b = Inr (None, k) \<Longrightarrow> k = 0"
begin

lemma reads_append: "reads dec b fs b' \<Longrightarrow> reads dec (b @ c) fs (b' @ c)"
proof (induction rule: reads.induct)
  case (reads_frame b f n fs b')
  then have "drop n (b @ c) = drop n b @ c" using progress by simp
  with reads_frame show ?case by (metis extend reads.reads_frame)
qed (rule reads_none)

lemma reads_trans: "reads dec b fs b' \<Longrightarrow> reads dec b' gs b'' \<Longrightarrow> reads dec b (fs @ gs) b''"
  by (induction rule: reads.induct) (auto intro: reads.intros)

text \<open>Frames read from the first part of a stream are read from the whole stream.\<close>

lemma reads_stream:
  "reads dec b fs b' \<Longrightarrow> reads dec (b' @ c) gs b'' \<Longrightarrow> reads dec (b @ c) (fs @ gs) b''"
  by (rule reads_trans [OF reads_append])

lemma reads_shorter: "reads dec b fs b' \<Longrightarrow> length b' + length fs \<le> length b"
proof (induction rule: reads.induct)
  case (reads_frame b f n fs b')
  then have "0 < n" "n \<le> length b" using progress by blast+
  with reads_frame.IH show ?case by simp
qed simp

lemma reads_comparable:
  "reads dec b fs b1 \<Longrightarrow> reads dec b gs b2 \<Longrightarrow> length fs \<le> length gs \<Longrightarrow>
    \<exists>hs. gs = fs @ hs \<and> reads dec b1 hs b2"
proof (induction arbitrary: gs rule: reads.induct)
  case (reads_frame b f n fs b')
  then obtain g gs' where gs: "gs = g # gs'" by (cases gs) auto
  with reads_frame.prems have "reads dec (drop n b) gs' b2" and "g = f"
    using reads_frame.hyps(1) by (auto elim: reads_ConsE)
  with reads_frame.IH reads_frame.prems(2) gs show ?case by auto
qed auto

text \<open>Every buffer can be read until no complete frame is left at its front.\<close>

lemma reads_maximal: "\<exists>fs b'. reads dec b fs b' \<and> (\<forall>f n. dec b' \<noteq> Inr (Some f, n))"
proof (induction b rule: length_induct)
  case (1 b)
  show ?case
  proof (cases "\<exists>f n. dec b = Inr (Some f, n)")
    case True
    then obtain f n where fn: "dec b = Inr (Some f, n)" by blast
    then have "length (drop n b) < length b" using progress by fastforce
    with "1.IH" fn show ?thesis by (metis reads.reads_frame)
  qed (auto intro: reads_none)
qed

lemma reads_stuck: "reads dec x hs y \<Longrightarrow> \<forall>f n. dec x \<noteq> Inr (Some f, n) \<Longrightarrow> hs = [] \<and> x = y"
  by (erule reads.cases) auto

text \<open>
  Reading a prefix of a stream as far as possible: what is read is a prefix of what the
  whole stream gives, and unless the whole stream is refused, the prefix is not refused.
\<close>

lemma reads_prefix:
  assumes "reads dec (b @ c) fs b'" and "dec b' = Inr (None, 0)"
    and "reads dec b gs b1" and "\<forall>f n. dec b1 \<noteq> Inr (Some f, n)"
  shows "dec b1 = Inr (None, 0) \<and> (\<exists>hs. fs = gs @ hs \<and> reads dec (b1 @ c) hs b')"
proof -
  have r: "reads dec (b @ c) gs (b1 @ c)" using assms(3) by (rule reads_append)
  have hs: "\<exists>hs. fs = gs @ hs \<and> reads dec (b1 @ c) hs b'"
  proof (cases "length gs \<le> length fs")
    case True
    then show ?thesis using reads_comparable [OF r assms(1)] by blast
  next
    case False
    then obtain hs where "gs = fs @ hs" "reads dec b' hs (b1 @ c)"
      using reads_comparable [OF assms(1) r] by auto
    moreover from this have "hs = []" using reads_stuck assms(2) by fastforce
    ultimately show ?thesis using False by simp
  qed
  have "dec b1 \<noteq> Inl e" for e
  proof
    assume "dec b1 = Inl e"
    then have "dec (b1 @ c) = Inl e" by (rule extend_error)
    then have "dec b' = Inl e" using hs reads_stuck by fastforce
    then show False using assms(2) by simp
  qed
  then obtain o1 k where o1: "dec b1 = Inr (o1, k)" by (metis sum.exhaust surj_pair)
  then have "o1 = None" using assms(4) by (cases o1) auto
  with o1 waits have "dec b1 = Inr (None, 0)" by blast
  with hs show ?thesis by blast
qed

text \<open>
  Two readings that both stop where the decoder finds no complete frame are the same.
\<close>

lemma reads_unique:
  assumes "reads dec b fs b1" and "reads dec b gs b2"
    and "\<And>f n. dec b1 \<noteq> Inr (Some f, n)" and "\<And>f n. dec b2 \<noteq> Inr (Some f, n)"
  shows "fs = gs \<and> b1 = b2"
proof -
  have stop: "hs = [] \<and> x = y" if "reads dec x hs y" "\<And>f n. dec x \<noteq> Inr (Some f, n)" for hs x y
    using that reads_stuck by blast
  show ?thesis
  proof (cases "length fs \<le> length gs")
    case True
    then show ?thesis using reads_comparable [OF assms(1,2)] stop assms(3) by fastforce
  next
    case False
    then show ?thesis using reads_comparable [OF assms(2,1)] stop assms(4) by fastforce
  qed
qed

end

interpretation fd: frame_decoder decode_frame
proof unfold_locales
  fix b c :: bytes and f n k
  assume "decode_frame b = Inr (Some f, n)"
  then show "0 < n \<and> n \<le> length b" and "decode_frame (b @ c) = Inr (Some f, n)"
    using decode_frame_consumed [of b f n] decode_frame_extend [of b f n] by (simp_all add: FRAME_HEADER_LENGTH_def)
next
  fix b c :: bytes and e
  assume "decode_frame b = Inl e"
  then show "decode_frame (b @ c) = Inl e" by (auto simp: known_not_empty)
qed (rule decode_frame_NoneD)

section \<open>Properties of the framing\<close>

text \<open>
  C39. Every frame an agent sends is read back: whatever follows it in the buffer, the decoder
  returns its tag and payload and consumes exactly its bytes; and of every proper prefix it
  waits for more, consuming nothing.
\<close>

theorem frame_roundtrip:
  assumes "encode_frame tg p = Some bs" and "uint tg \<in> set KNOWN_TAGS"
  shows "decode_frame (bs @ rest) = Inr (Some \<lparr>tag = uint tg, payload = p\<rparr>, length bs)
    \<and> (\<forall>k<length bs. decode_frame (take k bs) = Inr (None, 0))"
  using decode_encode [OF assms] decode_incomplete [OF assms] by blast

theorem frame_roundtrip_witness:
  "encode_frame 2 [10, 20] = Some [2, 0, 0, 0, 2, 10, 20]
   \<and> decode_frame ([2, 0, 0, 0, 2, 10, 20] @ [1]) = Inr (Some \<lparr>tag = 2, payload = [10, 20]\<rparr>, 7)
   \<and> decode_frame (take 6 [2, 0, 0, 0, 2, 10, 20]) = Inr (None, 0)"
proof -
  have enc: "encode_frame 2 [10, 20] = Some [2, 0, 0, 0, 2, 10, 20]"
  proof -
    have "be_bytes (Suc (Suc (Suc (Suc 0)))) 2 = [0, 0, 0, 2]" by simp
    then have "be_bytes 4 2 = [0, 0, 0, 2]" by (simp add: eval_nat_numeral(2,3) del: be_bytes.simps)
    then show ?thesis by (simp add: encode_frame_Some numeral_2_eq_2)
  qed
  from frame_roundtrip [OF this, of "[1]"] enc show ?thesis
    by (simp add: KNOWN_TAGS_def FRAME_TAG_SAMPLE_BATCH_def FRAME_TAG_PHASE_EVENT_def del: take_Suc_Cons take_Cons_numeral)
qed

text \<open>
  The decoder accepts nothing else: a frame it returns has a known tag, and the bytes it
  consumes are the encoding of that frame, all of them present in the buffer.
\<close>

theorem decoded_frame_canonical:
  assumes "decode_frame bs = Inr (Some f, n)"
  shows "encode_frame (hd bs) (payload f) = Some (take n bs) \<and> uint (hd bs) = tag f
    \<and> tag f \<in> set KNOWN_TAGS \<and> n = 5 + length (payload f) \<and> n \<le> length bs"
  using encode_decode [OF assms] decode_frame_known_tag [OF assms] decode_frame_consumed [OF assms]
  by (simp add: FRAME_HEADER_LENGTH_def)

theorem decoded_frame_canonical_witness:
  "encode_frame 1 [7] = Some (take 6 [1, 0, 0, 0, 1, 7, 9])"
proof -
  have "decode_frame [1, 0, 0, 0, 1, 7, 9] = Inr (Some \<lparr>tag = 1, payload = [7]\<rparr>, 6)"
    by (simp add: decode_frame_def py_slice_def FRAME_HEADER_LENGTH_def KNOWN_TAGS_def
        FRAME_TAG_SAMPLE_BATCH_def FRAME_TAG_PHASE_EVENT_def int_from_bytes_big_def Let_def)
  from decoded_frame_canonical [OF this] show ?thesis by (simp del: take_Suc_Cons take_Cons_numeral)
qed

end
