(* ===== verification/Py_Float.thy ===== *)
theory Py_Float
  imports Py_Numbers
begin

text \<open>
  Python's \<open>float\<close> with its special values: finite values are the rationals of
  \<open>Py_Numbers\<close>, a result of magnitude 2 to the 1024 or more overflows to an infinity,
  and comparisons with NaN are false. Sample values arrive from the wire as such floats.

  The type is also given a linear order in which NaN is the greatest element. On the other
  values it is the numeric order, so it is the order SQLite's MIN and MAX use on the REAL
  values of a NOT NULL column (NaN is never stored).
\<close>

datatype pyfloat = NInf | Fin rat | PInf | NaN

text \<open>The rounded value, or an infinity when its magnitude is 2 to the 1024 or more.\<close>

definition fin_round :: "rat \<Rightarrow> pyfloat" where
  "fin_round q = (let x = rnd q in
     if x \<noteq> 0 \<and> 1024 \<le> binexp x then (if 0 < x then PInf else NInf) else Fin x)"

lemma fin_round_overflow:
  "fin_round q = (if 2 powi 1024 \<le> \<bar>rnd q\<bar> then (if 0 < rnd q then PInf else NInf) else Fin (rnd q))"
proof (cases "rnd q = 0")
  case False
  have "1024 \<le> binexp (rnd q) \<longleftrightarrow> (2::rat) powi 1024 \<le> \<bar>rnd q\<bar>"
  proof
    assume "1024 \<le> binexp (rnd q)"
    then have "(2::rat) powi 1024 \<le> 2 powi binexp (rnd q)" by (simp only: powi_le_iff)
    then show "(2::rat) powi 1024 \<le> \<bar>rnd q\<bar>" using binexp_bounds(1) [OF False] by (rule order_trans)
  next
    assume "(2::rat) powi 1024 \<le> \<bar>rnd q\<bar>"
    then have "(2::rat) powi 1024 < 2 powi (binexp (rnd q) + 1)"
      using binexp_bounds(2) [OF False] by (rule le_less_trans)
    then show "1024 \<le> binexp (rnd q)" by (simp only: powi_less_iff)
  qed
  then show ?thesis using False by (simp add: fin_round_def Let_def del: powi_le_iff)
qed (simp add: fin_round_def)

lemma fin_round_Fin: "\<bar>rnd q\<bar> \<le> 2 powi 1023 \<Longrightarrow> fin_round q = Fin (rnd q)"
  by (simp add: fin_round_overflow)

lemma fin_round_bounded: "\<bar>q\<bar> \<le> 2 powi 1023 \<Longrightarrow> fin_round q = Fin (rnd q)"
proof (rule fin_round_Fin)
  assume q: "\<bar>q\<bar> \<le> 2 powi 1023"
  have "rnd \<bar>q\<bar> \<le> 2 powi 1023" by (rule b64.below [OF rnd_powi q]) simp
  then show "\<bar>rnd q\<bar> \<le> 2 powi 1023" using rnd_nonneg [of q] rnd_nonneg [of "- q"] by (cases "0 \<le> q") (simp_all add: abs_if)
qed

fun fl_neg :: "pyfloat \<Rightarrow> pyfloat" where
  "fl_neg NInf = PInf"
| "fl_neg (Fin q) = Fin (- q)"
| "fl_neg PInf = NInf"
| "fl_neg NaN = NaN"

fun fl_add :: "pyfloat \<Rightarrow> pyfloat \<Rightarrow> pyfloat" where
  "fl_add NaN _ = NaN"
| "fl_add _ NaN = NaN"
| "fl_add (Fin a) (Fin b) = fin_round (a + b)"
| "fl_add (Fin _) y = y"
| "fl_add x (Fin _) = x"
| "fl_add x y = (if x = y then x else NaN)"

definition fl_sub :: "pyfloat \<Rightarrow> pyfloat \<Rightarrow> pyfloat" where
  "fl_sub x y = fl_add x (fl_neg y)"

fun fl_mul :: "pyfloat \<Rightarrow> pyfloat \<Rightarrow> pyfloat" where
  "fl_mul NaN _ = NaN"
| "fl_mul _ NaN = NaN"
| "fl_mul (Fin a) (Fin b) = fin_round (a * b)"
| "fl_mul (Fin a) y = (if a = 0 then NaN else if 0 < a then y else fl_neg y)"
| "fl_mul x (Fin b) = (if b = 0 then NaN else if 0 < b then x else fl_neg x)"
| "fl_mul x y = (if x = y then PInf else NInf)"

fun fl_abs :: "pyfloat \<Rightarrow> pyfloat" where
  "fl_abs NInf = PInf"
| "fl_abs (Fin q) = Fin \<bar>q\<bar>"
| "fl_abs PInf = PInf"
| "fl_abs NaN = NaN"

text \<open>Division; \<open>None\<close> is ZeroDivisionError, which Python raises for any dividend.\<close>

fun fl_div :: "pyfloat \<Rightarrow> pyfloat \<Rightarrow> pyfloat option" where
  "fl_div x (Fin b) = (if b = 0 then None else
     Some (case x of Fin a \<Rightarrow> fin_round (a / b)
       | PInf \<Rightarrow> if 0 < b then PInf else NInf
       | NInf \<Rightarrow> if 0 < b then NInf else PInf
       | NaN \<Rightarrow> NaN))"
| "fl_div (Fin _) PInf = Some (Fin 0)"
| "fl_div (Fin _) NInf = Some (Fin 0)"
| "fl_div _ _ = Some NaN"

text \<open>Python's comparisons.\<close>

fun fl_less :: "pyfloat \<Rightarrow> pyfloat \<Rightarrow> bool" where
  "fl_less NaN _ = False"
| "fl_less _ NaN = False"
| "fl_less (Fin a) (Fin b) = (a < b)"
| "fl_less x y = (x \<noteq> y \<and> (x = NInf \<or> y = PInf))"

definition fl_eq :: "pyfloat \<Rightarrow> pyfloat \<Rightarrow> bool" where
  "fl_eq x y \<longleftrightarrow> x = y \<and> x \<noteq> NaN"

definition fl_le :: "pyfloat \<Rightarrow> pyfloat \<Rightarrow> bool" where
  "fl_le x y \<longleftrightarrow> fl_less x y \<or> fl_eq x y"

text \<open>The conversion of an \<open>int\<close> of at most 64 bits.\<close>

definition fl_of_int :: "int \<Rightarrow> pyfloat" where
  "fl_of_int i = fin_round (of_int i)"

subsection \<open>The storage order\<close>

fun fl_rank :: "pyfloat \<Rightarrow> nat" where
  "fl_rank NInf = 0"
| "fl_rank (Fin _) = 1"
| "fl_rank PInf = 2"
| "fl_rank NaN = 3"

instantiation pyfloat :: linorder
begin

definition less_eq_pyfloat :: "pyfloat \<Rightarrow> pyfloat \<Rightarrow> bool" where
  "less_eq_pyfloat x y \<longleftrightarrow> (case (x, y) of (Fin a, Fin b) \<Rightarrow> a \<le> b | _ \<Rightarrow> fl_rank x \<le> fl_rank y)"

definition less_pyfloat :: "pyfloat \<Rightarrow> pyfloat \<Rightarrow> bool" where
  "less_pyfloat x y \<longleftrightarrow> (case (x, y) of (Fin a, Fin b) \<Rightarrow> a < b | _ \<Rightarrow> fl_rank x < fl_rank y)"

instance
  by standard (auto simp: less_eq_pyfloat_def less_pyfloat_def split: pyfloat.splits)

end

lemma fl_less_iff: "x \<noteq> NaN \<Longrightarrow> y \<noteq> NaN \<Longrightarrow> fl_less x y \<longleftrightarrow> x < y"
  by (cases x; cases y) (simp_all add: less_pyfloat_def)

lemma fl_le_iff: "x \<noteq> NaN \<Longrightarrow> y \<noteq> NaN \<Longrightarrow> fl_le x y \<longleftrightarrow> x \<le> y"
  by (auto simp: fl_le_def fl_eq_def fl_less_iff)

end
