(* ===== verification/Telemetry.thy ===== *)
theory Telemetry
  imports Py_Float
begin

text \<open>
  The wire messages of \<open>proto/telemetry.proto\<close> as the generated classes present them to
  the Python code, and the metric table of \<open>ingestion/src/hpctel/constants.py\<close>.

  The classes themselves (\<open>_generated/telemetry_pb2.py\<close>) are generated by protoc and not
  part of the repository: their \<open>ParseFromString\<close> and \<open>SerializeToString\<close> are
  parameters of the definitions that call them. A parser returns \<open>None\<close> where the
  generated code raises DecodeError.
\<close>

section \<open>Messages\<close>

record sample_msg =
  s_node_id :: string
  s_metric_id :: int
  s_ts_ns :: int
  s_mono_ns :: int
  s_server_recv_ts_ns :: int
  s_value :: pyfloat

record sample_batch =
  schema_version :: int
  producer_version :: string
  batch_samples :: "sample_msg list"

record phase_event_msg =
  pm_job_id :: string
  pm_node_id :: string
  pm_phase_index :: int
  pm_start_ts_ns :: int
  pm_start_mono_ns :: int
  pm_end_ts_ns :: int
  pm_end_mono_ns :: int
  pm_status :: string

type_synonym batch_parser = "bytes \<Rightarrow> sample_batch option"
type_synonym event_parser = "bytes \<Rightarrow> phase_event_msg option"

section \<open>Metrics\<close>

definition METRIC_ITEMS :: "(int \<times> string) list" where
  "METRIC_ITEMS =
     [(1, ''cpu_pct''), (2, ''mem_used_bytes''), (3, ''mem_total_bytes''), (4, ''load1''),
      (5, ''iowait_pct''), (6, ''disk_read_bytes_s''), (7, ''disk_write_bytes_s''),
      (8, ''net_rx_bytes_s''), (9, ''net_tx_bytes_s''), (10, ''proc_count'')]"

definition METRIC_ID_TO_NAME :: "int \<rightharpoonup> string" where
  "METRIC_ID_TO_NAME = map_of METRIC_ITEMS"

text \<open>\<open>{name: metric_id for metric_id, name in METRIC_ID_TO_NAME.items()}\<close>\<close>

definition METRIC_NAME_TO_ID :: "string \<rightharpoonup> int" where
  "METRIC_NAME_TO_ID = map_of (rev (map (\<lambda>(i, n). (n, i)) METRIC_ITEMS))"

definition SUPPORTED_SCHEMA_VERSIONS :: "int list" where
  "SUPPORTED_SCHEMA_VERSIONS = [1]"

lemma metric_ids: "METRIC_ID_TO_NAME i \<noteq> None \<longleftrightarrow> 1 \<le> i \<and> i \<le> 10"
proof -
  have "METRIC_ID_TO_NAME i \<noteq> None \<longleftrightarrow> i \<in> {1, 2, 3, 4, 5, 6, 7, 8, 9, 10}"
    by (simp add: METRIC_ID_TO_NAME_def METRIC_ITEMS_def)
  then show ?thesis by (simp add: set_eq_iff) presburger
qed

lemma distinct_metric_names: "distinct (map snd METRIC_ITEMS)"
  by (simp add: METRIC_ITEMS_def)

lemma distinct_metric_ids: "distinct (map fst METRIC_ITEMS)"
  by (simp add: METRIC_ITEMS_def)

lemma metric_tables_inverse:
  "METRIC_NAME_TO_ID n = Some i \<longleftrightarrow> METRIC_ID_TO_NAME i = Some n"
proof -
  have "METRIC_ID_TO_NAME i = Some n \<longleftrightarrow> (i, n) \<in> set METRIC_ITEMS"
    unfolding METRIC_ID_TO_NAME_def by (rule map_of_eq_Some_iff [OF distinct_metric_ids])
  moreover have "METRIC_NAME_TO_ID n = Some i \<longleftrightarrow> (n, i) \<in> set (rev (map (\<lambda>(i, n). (n, i)) METRIC_ITEMS))"
    unfolding METRIC_NAME_TO_ID_def using distinct_metric_names
    by (intro map_of_eq_Some_iff) (simp add: comp_def split_def rev_map [symmetric])
  ultimately show ?thesis by auto
qed

end
