(* ===== verification/Validation.thy ===== *)
theory Validation
  imports Telemetry
begin

text \<open>
  \<open>ingestion/src/hpctel/validation.py\<close>: the schema and temporal checks on a decoded
  batch. The loop is kept as a loop over the two result lists; the lemmas show that it is
  the filter the fault table describes: the accepted samples are exactly the valid ones, in
  order, and every other sample leaves exactly one reason code.
\<close>

definition ONE_DAY_NS :: int where
  "ONE_DAY_NS = 24 * 60 * 60 * 1000000000"

record valid_sample =
  v_node_id :: string
  v_metric_id :: int
  v_ts_ns :: int
  v_mono_ns :: int
  v_value :: pyfloat

record validation_result =
  accepted :: "valid_sample list"
  dropped_reason_codes :: "string list"
  batch_rejected_reason_code :: "string option"

type_synonym sample_tuple = "string \<times> int \<times> int \<times> int \<times> pyfloat"

text \<open>The \<open>for\<close> loop, with the two lists it appends to.\<close>

fun validate_loop :: "int \<Rightarrow> sample_tuple list \<Rightarrow> valid_sample list \<Rightarrow> string list
    \<Rightarrow> valid_sample list \<times> string list" where
  "validate_loop now_ns [] acc dropped = (acc, dropped)"
| "validate_loop now_ns ((node_id, metric_id, ts_ns, mono_ns, val) # rest) acc dropped =
     (if METRIC_ID_TO_NAME metric_id = None
      then validate_loop now_ns rest acc (dropped @ [''unknown_metric_id''])
      else if ts_ns < 0 \<or> now_ns + ONE_DAY_NS < ts_ns
      then validate_loop now_ns rest acc (dropped @ [''invalid_timestamp''])
      else validate_loop now_ns rest
        (acc @ [\<lparr>v_node_id = node_id, v_metric_id = metric_id, v_ts_ns = ts_ns,
                 v_mono_ns = mono_ns, v_value = val\<rparr>]) dropped)"

text \<open>
  \<open>time_ns\<close> is what \<open>time.time_ns()\<close> would return: it is read only when
  \<open>now_ns\<close> is not given and the schema version is supported.
\<close>

definition validate_batch :: "int \<Rightarrow> string \<Rightarrow> sample_tuple list \<Rightarrow> int option \<Rightarrow> int
    \<Rightarrow> validation_result" where
  "validate_batch version producer samples now_ns time_ns =
     (if version \<notin> set SUPPORTED_SCHEMA_VERSIONS
      then \<lparr>accepted = [], dropped_reason_codes = [],
            batch_rejected_reason_code = Some ''schema_mismatch''\<rparr>
      else let now = (case now_ns of None \<Rightarrow> time_ns | Some t \<Rightarrow> t);
               (acc, dropped) = validate_loop now samples [] []
        in \<lparr>accepted = acc, dropped_reason_codes = dropped, batch_rejected_reason_code = None\<rparr>)"

section \<open>What the loop computes\<close>

definition valid_tuple :: "int \<Rightarrow> sample_tuple \<Rightarrow> bool" where
  "valid_tuple now t = (case t of (_, metric_id, ts_ns, _, _) \<Rightarrow>
     1 \<le> metric_id \<and> metric_id \<le> 10 \<and> 0 \<le> ts_ns \<and> ts_ns \<le> now + ONE_DAY_NS)"

definition valid_of :: "sample_tuple \<Rightarrow> valid_sample" where
  "valid_of t = (case t of (n, m, ts, mn, x) \<Rightarrow>
     \<lparr>v_node_id = n, v_metric_id = m, v_ts_ns = ts, v_mono_ns = mn, v_value = x\<rparr>)"

definition drop_code :: "sample_tuple \<Rightarrow> string" where
  "drop_code t = (case t of (_, metric_id, _, _, _) \<Rightarrow>
     if 1 \<le> metric_id \<and> metric_id \<le> 10 then ''invalid_timestamp'' else ''unknown_metric_id'')"

lemma validate_loop_eq:
  "validate_loop now ts acc dropped =
     (acc @ map valid_of (filter (valid_tuple now) ts),
      dropped @ map drop_code (filter (\<lambda>t. \<not> valid_tuple now t) ts))"
proof (induction now ts acc dropped rule: validate_loop.induct)
  case (2 now_ns n m t mn x rest acc dropped)
  have known: "METRIC_ID_TO_NAME m = None \<longleftrightarrow> \<not> (1 \<le> m \<and> m \<le> 10)"
    using metric_ids [of m] by blast
  show ?case
    using "2.IH" unfolding validate_loop.simps(2) known
    by (simp add: valid_tuple_def valid_of_def drop_code_def not_le)
qed simp

lemma validate_batch_eq:
  assumes "version = 1"
  shows "validate_batch version p samples now_ns time_ns =
    (let now = (case now_ns of None \<Rightarrow> time_ns | Some t \<Rightarrow> t) in
     \<lparr>accepted = map valid_of (filter (valid_tuple now) samples),
      dropped_reason_codes = map drop_code (filter (\<lambda>t. \<not> valid_tuple now t) samples),
      batch_rejected_reason_code = None\<rparr>)"
  using assms by (simp add: validate_batch_def SUPPORTED_SCHEMA_VERSIONS_def validate_loop_eq Let_def)

lemma validate_batch_mismatch:
  "version \<noteq> 1 \<Longrightarrow> validate_batch version p samples now_ns time_ns =
     \<lparr>accepted = [], dropped_reason_codes = [], batch_rejected_reason_code = Some ''schema_mismatch''\<rparr>"
  by (simp add: validate_batch_def SUPPORTED_SCHEMA_VERSIONS_def)

section \<open>Property of the validation\<close>

text \<open>
  What validation decides, for every batch: any schema version but 1 rejects the whole batch
  with \<open>schema_mismatch\<close>; otherwise the accepted samples are, in order, those with a metric id
  from 1 to 10 and a timestamp from 0 to one day ahead of the clock, and every other sample
  leaves one reason code: \<open>unknown_metric_id\<close> first, else \<open>invalid_timestamp\<close>.
\<close>

theorem validate_batch_decides:
  "validate_batch version p samples now_ns time_ns =
    (let now = (case now_ns of None \<Rightarrow> time_ns | Some t \<Rightarrow> t);
         known = (\<lambda>(_, m, _, _, _). m \<in> {1..10});
         timely = (\<lambda>(_, _, ts, _, _). ts \<in> {0..now + 86400000000000})
     in if version \<noteq> 1
        then \<lparr>accepted = [], dropped_reason_codes = [], batch_rejected_reason_code = Some ''schema_mismatch''\<rparr>
        else \<lparr>accepted = map valid_of (filter (\<lambda>t. known t \<and> timely t) samples),
              dropped_reason_codes = map (\<lambda>t. if known t then ''invalid_timestamp'' else ''unknown_metric_id'')
                (filter (\<lambda>t. \<not> (known t \<and> timely t)) samples),
              batch_rejected_reason_code = None\<rparr>)"
proof (cases "version = 1")
  case True
  have valid: "valid_tuple now = (\<lambda>t. (case t of (_, m, _, _, _) \<Rightarrow> m \<in> {1..10})
      \<and> (case t of (_, _, ts, _, _) \<Rightarrow> ts \<in> {0..now + 86400000000000}))" for now
    by (auto simp: valid_tuple_def ONE_DAY_NS_def fun_eq_iff)
  have code: "drop_code = (\<lambda>t. if (case t of (_, m, _, _, _) \<Rightarrow> m \<in> {1..10}) then ''invalid_timestamp'' else ''unknown_metric_id'')"
    by (auto simp: drop_code_def fun_eq_iff)
  show ?thesis using True by (simp only: validate_batch_eq valid code Let_def if_False simp_thms)
qed (simp add: validate_batch_mismatch Let_def)

end
