(* ===== verification/Sql.thy ===== *)
theory Sql
  imports Py_Float "HOL-Library.Signed_Division"
begin

text \<open>
  The SQL the store uses, as operations on tables. A table is the list of its rows in
  insertion order. \<open>INSERT OR IGNORE\<close> skips a row that violates the primary key or a NOT
  NULL constraint; integer division truncates; a negative LIMIT is no limit.

  The locale \<open>ignore_insert\<close> is the contract of a table filled with INSERT OR IGNORE:
  first writer wins, retries change nothing, rows are never overwritten, and the table
  refines a finite map from keys to rows. The samples and the phase events of the store are
  two instances.
\<close>

section \<open>Operations\<close>

definition insert_or_ignore :: "('r \<Rightarrow> 'k) \<Rightarrow> ('r \<Rightarrow> bool) \<Rightarrow> 'r \<Rightarrow> 'r list \<Rightarrow> 'r list" where
  "insert_or_ignore key ok r tbl = (if ok r \<and> key r \<notin> set (map key tbl) then tbl @ [r] else tbl)"

definition sql_limit :: "int \<Rightarrow> 'r list \<Rightarrow> 'r list" where
  "sql_limit n rows = (if n < 0 then rows else take (nat n) rows)"

text \<open>Binding an integer outside the 64 bits of SQLite's INTEGER raises OverflowError.\<close>

definition bindable :: "int \<Rightarrow> bool" where
  "bindable i \<longleftrightarrow> - (2 ^ 63) \<le> i \<and> i < 2 ^ 63"

lemma bindable_small [simp]: "bindable 0" "bindable 1"
  by (simp_all add: bindable_def)

text \<open>Rows sorted by descending key.\<close>

definition order_by_desc :: "('r \<Rightarrow> int) \<Rightarrow> 'r list \<Rightarrow> 'r list" where
  "order_by_desc key rows = sort_key (\<lambda>r. - key r) rows"

text \<open>The groups of GROUP BY, in ascending order of the group key.\<close>

definition group_by :: "('r \<Rightarrow> 'k::linorder) \<Rightarrow> 'r list \<Rightarrow> ('k \<times> 'r list) list" where
  "group_by key rows = map (\<lambda>k. (k, filter (\<lambda>r. key r = k) rows)) (sort (remdups (map key rows)))"

text \<open>SQLite's division of INTEGER values truncates towards zero.\<close>

definition sql_div :: "int \<Rightarrow> int \<Rightarrow> int" where
  "sql_div a b = a sdiv b"

section \<open>Facts\<close>

lemma set_sql_limit: "set (sql_limit n rows) \<subseteq> set rows"
  by (auto simp: sql_limit_def dest: in_set_takeD)

lemma length_sql_limit:
  "length (sql_limit n rows) = (if n < 0 then length rows else min (length rows) (nat n))"
  by (simp add: sql_limit_def)

lemma set_order_by_desc [simp]: "set (order_by_desc key rows) = set rows"
  by (simp add: order_by_desc_def)

lemma mset_order_by_desc [simp]: "mset (order_by_desc key rows) = mset rows"
  by (simp add: order_by_desc_def)

lemma sorted_order_by_desc: "sorted_wrt (\<ge>) (map key (order_by_desc key rows))"
proof -
  have "sorted (map (\<lambda>r. - key r) (order_by_desc key rows))"
    unfolding order_by_desc_def by (rule sorted_sort_key)
  then show ?thesis by (simp add: sorted_wrt_map)
qed

lemma order_by_desc_perm:
  "mset xs = mset ys \<Longrightarrow> inj_on key (set xs) \<Longrightarrow> order_by_desc key xs = order_by_desc key ys"
  unfolding order_by_desc_def by (rule sort_key_perm_eq) (auto simp: inj_on_def)

lemma sorted_distinct_desc:
  assumes "distinct (map key rows)"
  shows "sorted_wrt (>) (map key (order_by_desc key rows))"
proof -
  have "distinct (map key (order_by_desc key rows))"
    using assms by (metis mset_order_by_desc mset_map mset_eq_imp_distinct_iff)
  then show ?thesis using sorted_order_by_desc [of key rows]
    by (auto simp: strict_sorted_iff sorted_wrt_map distinct_map order.strict_iff_order
        sorted_wrt_iff_nth_less distinct_conv_nth)
qed

lemma order_by_desc_ascending:
  assumes "sorted_wrt (<) (map key rows)"
  shows "order_by_desc key rows = rev rows"
proof -
  have "sorted_wrt (\<lambda>x y. - key x < - key y) (rev rows)"
    using assms by (simp add: sorted_wrt_rev sorted_wrt_map)
  then have s: "sorted (map (\<lambda>r. - key r) (rev rows))"
    by (simp add: sorted_wrt_map sorted_wrt_mono_rel [of _ "\<lambda>x y. - key x < - key y"])
  have "order_by_desc key rows = order_by_desc key (rev rows)"
    using assms by (intro order_by_desc_perm) (auto simp: strict_sorted_iff distinct_map)
  also have "\<dots> = rev rows" unfolding order_by_desc_def using s by (rule sort_key_id_if_sorted)
  finally show ?thesis .
qed

lemma map_fst_group_by: "map fst (group_by key rows) = sort (remdups (map key rows))"
  by (simp add: group_by_def comp_def)

lemma group_by_member:
  "(k, g) \<in> set (group_by key rows) \<longleftrightarrow> k \<in> key ` set rows \<and> g = filter (\<lambda>r. key r = k) rows"
  by (auto simp: group_by_def)

lemma group_by_nonempty: "(k, g) \<in> set (group_by key rows) \<Longrightarrow> g \<noteq> []"
  by (auto simp: group_by_member filter_empty_conv)

text \<open>The groups partition the rows.\<close>

lemma group_by_partition: "sum_list (map (length \<circ> snd) (group_by key rows)) = length rows"
proof -
  have "sum_list (map (length \<circ> snd) (group_by key rows)) =
      sum_list (map (\<lambda>k. length (filter (\<lambda>r. key r = k) rows)) (sort (remdups (map key rows))))"
    by (simp add: group_by_def comp_def)
  also have "\<dots> = (\<Sum>k\<in>key ` set rows. length (filter (\<lambda>r. key r = k) rows))"
    by (subst sum_list_distinct_conv_sum_set) simp_all
  also have "\<dots> = length rows"
  proof (induction rows)
    case (Cons r rows)
    have "(\<Sum>k\<in>key ` set (r # rows). length (filter (\<lambda>x. key x = k) (r # rows))) =
      (\<Sum>k\<in>insert (key r) (key ` set rows).
         (if k = key r then 1 else 0) + length (filter (\<lambda>x. key x = k) rows))"
      by (intro sum.cong) auto
    also have "\<dots> = 1 + (\<Sum>k\<in>insert (key r) (key ` set rows). length (filter (\<lambda>x. key x = k) rows))"
      by (simp add: sum.distrib)
    also have "(\<Sum>k\<in>insert (key r) (key ` set rows). length (filter (\<lambda>x. key x = k) rows)) =
      (\<Sum>k\<in>key ` set rows. length (filter (\<lambda>x. key x = k) rows))"
      by (rule sum.mono_neutral_right) (auto simp: filter_empty_conv)
    finally show ?case using Cons.IH by simp
  qed simp
  finally show ?thesis .
qed

lemma sql_div_nonneg: "0 \<le> a \<Longrightarrow> 0 < b \<Longrightarrow> sql_div a b = a div b"
  by (simp add: sql_div_def signed_divide_int_def sgn_if)

section \<open>The contract of INSERT OR IGNORE\<close>

locale ignore_insert =
  fixes key :: "'r \<Rightarrow> 'k"
    and ok :: "'r \<Rightarrow> bool"
    and ins :: "'r \<Rightarrow> 'r list \<Rightarrow> 'r list"
  assumes fresh: "ok r \<Longrightarrow> key r \<notin> set (map key tbl) \<Longrightarrow> ins r tbl = tbl @ [r]"
    and refused: "\<not> ok r \<or> key r \<in> set (map key tbl) \<Longrightarrow> ins r tbl = tbl"
begin

definition stored :: "'r list \<Rightarrow> bool" where
  "stored tbl \<longleftrightarrow> distinct (map key tbl) \<and> (\<forall>r\<in>set tbl. ok r)"

text \<open>The abstract table: the row stored under a key.\<close>

definition row_at :: "'r list \<Rightarrow> 'k \<rightharpoonup> 'r" where
  "row_at tbl = map_of (map (\<lambda>r. (key r, r)) tbl)"

lemma ins_cases: "ins r tbl = (if ok r \<and> key r \<notin> set (map key tbl) then tbl @ [r] else tbl)"
  using fresh refused by auto

lemma stored_ins: "stored tbl \<Longrightarrow> stored (ins r tbl)"
  by (auto simp: stored_def ins_cases)

lemma stored_fold: "stored tbl \<Longrightarrow> stored (fold ins rs tbl)"
  by (induction rs arbitrary: tbl) (simp_all add: stored_ins)

lemma keys_row_at: "dom (row_at tbl) = key ` set tbl"
  by (auto simp: row_at_def dom_map_of_conv_image_fst image_image)

lemma row_at_member: "stored tbl \<Longrightarrow> row_at tbl k = Some r \<longleftrightarrow> r \<in> set tbl \<and> key r = k"
  by (auto simp: row_at_def stored_def comp_def)

text \<open>Refinement: on the abstract table, an insert writes a free key and nothing else.\<close>

lemma row_at_ins:
  "row_at (ins r tbl) = (if ok r \<and> row_at tbl (key r) = None then (row_at tbl)(key r \<mapsto> r) else row_at tbl)"
proof -
  have "row_at tbl (key r) = None \<longleftrightarrow> key r \<notin> set (map key tbl)"
    using keys_row_at [of tbl] by (auto simp: domIff)
  moreover have "row_at (tbl @ [r]) = (row_at tbl)(key r \<mapsto> r)" if "row_at tbl (key r) = None"
    using that by (auto simp: row_at_def map_add_def fun_eq_iff split: option.splits)
  ultimately show ?thesis by (auto simp: ins_cases)
qed

text \<open>Rows are only appended.\<close>

lemma ins_appends: "\<exists>new. ins r tbl = tbl @ new \<and> set new \<subseteq> {r}"
  by (auto simp: ins_cases)

lemma fold_appends: "\<exists>new. fold ins rs tbl = tbl @ new \<and> set new \<subseteq> set rs"
proof (induction rs arbitrary: tbl)
  case (Cons r rs)
  obtain new where "fold ins rs (ins r tbl) = ins r tbl @ new" "set new \<subseteq> set rs"
    using Cons.IH by blast
  moreover obtain new' where "ins r tbl = tbl @ new'" "set new' \<subseteq> {r}"
    using ins_appends by blast
  ultimately have "fold ins (r # rs) tbl = tbl @ new' @ new" "set (new' @ new) \<subseteq> set (r # rs)"
    by auto
  then show ?case by blast
qed simp

text \<open>The number of rows added is the number of keys added.\<close>

lemma fold_count:
  "length (fold ins rs tbl) - length tbl = card (key ` set (fold ins rs tbl) - key ` set tbl)"
proof (induction rs arbitrary: tbl)
  case (Cons r rs)
  show ?case
  proof (cases "ok r \<and> key r \<notin> set (map key tbl)")
    case False
    then have "ins r tbl = tbl" using refused by blast
    with Cons.IH show ?thesis by simp
  next
    case True
    let ?t = "fold ins rs (tbl @ [r])"
    obtain new where t: "?t = tbl @ [r] @ new" using fold_appends [of rs "tbl @ [r]"] by auto
    have keys: "key ` set ?t - key ` set tbl = insert (key r) (key ` set ?t - key ` set (tbl @ [r]))"
      using True t by auto
    have card: "card (insert (key r) (key ` set ?t - key ` set (tbl @ [r]))) =
        Suc (card (key ` set ?t - key ` set (tbl @ [r])))"
      by (rule card_insert_disjoint) auto
    have len: "length ?t - length tbl = Suc (length ?t - length (tbl @ [r]))" using t by simp
    have ins: "fold ins (r # rs) tbl = ?t" using True fresh by simp
    show ?thesis unfolding ins len keys card Cons.IH [of "tbl @ [r]"] ..
  qed
qed simp

lemma row_at_ins_keeps: "row_at tbl k = Some r \<Longrightarrow> row_at (ins x tbl) k = Some r"
  by (auto simp: row_at_ins)

lemma first_writer_wins:
  "row_at tbl k = Some r \<Longrightarrow> row_at (fold ins rs tbl) k = Some r"
  by (induction rs arbitrary: tbl) (simp_all add: row_at_ins_keeps)

lemma fold_covers: "r \<in> set rs \<Longrightarrow> ok r \<Longrightarrow> key r \<in> set (map key (fold ins rs tbl))"
proof (induction rs arbitrary: tbl)
  case (Cons x rs)
  show ?case
  proof (cases "r = x")
    case True
    then have "key r \<in> set (map key (ins x tbl))" using Cons.prems by (auto simp: ins_cases)
    moreover obtain new where "fold ins rs (ins x tbl) = ins x tbl @ new" using fold_appends by blast
    ultimately show ?thesis by simp
  next
    case False
    then show ?thesis using Cons by simp
  qed
qed simp

text \<open>Rows with new and distinct keys are all appended.\<close>

lemma fold_fresh:
  assumes "\<forall>r\<in>set rs. ok r" and "distinct (map key rs)" and "key ` set tbl \<inter> key ` set rs = {}"
  shows "fold ins rs tbl = tbl @ rs"
  using assms
proof (induction rs arbitrary: tbl)
  case (Cons r rs)
  then have "ins r tbl = tbl @ [r]" by (intro fresh) auto
  moreover have "fold ins rs (tbl @ [r]) = (tbl @ [r]) @ rs" using Cons.prems by (intro Cons.IH) auto
  ultimately show ?case by simp
qed simp

lemma fold_all_refused: "(\<And>r. r \<in> set rs \<Longrightarrow> ok r \<Longrightarrow> key r \<in> set (map key tbl)) \<Longrightarrow> fold ins rs tbl = tbl"
proof (induction rs)
  case (Cons r rs)
  then have "ins r tbl = tbl" by (intro refused) (auto simp del: set_map)
  with Cons show ?case by simp
qed simp

text \<open>A retry of rows that were inserted before changes nothing.\<close>

lemma retry_noop: "fold ins rs (fold ins qs (fold ins rs tbl)) = fold ins qs (fold ins rs tbl)"
proof (rule fold_all_refused)
  fix r
  assume "r \<in> set rs" and "ok r"
  then have "key r \<in> set (map key (fold ins rs tbl))" by (rule fold_covers)
  moreover obtain new where "fold ins qs (fold ins rs tbl) = fold ins rs tbl @ new"
    using fold_appends by blast
  ultimately show "key r \<in> set (map key (fold ins qs (fold ins rs tbl)))" by simp
qed

end

end
