(* ===== verification/Tsdb_Store.thy ===== *)
theory Tsdb_Store
  imports Sql Telemetry
begin

text \<open>
  \<open>ingestion/src/hpctel/storage\<close>: the tables of \<open>schema.py\<close> as lists of records and
  the access layer of \<open>tsdb.py\<close>, one definition per method. Integers bound to a statement
  have to be in SQLite's 64-bit range. Those of the wire format and of the clock are (a clock until the
  year 2262); those of a request need not be, and \<open>OverflowError\<close> is then a result: of
  \<open>store_create_job\<close> and \<open>list_phase_events\<close> here, for the limit of a series and the start of the latencies
  in the endpoints of \<open>Api\<close>. The two JSON columns of \<open>jobs\<close> are
  represented by the values they encode. AVG is a parameter: its rounding belongs to the
  SQLite library. A sample whose value is NaN is bound as NULL, so INSERT OR IGNORE skips
  it (the column is NOT NULL), and a rollup whose average is NaN makes INSERT fail.
\<close>

section \<open>Tables\<close>

record sample_row =
  sr_node_id :: string
  sr_metric_id :: int
  sr_ts_ns :: int
  sr_mono_ns :: int
  sr_server_recv_ts_ns :: int
  sr_value :: pyfloat
  sr_producer_version :: string

record rollup_row =
  rr_node_id :: string
  rr_metric_id :: int
  rr_bucket_ts_ns :: int
  rr_avg_value :: pyfloat
  rr_min_value :: pyfloat
  rr_max_value :: pyfloat
  rr_sample_count :: nat

text \<open>
  A fault manifest is a dict: a field is \<open>None\<close> where the key is absent.
\<close>

record fault_manifest =
  fm_target_host :: "string option"
  fm_phase_index :: "int option"
  fm_fault_type :: "string option"
  fm_intensity :: "int option"

record job_row =
  jr_job_id :: string
  jr_phase_count :: int
  jr_node_ids_json :: "string list"
  jr_fault_manifest_json :: "fault_manifest option"
  jr_status :: string
  jr_created_ts_ns :: int

record phase_event_row =
  er_job_id :: string
  er_node_id :: string
  er_phase_index :: int
  er_start_ts_ns :: int
  er_start_mono_ns :: int
  er_end_ts_ns :: int
  er_end_mono_ns :: int
  er_status :: string

record db =
  samples :: "sample_row list"
  rollup_1m :: "rollup_row list"
  rollup_1h :: "rollup_row list"
  jobs :: "job_row list"
  phase_events :: "phase_event_row list"

datatype store_error = IntegrityError | KeyError | OverflowError

text \<open>The tables of a new database.\<close>

definition empty_db :: db where
  "empty_db = \<lparr>samples = [], rollup_1m = [], rollup_1h = [], jobs = [], phase_events = []\<rparr>"

definition BUCKET_WIDTH_NS_1M :: int where
  "BUCKET_WIDTH_NS_1M = 60000000000"

definition BUCKET_WIDTH_NS_1H :: int where
  "BUCKET_WIDTH_NS_1H = 3600000000000"

text \<open>The primary keys and the NOT NULL check of the two tables filled by the ingestion path.\<close>

definition sample_key :: "sample_row \<Rightarrow> string \<times> int \<times> int" where
  "sample_key r = (sr_node_id r, sr_metric_id r, sr_ts_ns r)"

definition sample_ok :: "sample_row \<Rightarrow> bool" where
  "sample_ok r \<longleftrightarrow> sr_value r \<noteq> NaN"

definition event_key :: "phase_event_row \<Rightarrow> string \<times> string \<times> int" where
  "event_key r = (er_job_id r, er_node_id r, er_phase_index r)"

section \<open>Samples\<close>

definition insert_sample_row :: "sample_row \<Rightarrow> sample_row list \<Rightarrow> sample_row list" where
  "insert_sample_row = insert_or_ignore sample_key sample_ok"

text \<open>
  \<open>executemany\<close> and the row count of its cursor: the number of rows inserted.
\<close>

definition insert_samples :: "sample_row list \<Rightarrow> db \<Rightarrow> nat \<times> db" where
  "insert_samples rows d = (let tbl = fold insert_sample_row rows (samples d)
     in (length tbl - length (samples d), d\<lparr>samples := tbl\<rparr>))"

record node_summary =
  ns_node_id :: string
  ns_last_seen_ts_ns :: int
  ns_sample_count :: nat

definition list_nodes :: "db \<Rightarrow> node_summary list" where
  "list_nodes d = map (\<lambda>(n, rows). \<lparr>ns_node_id = n,
       ns_last_seen_ts_ns = Max (set (map sr_ts_ns rows)), ns_sample_count = length rows\<rparr>)
     (group_by sr_node_id (samples d))"

definition of_series :: "string \<Rightarrow> int \<Rightarrow> sample_row \<Rightarrow> bool" where
  "of_series n m r \<longleftrightarrow> sr_node_id r = n \<and> sr_metric_id r = m"

definition query_series :: "string \<Rightarrow> int \<Rightarrow> int \<Rightarrow> db \<Rightarrow> (int \<times> pyfloat) list" where
  "query_series n m limit d = map (\<lambda>r. (sr_ts_ns r, sr_value r))
     (sql_limit limit (order_by_desc sr_ts_ns (filter (of_series n m) (samples d))))"

definition distinct_node_metric_pairs :: "db \<Rightarrow> (string \<times> int) list" where
  "distinct_node_metric_pairs d = remdups (map (\<lambda>r. (sr_node_id r, sr_metric_id r)) (samples d))"

text \<open>The latency in nanoseconds as SQLite returns it, and the division by \<open>1e6\<close>.\<close>

definition query_recent_ingestion_latencies_ms :: "int \<Rightarrow> int \<Rightarrow> db \<Rightarrow> rat list" where
  "query_recent_ingestion_latencies_ms since limit d =
     map (\<lambda>r. rnd (rnd (of_int (sr_server_recv_ts_ns r - sr_ts_ns r)) / 1000000))
       (sql_limit limit (sort_key sr_server_recv_ts_ns
         (filter (\<lambda>r. since \<le> sr_server_recv_ts_ns r) (samples d))))"

definition count_samples_since :: "int \<Rightarrow> db \<Rightarrow> nat" where
  "count_samples_since since d = length (filter (\<lambda>r. since \<le> sr_server_recv_ts_ns r) (samples d))"

section \<open>Rollups\<close>

definition bucket_ts :: "int \<Rightarrow> sample_row \<Rightarrow> int" where
  "bucket_ts w r = sql_div (sr_ts_ns r) w * w"

definition rollup_of :: "(pyfloat list \<Rightarrow> pyfloat) \<Rightarrow> string \<Rightarrow> int \<Rightarrow> int \<times> sample_row list \<Rightarrow> rollup_row" where
  "rollup_of avg n m bg = (case bg of (b, rows) \<Rightarrow> let vs = map sr_value rows in
     \<lparr>rr_node_id = n, rr_metric_id = m, rr_bucket_ts_ns = b, rr_avg_value = avg vs,
      rr_min_value = Min (set vs), rr_max_value = Max (set vs), rr_sample_count = length rows\<rparr>)"

text \<open>
  One pass of the loop: DELETE, then INSERT ... SELECT ... GROUP BY. The statement fails as a
  whole when an average is NULL; the deletion before it stands.
\<close>

definition recompute_table :: "(pyfloat list \<Rightarrow> pyfloat) \<Rightarrow> int \<Rightarrow> string \<Rightarrow> int \<Rightarrow> sample_row list
    \<Rightarrow> rollup_row list \<Rightarrow> store_error option \<times> rollup_row list" where
  "recompute_table avg w n m raw tbl =
     (let kept = filter (\<lambda>r. \<not> (rr_node_id r = n \<and> rr_metric_id r = m)) tbl;
          new = map (rollup_of avg n m) (group_by (bucket_ts w) (filter (of_series n m) raw))
      in if list_ex (\<lambda>r. rr_avg_value r = NaN) new then (Some IntegrityError, kept)
         else (None, kept @ new))"

definition recompute_rollups :: "(pyfloat list \<Rightarrow> pyfloat) \<Rightarrow> string \<Rightarrow> int \<Rightarrow> db \<Rightarrow> store_error option \<times> db" where
  "recompute_rollups avg n m d =
     (case recompute_table avg BUCKET_WIDTH_NS_1M n m (samples d) (rollup_1m d) of
        (Some e, t) \<Rightarrow> (Some e, d\<lparr>rollup_1m := t\<rparr>)
      | (None, t) \<Rightarrow> (let d' = d\<lparr>rollup_1m := t\<rparr> in
          case recompute_table avg BUCKET_WIDTH_NS_1H n m (samples d') (rollup_1h d') of
            (e, t') \<Rightarrow> (e, d'\<lparr>rollup_1h := t'\<rparr>)))"

text \<open>The table a resolution names; \<open>None\<close> is KeyError.\<close>

definition rollup_table :: "string \<Rightarrow> db \<Rightarrow> rollup_row list option" where
  "rollup_table resolution d = (if resolution = ''1m'' then Some (rollup_1m d)
     else if resolution = ''1h'' then Some (rollup_1h d) else None)"

record rollup_point =
  rp_bucket_ts_ns :: int
  rp_avg_value :: pyfloat
  rp_min_value :: pyfloat
  rp_max_value :: pyfloat
  rp_sample_count :: nat

definition rollup_point_of :: "rollup_row \<Rightarrow> rollup_point" where
  "rollup_point_of r = \<lparr>rp_bucket_ts_ns = rr_bucket_ts_ns r, rp_avg_value = rr_avg_value r,
     rp_min_value = rr_min_value r, rp_max_value = rr_max_value r,
     rp_sample_count = rr_sample_count r\<rparr>"

definition query_rollup :: "string \<Rightarrow> int \<Rightarrow> string \<Rightarrow> int \<Rightarrow> db \<Rightarrow> store_error + rollup_point list" where
  "query_rollup n m resolution limit d = (case rollup_table resolution d of
     None \<Rightarrow> Inl KeyError
   | Some t \<Rightarrow> Inr (map rollup_point_of (sql_limit limit (order_by_desc rr_bucket_ts_ns
       (filter (\<lambda>r. rr_node_id r = n \<and> rr_metric_id r = m) t)))))"

section \<open>Jobs and phase events\<close>

definition store_create_job :: "string \<Rightarrow> int \<Rightarrow> string list \<Rightarrow> int \<Rightarrow> fault_manifest option \<Rightarrow> db
    \<Rightarrow> store_error + db" where
  "store_create_job job_id phase_count node_ids created_ts_ns manifest d =
     (if \<not> bindable phase_count then Inl OverflowError
      else if job_id \<in> set (map jr_job_id (jobs d)) then Inl IntegrityError
      else Inr (d\<lparr>jobs := jobs d @ [\<lparr>jr_job_id = job_id, jr_phase_count = phase_count,
        jr_node_ids_json = node_ids, jr_fault_manifest_json = manifest,
        jr_status = ''running'', jr_created_ts_ns = created_ts_ns\<rparr>]\<rparr>))"

definition set_job_status :: "string \<Rightarrow> string \<Rightarrow> db \<Rightarrow> db" where
  "set_job_status job_id status d = d\<lparr>jobs :=
     map (\<lambda>j. if jr_job_id j = job_id then j\<lparr>jr_status := status\<rparr> else j) (jobs d)\<rparr>"

definition store_get_job :: "string \<Rightarrow> db \<Rightarrow> job_row option" where
  "store_get_job job_id d = find (\<lambda>j. jr_job_id j = job_id) (jobs d)"

definition insert_event_row :: "phase_event_row \<Rightarrow> phase_event_row list \<Rightarrow> phase_event_row list" where
  "insert_event_row = insert_or_ignore event_key (\<lambda>_. True)"

definition insert_phase_event :: "phase_event_row \<Rightarrow> db \<Rightarrow> db" where
  "insert_phase_event e d = d\<lparr>phase_events := insert_event_row e (phase_events d)\<rparr>"

definition of_phase :: "string \<Rightarrow> int \<Rightarrow> phase_event_row \<Rightarrow> bool" where
  "of_phase job_id k e \<longleftrightarrow> er_job_id e = job_id \<and> er_phase_index e = k"

definition count_phase_reports :: "string \<Rightarrow> int \<Rightarrow> db \<Rightarrow> nat" where
  "count_phase_reports job_id k d = length (filter (of_phase job_id k) (phase_events d))"

text \<open>The columns \<open>select_phase_events\<close> selects.\<close>

record phase_event =
  pe_node_id :: string
  pe_phase_index :: int
  pe_start_ts_ns :: int
  pe_start_mono_ns :: int
  pe_end_ts_ns :: int
  pe_end_mono_ns :: int
  pe_status :: string

definition phase_event_of :: "phase_event_row \<Rightarrow> phase_event" where
  "phase_event_of e = \<lparr>pe_node_id = er_node_id e, pe_phase_index = er_phase_index e,
     pe_start_ts_ns = er_start_ts_ns e, pe_start_mono_ns = er_start_mono_ns e,
     pe_end_ts_ns = er_end_ts_ns e, pe_end_mono_ns = er_end_mono_ns e, pe_status = er_status e\<rparr>"

definition select_phase_events :: "string \<Rightarrow> int option \<Rightarrow> db \<Rightarrow> phase_event list" where
  "select_phase_events job_id k d = map phase_event_of (case k of
     None \<Rightarrow> sort_key (\<lambda>e. (er_phase_index e, er_node_id e))
       (filter (\<lambda>e. er_job_id e = job_id) (phase_events d))
   | Some i \<Rightarrow> sort_key er_node_id (filter (of_phase job_id i) (phase_events d)))"

text \<open>The method: a phase index is bound to the second statement.\<close>

definition list_phase_events :: "string \<Rightarrow> int option \<Rightarrow> db \<Rightarrow> store_error + phase_event list" where
  "list_phase_events job_id k d = (case k of
     Some i \<Rightarrow> if bindable i then Inr (select_phase_events job_id k d) else Inl OverflowError
   | None \<Rightarrow> Inr (select_phase_events job_id k d))"

section \<open>The two tables of the ingestion path\<close>

interpretation st: ignore_insert sample_key sample_ok insert_sample_row
  by unfold_locales (auto simp: insert_sample_row_def insert_or_ignore_def)

interpretation pe: ignore_insert event_key "\<lambda>_. True" insert_event_row
  by unfold_locales (auto simp: insert_event_row_def insert_or_ignore_def)

section \<open>The well-formed database\<close>

definition rollup_key :: "rollup_row \<Rightarrow> string \<times> int \<times> int" where
  "rollup_key r = (rr_node_id r, rr_metric_id r, rr_bucket_ts_ns r)"

text \<open>The PRIMARY KEY and NOT NULL constraints of the schema.\<close>

definition wf_db :: "db \<Rightarrow> bool" where
  "wf_db d \<longleftrightarrow> distinct (map sample_key (samples d)) \<and> (\<forall>r\<in>set (samples d). sample_ok r)
     \<and> distinct (map rollup_key (rollup_1m d)) \<and> distinct (map rollup_key (rollup_1h d))
     \<and> (\<forall>r\<in>set (rollup_1m d) \<union> set (rollup_1h d). rr_avg_value r \<noteq> NaN)
     \<and> distinct (map jr_job_id (jobs d)) \<and> distinct (map event_key (phase_events d))"

lemma wf_stored: "wf_db d \<Longrightarrow> st.stored (samples d) \<and> pe.stored (phase_events d)"
  by (simp add: wf_db_def st.stored_def pe.stored_def)

lemma wf_empty_db: "wf_db empty_db"
  by (simp add: wf_db_def empty_db_def)

lemma insert_samples_table: "samples (snd (insert_samples rows d)) = fold insert_sample_row rows (samples d)"
  by (simp add: insert_samples_def Let_def)

lemma insert_samples_frame:
  "snd (insert_samples rows d) = d\<lparr>samples := fold insert_sample_row rows (samples d)\<rparr>"
  by (simp add: insert_samples_def Let_def)

lemma wf_insert_samples: "wf_db d \<Longrightarrow> wf_db (snd (insert_samples rows d))"
  using st.stored_fold [of "samples d" rows] wf_stored [of d]
  by (simp add: insert_samples_frame wf_db_def st.stored_def)

lemma wf_insert_phase_event: "wf_db d \<Longrightarrow> wf_db (insert_phase_event e d)"
  using pe.stored_ins [of "phase_events d" e] wf_stored [of d]
  by (simp add: insert_phase_event_def wf_db_def pe.stored_def)

lemma wf_set_job_status: "wf_db d \<Longrightarrow> wf_db (set_job_status job_id status d)"
proof -
  have "map jr_job_id (jobs (set_job_status job_id status d)) = map jr_job_id (jobs d)"
    by (auto simp: set_job_status_def)
  then show "wf_db d \<Longrightarrow> ?thesis" by (simp add: wf_db_def) (simp add: set_job_status_def)
qed

lemma wf_store_create_job: "wf_db d \<Longrightarrow> store_create_job j n hs t m d = Inr d' \<Longrightarrow> wf_db d'"
  by (auto simp: store_create_job_def wf_db_def split: if_splits)

section \<open>Rollups\<close>

text \<open>What the raw samples say the rollup of a series is, and the rows of the other series.\<close>

definition rollups_of :: "(pyfloat list \<Rightarrow> pyfloat) \<Rightarrow> int \<Rightarrow> string \<Rightarrow> int \<Rightarrow> sample_row list \<Rightarrow> rollup_row list" where
  "rollups_of avg w n m raw = map (rollup_of avg n m) (group_by (bucket_ts w) (filter (of_series n m) raw))"

definition other_series :: "string \<Rightarrow> int \<Rightarrow> rollup_row list \<Rightarrow> rollup_row list" where
  "other_series n m tbl = filter (\<lambda>r. \<not> (rr_node_id r = n \<and> rr_metric_id r = m)) tbl"

lemma recompute_table_eq:
  "recompute_table avg w n m raw tbl =
     (if \<exists>r\<in>set (rollups_of avg w n m raw). rr_avg_value r = NaN
      then (Some IntegrityError, other_series n m tbl)
      else (None, other_series n m tbl @ rollups_of avg w n m raw))"
  by (simp add: recompute_table_def rollups_of_def other_series_def Let_def list_ex_iff)

lemma rollup_of_fields [simp]:
  "rr_node_id (rollup_of avg n m bg) = n" "rr_metric_id (rollup_of avg n m bg) = m"
  "rr_bucket_ts_ns (rollup_of avg n m bg) = fst bg" "rr_sample_count (rollup_of avg n m bg) = length (snd bg)"
  by (simp_all add: rollup_of_def Let_def split: prod.split)

lemma rollup_keys_rollups_of:
  "map rollup_key (rollups_of avg w n m raw) =
     map (\<lambda>b. (n, m, b)) (sort (remdups (map (bucket_ts w) (filter (of_series n m) raw))))"
  by (simp add: rollups_of_def rollup_key_def map_fst_group_by [symmetric] comp_def)

lemma distinct_recompute:
  assumes "distinct (map rollup_key tbl)"
  shows "distinct (map rollup_key (snd (recompute_table avg w n m raw tbl)))"
proof -
  have old: "distinct (map rollup_key (other_series n m tbl))"
    using assms by (simp add: other_series_def distinct_map_filter)
  have new: "distinct (map rollup_key (rollups_of avg w n m raw))"
    by (simp add: rollup_keys_rollups_of distinct_map inj_on_def)
  have "rollup_key r \<noteq> rollup_key q" if "r \<in> set (other_series n m tbl)" "q \<in> set (rollups_of avg w n m raw)" for r q
    using that by (auto simp: other_series_def rollups_of_def rollup_key_def)
  then have "set (map rollup_key (other_series n m tbl)) \<inter> set (map rollup_key (rollups_of avg w n m raw)) = {}"
    by fastforce
  then show ?thesis using old new by (simp add: recompute_table_eq)
qed

lemma avg_recompute:
  assumes "\<forall>r\<in>set tbl. rr_avg_value r \<noteq> NaN"
  shows "\<forall>r\<in>set (snd (recompute_table avg w n m raw tbl)). rr_avg_value r \<noteq> NaN"
  using assms by (auto simp: recompute_table_eq other_series_def)

lemma recompute_rollups_cases:
  "recompute_rollups avg n m d =
     (let (e, t) = recompute_table avg BUCKET_WIDTH_NS_1M n m (samples d) (rollup_1m d);
          (e', t') = recompute_table avg BUCKET_WIDTH_NS_1H n m (samples d) (rollup_1h d)
      in if e = None then (e', d\<lparr>rollup_1m := t, rollup_1h := t'\<rparr>) else (e, d\<lparr>rollup_1m := t\<rparr>))"
  by (auto simp: recompute_rollups_def Let_def split: prod.splits option.splits)

lemma wf_recompute_rollups:
  assumes "wf_db d"
  shows "wf_db (snd (recompute_rollups avg n m d))"
proof -
  obtain e t where 1: "recompute_table avg BUCKET_WIDTH_NS_1M n m (samples d) (rollup_1m d) = (e, t)"
    by fastforce
  obtain e' t' where 2: "recompute_table avg BUCKET_WIDTH_NS_1H n m (samples d) (rollup_1h d) = (e', t')"
    by fastforce
  have tables: "distinct (map rollup_key (rollup_1m d))" "distinct (map rollup_key (rollup_1h d))"
    "\<forall>r\<in>set (rollup_1m d). rr_avg_value r \<noteq> NaN" "\<forall>r\<in>set (rollup_1h d). rr_avg_value r \<noteq> NaN"
    using assms by (simp_all add: wf_db_def)
  have t: "distinct (map rollup_key t)" "\<forall>r\<in>set t. rr_avg_value r \<noteq> NaN"
    using distinct_recompute [OF tables(1)] avg_recompute [OF tables(3)] 1 by (metis snd_conv)+
  have t': "distinct (map rollup_key t')" "\<forall>r\<in>set t'. rr_avg_value r \<noteq> NaN"
    using distinct_recompute [OF tables(2)] avg_recompute [OF tables(4)] 2 by (metis snd_conv)+
  show ?thesis
    using assms tables t t' by (simp add: recompute_rollups_cases 1 2 wf_db_def ball_Un)
qed

lemma recompute_rollups_frame:
  "samples (snd (recompute_rollups avg n m d)) = samples d"
  "jobs (snd (recompute_rollups avg n m d)) = jobs d"
  "phase_events (snd (recompute_rollups avg n m d)) = phase_events d"
  by (simp_all add: recompute_rollups_cases split: prod.split)

section \<open>Counting reports\<close>

lemma count_phase_reports_card:
  assumes "wf_db d"
  shows "count_phase_reports j k d = card (er_node_id ` {e \<in> set (phase_events d). of_phase j k e})"
proof -
  let ?es = "filter (of_phase j k) (phase_events d)"
  have "distinct (map event_key ?es)" using assms by (simp add: wf_db_def distinct_map_filter)
  then have "distinct (map er_node_id ?es)"
    by (auto simp: distinct_map inj_on_def event_key_def of_phase_def)
  then have "length ?es = card (set (map er_node_id ?es))" by (metis distinct_card length_map)
  also have "set (map er_node_id ?es) = er_node_id ` {e \<in> set (phase_events d). of_phase j k e}" by simp
  finally show ?thesis by (simp add: count_phase_reports_def)
qed

section \<open>The calls that change the database\<close>

text \<open>One call of a method of \<open>TSDBStore\<close> that writes, whatever its arguments.\<close>

inductive store_step :: "db \<Rightarrow> db \<Rightarrow> bool" where
  step_insert_samples: "store_step d (snd (insert_samples rows d))"
| step_recompute: "store_step d (snd (recompute_rollups avg n m d))"
| step_create_job: "store_create_job j k hs t fm d = Inr d' \<Longrightarrow> store_step d d'"
| step_set_status: "store_step d (set_job_status j status d)"
| step_insert_event: "store_step d (insert_phase_event e d)"

lemma store_step_wf: "store_step d d' \<Longrightarrow> wf_db d \<Longrightarrow> wf_db d'"
  by (induction rule: store_step.induct)
    (auto intro: wf_insert_samples wf_recompute_rollups wf_store_create_job wf_set_job_status wf_insert_phase_event)

lemma store_step_appends:
  "store_step d d' \<Longrightarrow> \<exists>new. samples d' = samples d @ new"
  "store_step d d' \<Longrightarrow> \<exists>new. phase_events d' = phase_events d @ new"
proof -
  show "\<exists>new. samples d' = samples d @ new" if "store_step d d'"
    using that
  proof cases
    case (step_insert_samples rows)
    then show ?thesis using st.fold_appends [of rows "samples d"] by (auto simp: insert_samples_frame)
  qed (auto simp: recompute_rollups_frame store_create_job_def set_job_status_def insert_phase_event_def split: if_splits)
  show "\<exists>new. phase_events d' = phase_events d @ new" if "store_step d d'"
    using that
  proof cases
    case (step_insert_event e)
    then show ?thesis using pe.ins_appends [of e "phase_events d"] by (auto simp: insert_phase_event_def)
  qed (auto simp: recompute_rollups_frame store_create_job_def set_job_status_def insert_samples_frame split: if_splits)
qed

lemma store_steps_appends:
  assumes "store_step\<^sup>*\<^sup>* d d'"
  shows "(\<exists>new. samples d' = samples d @ new) \<and> (\<exists>new. phase_events d' = phase_events d @ new)"
  using assms
proof (induction rule: rtranclp_induct)
  case (step d1 d2)
  then show ?case using store_step_appends [OF step.hyps(2)] by fastforce
qed simp

section \<open>The abstract samples table\<close>

text \<open>
  The samples as a finite map from (node, metric, timestamp) to the row stored under it, and
  what inserting a row means there.
\<close>

definition sample_at :: "db \<Rightarrow> string \<times> int \<times> int \<rightharpoonup> sample_row" where
  "sample_at d = map_of (map (\<lambda>r. (sample_key r, r)) (samples d))"

definition put_new :: "sample_row \<Rightarrow> (string \<times> int \<times> int \<rightharpoonup> sample_row) \<Rightarrow> (string \<times> int \<times> int \<rightharpoonup> sample_row)" where
  "put_new r m = (if sr_value r \<noteq> NaN \<and> m (sample_key r) = None then m(sample_key r \<mapsto> r) else m)"

lemma sample_at_eq: "sample_at d = st.row_at (samples d)"
  by (simp add: sample_at_def st.row_at_def)

lemma put_new_fold: "st.row_at (fold insert_sample_row rows tbl) = fold put_new rows (st.row_at tbl)"
  by (induction rows arbitrary: tbl) (simp_all add: st.row_at_ins put_new_def sample_ok_def)


lemma rollup_series_filter:
  "filter (\<lambda>r. rr_node_id r = n \<and> rr_metric_id r = m) (other_series n m tbl @ rollups_of avg w n m raw)
     = rollups_of avg w n m raw"
  by (auto simp: other_series_def rollups_of_def filter_empty_conv intro!: filter_True)

lemma rollups_of_ascending: "sorted_wrt (<) (map rr_bucket_ts_ns (rollups_of avg w n m raw))"
proof -
  have "map rr_bucket_ts_ns (rollups_of avg w n m raw) =
      sort (remdups (map (bucket_ts w) (filter (of_series n m) raw)))"
    by (simp add: rollups_of_def map_fst_group_by [symmetric] comp_def)
  then show ?thesis by (simp add: strict_sorted_iff)
qed

lemma recompute_rollups_tables:
  assumes "recompute_rollups avg n m d = (None, d')"
  shows "rollup_1m d' = other_series n m (rollup_1m d) @ rollups_of avg BUCKET_WIDTH_NS_1M n m (samples d)"
    and "rollup_1h d' = other_series n m (rollup_1h d) @ rollups_of avg BUCKET_WIDTH_NS_1H n m (samples d)"
    and "samples d' = samples d"
  using assms by (auto simp: recompute_rollups_cases recompute_table_eq split: if_splits)

lemma query_rollup_recomputed:
  assumes "recompute_rollups avg n m d = (None, d')"
  shows "query_rollup n m ''1m'' limit d' = Inr (map rollup_point_of
      (sql_limit limit (rev (rollups_of avg 60000000000 n m (samples d)))))
    \<and> query_rollup n m ''1h'' limit d' = Inr (map rollup_point_of
      (sql_limit limit (rev (rollups_of avg 3600000000000 n m (samples d)))))"
proof -
  note [simp] = order_by_desc_ascending [OF rollups_of_ascending]
  show ?thesis using recompute_rollups_tables [OF assms]
    by (simp add: query_rollup_def rollup_table_def rollup_series_filter
        BUCKET_WIDTH_NS_1M_def BUCKET_WIDTH_NS_1H_def del: filter_append)
qed

lemma bucket_range:
  assumes "0 < w" and "0 \<le> sr_ts_ns r"
  shows "bucket_ts w r \<le> sr_ts_ns r \<and> sr_ts_ns r < bucket_ts w r + w"
proof -
  have "bucket_ts w r = sr_ts_ns r - sr_ts_ns r mod w"
    using assms by (simp add: bucket_ts_def sql_div_nonneg minus_mod_eq_div_mult)
  moreover have "0 \<le> sr_ts_ns r mod w" "sr_ts_ns r mod w < w" using assms by simp_all
  ultimately show ?thesis by linarith
qed

lemma sql_div_floor_iff:
  assumes "0 < w"
  shows "sql_div a w = a div w \<longleftrightarrow> 0 \<le> a \<or> w dvd a"
proof (cases "0 \<le> a")
  case False
  have "sql_div a w = - ((- a) div w)"
    using assms False by (simp add: sql_div_def signed_divide_int_def)
  moreover have "a div w = (if (- a) mod w = 0 then - ((- a) div w) else - ((- a) div w) - 1)"
    using zdiv_zminus1_eq_if [of w "- a"] assms by simp
  ultimately show ?thesis using False by (simp add: dvd_eq_mod_eq_0 [symmetric])
qed (use assms sql_div_nonneg in simp)

lemma distinct_series_ts:
  assumes "wf_db d"
  shows "distinct (map sr_ts_ns (filter (of_series n m) (samples d)))"
proof -
  have "distinct (map sample_key (filter (of_series n m) (samples d)))"
    using assms by (simp add: wf_db_def distinct_map_filter)
  then show ?thesis by (auto simp: distinct_map inj_on_def sample_key_def of_series_def)
qed

section \<open>Concrete rows\<close>

text \<open>
  A row and an event to run the store on, and a concrete average: the sum from the left
  divided by the count, which is how SQLite computes AVG up to version 3.42.
\<close>

definition demo_sample :: "int \<Rightarrow> rat \<Rightarrow> sample_row" where
  "demo_sample ts v = \<lparr>sr_node_id = ''node-1'', sr_metric_id = 1, sr_ts_ns = ts, sr_mono_ns = ts,
     sr_server_recv_ts_ns = ts + 5, sr_value = Fin v, sr_producer_version = ''v1''\<rparr>"

definition demo_event :: "string \<Rightarrow> phase_event_row" where
  "demo_event n = \<lparr>er_job_id = ''job'', er_node_id = n, er_phase_index = 0, er_start_ts_ns = 0,
     er_start_mono_ns = 0, er_end_ts_ns = 9, er_end_mono_ns = 9, er_status = ''ok''\<rparr>"

definition sum_average :: "pyfloat list \<Rightarrow> pyfloat" where
  "sum_average vs = (case fl_div (fold (\<lambda>v acc. fl_add acc v) vs (Fin 0)) (fl_of_int (int (length vs))) of
     None \<Rightarrow> NaN | Some x \<Rightarrow> x)"

definition demo_db :: db where
  "demo_db = snd (insert_samples [demo_sample 100 10, demo_sample 200 20, demo_sample 60000000000 50] empty_db)"

lemma demo_db_steps: "store_step\<^sup>*\<^sup>* empty_db demo_db"
  unfolding demo_db_def by (rule r_into_rtranclp [of store_step], rule step_insert_samples)

lemma demo_recompute: "fst (recompute_rollups sum_average ''node-1'' 1 demo_db) = None"
  by code_simp

lemma demo_recompute_eq:
  "recompute_rollups sum_average ''node-1'' 1 demo_db
     = (None, snd (recompute_rollups sum_average ''node-1'' 1 demo_db))"
  using demo_recompute by (metis prod.collapse)

section \<open>Properties of the store\<close>

text \<open>
  Whatever sequence of writing calls is made on a new database, its tables satisfy the
  schema's constraints: the primary keys of all five tables are unique, no stored sample or
  rollup average is NaN.
\<close>

theorem store_reachable_wf:
  assumes "store_step\<^sup>*\<^sup>* empty_db d"
  shows "wf_db d"
  using assms by (induction rule: rtranclp_induct) (auto intro: wf_empty_db store_step_wf)

theorem store_reachable_wf_witness:
  "wf_db (snd (insert_samples [demo_sample 100 7, demo_sample 300 8] demo_db))
     \<and> length (samples (snd (insert_samples [demo_sample 100 7, demo_sample 300 8] demo_db))) = 4"
proof
  show "wf_db (snd (insert_samples [demo_sample 100 7, demo_sample 300 8] demo_db))"
    by (rule store_reachable_wf) (rule rtranclp.rtrancl_into_rtrancl [OF demo_db_steps step_insert_samples])
qed code_simp

text \<open>
  Raw rows are never overwritten or removed: after any further writing calls, the samples
  and phase events that were stored are still there, unchanged and in the same places.
\<close>

theorem store_rows_preserved:
  assumes "store_step\<^sup>*\<^sup>* d d'"
  shows "take (length (samples d)) (samples d') = samples d
    \<and> take (length (phase_events d)) (phase_events d') = phase_events d"
  using store_steps_appends [OF assms] by auto

text \<open>
  C38. \<open>insert_samples\<close> refines the finite map from (node, metric, timestamp) to rows: each row of
  the batch, in order, is stored if its value is not NaN and its key is free, and the number
  returned is the number of keys that became occupied.
\<close>

theorem insert_samples_refines:
  "sample_at (snd (insert_samples rows d)) = fold put_new rows (sample_at d)
   \<and> fst (insert_samples rows d) = card (dom (fold put_new rows (sample_at d)) - dom (sample_at d))"
proof -
  have "fst (insert_samples rows d) = card (dom (st.row_at (fold insert_sample_row rows (samples d))) - dom (st.row_at (samples d)))"
    by (simp add: insert_samples_def Let_def st.fold_count st.keys_row_at)
  then show ?thesis by (simp add: sample_at_eq insert_samples_table put_new_fold)
qed

text \<open>
  A retried batch cannot corrupt the store: whatever was written since, inserting the same
  rows again inserts none and leaves the database as it is.
\<close>

theorem insert_samples_retry:
  assumes "store_step\<^sup>*\<^sup>* (snd (insert_samples rows d)) d'"
  shows "insert_samples rows d' = (0, d')"
proof -
  obtain new where new: "samples d' = fold insert_sample_row rows (samples d) @ new"
    using store_steps_appends [OF assms] by (auto simp: insert_samples_table)
  have "fold insert_sample_row rows (samples d') = samples d'"
  proof (rule st.fold_all_refused)
    fix r assume "r \<in> set rows" "sample_ok r"
    then have "sample_key r \<in> set (map sample_key (fold insert_sample_row rows (samples d)))"
      by (rule st.fold_covers)
    then show "sample_key r \<in> set (map sample_key (samples d'))" using new by auto
  qed
  then show ?thesis by (simp add: insert_samples_def Let_def)
qed

theorem insert_samples_retry_witness:
  "insert_samples [demo_sample 100 10, demo_sample 200 20, demo_sample 60000000000 50] demo_db = (0, demo_db)"
  by (rule insert_samples_retry [where d = empty_db]) (simp add: demo_db_def)

text \<open>
  C17. After \<open>recompute_rollups\<close> succeeds, \<open>query_rollup\<close> returns for both resolutions exactly
  the aggregates of the raw samples by bucket, latest bucket first, whatever the rollup tables
  held before.
\<close>

theorem query_rollup_after_recompute:
  assumes "recompute_rollups avg n m d = (None, d')"
  shows "query_rollup n m ''1m'' limit d' = Inr (map rollup_point_of
      (sql_limit limit (rev (rollups_of avg 60000000000 n m (samples d)))))
    \<and> query_rollup n m ''1h'' limit d' = Inr (map rollup_point_of
      (sql_limit limit (rev (rollups_of avg 3600000000000 n m (samples d)))))"
  by (rule query_rollup_recomputed [OF assms])

theorem query_rollup_after_recompute_witness:
  "query_rollup ''node-1'' 1 ''1m'' 10 (snd (recompute_rollups sum_average ''node-1'' 1 demo_db)) =
     Inr [\<lparr>rp_bucket_ts_ns = 60000000000, rp_avg_value = Fin 50, rp_min_value = Fin 50,
            rp_max_value = Fin 50, rp_sample_count = 1\<rparr>,
          \<lparr>rp_bucket_ts_ns = 0, rp_avg_value = Fin 15, rp_min_value = Fin 10,
            rp_max_value = Fin 20, rp_sample_count = 2\<rparr>]"
proof -
  have "map rollup_point_of (sql_limit 10 (rev (rollups_of sum_average 60000000000 ''node-1'' 1 (samples demo_db))))
     = [\<lparr>rp_bucket_ts_ns = 60000000000, rp_avg_value = Fin 50, rp_min_value = Fin 50,
            rp_max_value = Fin 50, rp_sample_count = 1\<rparr>,
          \<lparr>rp_bucket_ts_ns = 0, rp_avg_value = Fin 15, rp_min_value = Fin 10,
            rp_max_value = Fin 20, rp_sample_count = 2\<rparr>]"
    by code_simp
  then show ?thesis
    using query_rollup_after_recompute [OF demo_recompute_eq, THEN conjunct1, of 10] by simp
qed

text \<open>
  The 1-minute rollup accounts for the raw series: the sample counts of its buckets add up to
  the number of raw samples, and every raw sample at or after the epoch lies in a bucket that
  starts at or before it, ends after it, and whose minimum and maximum enclose its value.
\<close>

theorem rollup_covers_samples:
  assumes "recompute_rollups avg n m d = (None, d')"
    and "query_rollup n m ''1m'' (-1) d' = Inr ps"
  shows "sum_list (map rp_sample_count ps) = length (filter (of_series n m) (samples d))
    \<and> (\<forall>r\<in>set (filter (of_series n m) (samples d)). 0 \<le> sr_ts_ns r \<longrightarrow>
        (\<exists>p\<in>set ps. rp_bucket_ts_ns p \<le> sr_ts_ns r \<and> sr_ts_ns r < rp_bucket_ts_ns p + 60000000000
           \<and> rp_min_value p \<le> sr_value r \<and> sr_value r \<le> rp_max_value p))"
proof (intro conjI ballI impI)
  let ?w = "60000000000::int" and ?raw = "filter (of_series n m) (samples d)"
  have ps: "ps = map rollup_point_of (rev (rollups_of avg ?w n m (samples d)))"
    using query_rollup_recomputed [OF assms(1), of "-1"] assms(2) by (simp add: sql_limit_def)
  have "map rp_sample_count ps = rev (map (length \<circ> snd) (group_by (bucket_ts ?w) ?raw))"
    by (simp add: ps rollups_of_def rollup_point_of_def rev_map comp_def)
  then show "sum_list (map rp_sample_count ps) = length ?raw"
    by (simp add: group_by_partition)
  fix r
  assume r: "r \<in> set ?raw" and t: "0 \<le> sr_ts_ns r"
  let ?g = "filter (\<lambda>x. bucket_ts ?w x = bucket_ts ?w r) ?raw"
  let ?row = "rollup_of avg n m (bucket_ts ?w r, ?g)"
  have "?row \<in> set (rollups_of avg ?w n m (samples d))"
    unfolding rollups_of_def set_map using r by (intro imageI) (auto simp: group_by_member)
  then have "rollup_point_of ?row \<in> set ps" by (simp add: ps)
  moreover have "sr_value r \<in> set (map sr_value ?g)" using r by auto
  then have "Min (set (map sr_value ?g)) \<le> sr_value r" "sr_value r \<le> Max (set (map sr_value ?g))"
    by (auto intro!: Min_le Max_ge)
  ultimately show "\<exists>p\<in>set ps. rp_bucket_ts_ns p \<le> sr_ts_ns r \<and> sr_ts_ns r < rp_bucket_ts_ns p + ?w
      \<and> rp_min_value p \<le> sr_value r \<and> sr_value r \<le> rp_max_value p"
    using bucket_range [of ?w r] t by (intro bexI [of _ "rollup_point_of ?row"]) (simp_all add: rollup_point_of_def rollup_of_def Let_def)
qed

theorem rollup_covers_samples_witness:
  "sum_list (map rp_sample_count
     [\<lparr>rp_bucket_ts_ns = 60000000000, rp_avg_value = Fin 50, rp_min_value = Fin 50,
        rp_max_value = Fin 50, rp_sample_count = 1\<rparr>,
      \<lparr>rp_bucket_ts_ns = 0, rp_avg_value = Fin 15, rp_min_value = Fin 10,
        rp_max_value = Fin 20, rp_sample_count = 2\<rparr>]) =
   length (filter (of_series ''node-1'' 1) (samples demo_db))"
proof -
  have "query_rollup ''node-1'' 1 ''1m'' (-1) (snd (recompute_rollups sum_average ''node-1'' 1 demo_db)) =
     Inr [\<lparr>rp_bucket_ts_ns = 60000000000, rp_avg_value = Fin 50, rp_min_value = Fin 50,
            rp_max_value = Fin 50, rp_sample_count = 1\<rparr>,
          \<lparr>rp_bucket_ts_ns = 0, rp_avg_value = Fin 15, rp_min_value = Fin 10,
            rp_max_value = Fin 20, rp_sample_count = 2\<rparr>]"
    by code_simp
  from rollup_covers_samples [OF demo_recompute_eq this] show ?thesis by blast
qed

text \<open>
  Recomputing a rollup a second time changes nothing.
\<close>

theorem recompute_rollups_idempotent:
  assumes "recompute_rollups avg n m d = (None, d')"
  shows "recompute_rollups avg n m d' = (None, d')"
proof -
  have [simp]: "other_series n m (other_series n m tbl @ rollups_of avg w n m raw) = other_series n m tbl" for tbl w raw
    by (auto simp: other_series_def rollups_of_def filter_empty_conv)
  show ?thesis using assms
    by (auto simp: recompute_rollups_cases recompute_table_eq split: if_splits)
qed

text \<open>
  A bucket start is the floor of the timestamp to the bucket width exactly when the timestamp
  is not negative or is itself a multiple of the width: for other timestamps before the epoch,
  SQLite's truncating division puts the sample one bucket too late.
\<close>

theorem bucket_floor_iff:
  "bucket_ts BUCKET_WIDTH_NS_1M r = sr_ts_ns r div BUCKET_WIDTH_NS_1M * BUCKET_WIDTH_NS_1M
     \<longleftrightarrow> 0 \<le> sr_ts_ns r \<or> BUCKET_WIDTH_NS_1M dvd sr_ts_ns r"
  using sql_div_floor_iff [of BUCKET_WIDTH_NS_1M "sr_ts_ns r"]
  by (simp add: bucket_ts_def BUCKET_WIDTH_NS_1M_def)

text \<open>
  \<open>query_series\<close> returns the latest samples of the series, in strictly descending order of
  time: as many as the limit allows (all for a negative limit), each one stored, and every
  stored sample of the series that is not returned is older than all that are.
\<close>

theorem query_series_latest:
  assumes "wf_db d"
  shows "sorted_wrt (>) (map fst (query_series n m limit d))
    \<and> length (query_series n m limit d) = (if limit < 0 then length (filter (of_series n m) (samples d))
        else min (length (filter (of_series n m) (samples d))) (nat limit))
    \<and> set (query_series n m limit d) \<subseteq> (\<lambda>r. (sr_ts_ns r, sr_value r)) ` set (filter (of_series n m) (samples d))
    \<and> (\<forall>r\<in>set (filter (of_series n m) (samples d)).
         (sr_ts_ns r, sr_value r) \<in> set (query_series n m limit d)
         \<or> (\<forall>p\<in>set (query_series n m limit d). sr_ts_ns r < fst p))"
proof -
  let ?raw = "filter (of_series n m) (samples d)"
  let ?L = "order_by_desc sr_ts_ns ?raw"
  have desc: "sorted_wrt (\<lambda>a b. sr_ts_ns b < sr_ts_ns a) ?L"
    using sorted_distinct_desc [OF distinct_series_ts [OF assms]] by (simp add: sorted_wrt_map)
  obtain k where k: "sql_limit limit ?L = take k ?L"
    by (metis order_refl sql_limit_def take_all_iff)
  have len: "length ?L = length ?raw" by (metis mset_order_by_desc size_mset)
  have cross: "\<forall>x\<in>set (take k ?L). \<forall>y\<in>set (drop k ?L). sr_ts_ns y < sr_ts_ns x"
    using desc sorted_wrt_append [of "\<lambda>a b. sr_ts_ns b < sr_ts_ns a" "take k ?L" "drop k ?L"] by simp
  have "sorted_wrt (>) (map fst (query_series n m limit d))"
    using desc by (simp add: query_series_def k sorted_wrt_map sorted_wrt_take)
  moreover have "r \<in> set (take k ?L) \<or> (\<forall>x\<in>set (take k ?L). sr_ts_ns r < sr_ts_ns x)" if "r \<in> set ?raw" for r
  proof -
    have "r \<in> set (take k ?L) \<union> set (drop k ?L)" using that by (metis append_take_drop_id set_append set_order_by_desc)
    then show ?thesis using cross by blast
  qed
  moreover have "set (take k ?L) \<subseteq> set ?raw" using set_take_subset [of k ?L] by simp
  ultimately show ?thesis using length_sql_limit [of limit ?L] len
    by (auto simp: query_series_def k)
qed

theorem query_series_latest_witness:
  "wf_db demo_db \<and> query_series ''node-1'' 1 2 demo_db = [(60000000000, Fin 50), (200, Fin 20)]
    \<and> sorted_wrt (>) (map fst (query_series ''node-1'' 1 2 demo_db))"
proof -
  have wf: "wf_db demo_db" by (simp add: demo_db_def wf_insert_samples wf_empty_db)
  have "query_series ''node-1'' 1 2 demo_db = [(60000000000, Fin 50), (200, Fin 20)]" by code_simp
  then show ?thesis using wf query_series_latest [OF wf, of "''node-1''" 1 2] by blast
qed

text \<open>
  \<open>count_phase_reports\<close> counts the distinct nodes that have reported the phase: repeated
  reports of one node count once.
\<close>

theorem count_phase_reports_nodes:
  assumes "wf_db d"
  shows "count_phase_reports j k d = card (er_node_id ` {e \<in> set (phase_events d). of_phase j k e})"
  using assms by (rule count_phase_reports_card)

end
