(* ===== verification/Ingest_Server.thy ===== *)
theory Ingest_Server
  imports Framing Validation Tsdb_Store
begin

text \<open>
  \<open>ingestion/src/hpctel/ingest_server.py\<close>: the connection handler, the loop that drains
  complete frames from its buffer, and the two frame handlers, as functions on the state the
  coroutines share: the store, the log and the wall clock. \<open>clock k\<close> is the result of the
  \<open>k\<close>-th call of \<open>time.time_ns()\<close>; \<open>srv_ticks\<close> counts the calls. The protobuf
  parsers are parameters (see \<open>Telemetry\<close>); an exception that leaves a handler is a value.

  \<open>handle_connection\<close> runs one connection on the results of its reads. The step relation
  \<open>sys_step\<close> interleaves any number of connections: a coroutine gives up control only
  at its \<open>await reader.read\<close>, so one read with everything up to the next one is a step.
\<close>

section \<open>Shared state\<close>

record log_record =
  lg_level :: string
  lg_message :: string
  lg_reason_code :: "string option"
  lg_node_id :: "string option"
  lg_job_id :: "string option"

record server =
  srv_db :: db
  srv_log :: "log_record list"
  srv_ticks :: nat

datatype conn_error = DecodeError | ReadFailed

type_synonym clock = "nat \<Rightarrow> int"

definition info_log :: "string \<Rightarrow> string \<Rightarrow> string option \<Rightarrow> log_record" where
  "info_log msg node job = \<lparr>lg_level = ''INFO'', lg_message = msg, lg_reason_code = None,
     lg_node_id = Some node, lg_job_id = job\<rparr>"

definition warn_log :: "string \<Rightarrow> string \<Rightarrow> string option \<Rightarrow> log_record" where
  "warn_log msg reason node = \<lparr>lg_level = ''WARNING'', lg_message = msg, lg_reason_code = Some reason,
     lg_node_id = node, lg_job_id = None\<rparr>"

definition emit :: "log_record \<Rightarrow> server \<Rightarrow> server" where
  "emit l s = s\<lparr>srv_log := srv_log s @ [l]\<rparr>"

definition time_ns :: "clock \<Rightarrow> server \<Rightarrow> int \<times> server" where
  "time_ns clk s = (clk (srv_ticks s), s\<lparr>srv_ticks := Suc (srv_ticks s)\<rparr>)"

section \<open>Frame handlers\<close>

definition tuples_of :: "sample_batch \<Rightarrow> sample_tuple list" where
  "tuples_of batch = map (\<lambda>s. (s_node_id s, s_metric_id s, s_ts_ns s, s_mono_ns s, s_value s)) (batch_samples batch)"

definition row_of :: "string \<Rightarrow> int \<Rightarrow> valid_sample \<Rightarrow> sample_row" where
  "row_of producer recv v = \<lparr>sr_node_id = v_node_id v, sr_metric_id = v_metric_id v, sr_ts_ns = v_ts_ns v,
     sr_mono_ns = v_mono_ns v, sr_server_recv_ts_ns = recv, sr_value = v_value v,
     sr_producer_version = producer\<rparr>"

text \<open>\<open>validate_batch\<close> with its own reading of the clock, which a refused schema version skips.\<close>

definition validate_now :: "clock \<Rightarrow> sample_batch \<Rightarrow> server \<Rightarrow> validation_result \<times> server" where
  "validate_now clk batch s = (if schema_version batch \<in> set SUPPORTED_SCHEMA_VERSIONS
     then (let (t, s') = time_ns clk s in
       (validate_batch (schema_version batch) (producer_version batch) (tuples_of batch) None t, s'))
     else (validate_batch (schema_version batch) (producer_version batch) (tuples_of batch) None 0, s))"

definition handle_sample_batch :: "batch_parser \<Rightarrow> clock \<Rightarrow> bytes \<Rightarrow> server \<Rightarrow> server \<times> conn_error option" where
  "handle_sample_batch parse clk pl s = (case parse pl of
     None \<Rightarrow> (s, Some DecodeError)
   | Some batch \<Rightarrow> (let (result, s1) = validate_now clk batch s in
       case batch_rejected_reason_code result of
         Some code \<Rightarrow> (emit (warn_log ''batch_rejected'' code None) s1, None)
       | None \<Rightarrow> (let s2 = fold (\<lambda>code. emit (warn_log ''sample_dropped'' code None))
                               (dropped_reason_codes result) s1 in
           case accepted result of
             [] \<Rightarrow> (s2, None)
           | v # _ \<Rightarrow> (let (recv, s3) = time_ns clk s2;
                          rows = map (row_of (producer_version batch) recv) (accepted result);
                          s4 = s3\<lparr>srv_db := snd (insert_samples rows (srv_db s3))\<rparr>
                      in (emit (info_log ''sample_batch_ingested'' (v_node_id v) None) s4, None)))))"

definition event_row_of :: "phase_event_msg \<Rightarrow> phase_event_row" where
  "event_row_of m = \<lparr>er_job_id = pm_job_id m, er_node_id = pm_node_id m, er_phase_index = pm_phase_index m,
     er_start_ts_ns = pm_start_ts_ns m, er_start_mono_ns = pm_start_mono_ns m,
     er_end_ts_ns = pm_end_ts_ns m, er_end_mono_ns = pm_end_mono_ns m, er_status = pm_status m\<rparr>"

definition handle_phase_event :: "event_parser \<Rightarrow> bytes \<Rightarrow> server \<Rightarrow> server \<times> conn_error option" where
  "handle_phase_event parse pl s = (case parse pl of
     None \<Rightarrow> (s, Some DecodeError)
   | Some m \<Rightarrow> (emit (info_log ''phase_event_ingested'' (pm_node_id m) (Some (pm_job_id m)))
       (s\<lparr>srv_db := insert_phase_event (event_row_of m) (srv_db s)\<rparr>), None))"

definition handle_frame :: "batch_parser \<Rightarrow> event_parser \<Rightarrow> clock \<Rightarrow> decoded_frame \<Rightarrow> server
    \<Rightarrow> server \<times> conn_error option" where
  "handle_frame pb pe clk f s =
     (if tag f = FRAME_TAG_SAMPLE_BATCH then handle_sample_batch pb clk (payload f) s
      else if tag f = FRAME_TAG_PHASE_EVENT then handle_phase_event pe (payload f) s
      else (s, None))"

section \<open>The connection\<close>

text \<open>\<open>_drain_frames\<close>: the buffer left, the shared state, and an exception that left it.\<close>

function drain_frames :: "batch_parser \<Rightarrow> event_parser \<Rightarrow> clock \<Rightarrow> string \<Rightarrow> bytes \<Rightarrow> server
    \<Rightarrow> bytes \<times> server \<times> conn_error option" where
  "drain_frames pb pe clk peer buffer s = (case decode_frame buffer of
     Inl UnknownFrameTagError \<Rightarrow>
       ([], emit (warn_log ''unknown_frame_tag'' ''unknown_frame_tag'' (Some peer)) s, None)
   | Inr (None, _) \<Rightarrow> (buffer, s, None)
   | Inr (Some f, consumed) \<Rightarrow> (case handle_frame pb pe clk f s of
         (s', Some e) \<Rightarrow> (drop consumed buffer, s', Some e)
       | (s', None) \<Rightarrow> drain_frames pb pe clk peer (drop consumed buffer) s'))"
  by pat_completeness auto
termination
  by (relation "measure (\<lambda>(_, _, _, _, b, _). length b)")
    (auto dest!: fd.progress)

declare drain_frames.simps [simp del]

text \<open>What \<open>reader.read\<close> gives: a chunk (empty at the end of the stream) or an exception.\<close>

datatype read = Chunk bytes | ReadError

definition at_eof :: "string \<Rightarrow> bytes \<Rightarrow> server \<Rightarrow> server" where
  "at_eof peer buffer s =
     (if FRAME_HEADER_LENGTH \<le> length buffer
      then emit (warn_log ''partial_frame'' ''partial_frame'' (Some peer)) s
      else if 0 < length buffer
      then emit (warn_log ''truncated_frame'' ''truncated_frame'' (Some peer)) s
      else s)"

text \<open>The \<open>while True\<close> loop; a list of reads that runs out is the end of the stream.\<close>

fun read_loop :: "batch_parser \<Rightarrow> event_parser \<Rightarrow> clock \<Rightarrow> string \<Rightarrow> bytes \<Rightarrow> server \<Rightarrow> read list
    \<Rightarrow> server \<times> conn_error option" where
  "read_loop pb pe clk peer buffer s [] = (at_eof peer buffer s, None)"
| "read_loop pb pe clk peer buffer s (ReadError # _) = (s, Some ReadFailed)"
| "read_loop pb pe clk peer buffer s (Chunk chunk # rest) =
     (if chunk = [] then (at_eof peer buffer s, None)
      else case drain_frames pb pe clk peer (buffer @ chunk) s of
        (b, s', Some e) \<Rightarrow> (s', Some e)
      | (b, s', None) \<Rightarrow> read_loop pb pe clk peer b s' rest)"

definition handle_connection :: "batch_parser \<Rightarrow> event_parser \<Rightarrow> clock \<Rightarrow> string \<Rightarrow> read list \<Rightarrow> server
    \<Rightarrow> server \<times> conn_error option" where
  "handle_connection pb pe clk peer rs s =
     (case read_loop pb pe clk peer [] (emit (info_log ''agent_connected'' peer None) s) rs of
        (s', e) \<Rightarrow> (emit (info_log ''agent_disconnected'' peer None) s', e))"

section \<open>Frames that parse\<close>

definition frame_parses :: "batch_parser \<Rightarrow> event_parser \<Rightarrow> decoded_frame \<Rightarrow> bool" where
  "frame_parses pb pe f \<longleftrightarrow> (if tag f = FRAME_TAG_SAMPLE_BATCH then pb (payload f) \<noteq> None
     else if tag f = FRAME_TAG_PHASE_EVENT then pe (payload f) \<noteq> None else True)"

lemma handle_sample_batch_error:
  "snd (handle_sample_batch pb clk pl s) = (if pb pl = None then Some DecodeError else None)"
  by (auto simp: handle_sample_batch_def Let_def split: option.split prod.split list.split)

lemma handle_phase_event_error:
  "snd (handle_phase_event pe pl s) = (if pe pl = None then Some DecodeError else None)"
  by (auto simp: handle_phase_event_def split: option.split)

lemma handle_frame_error:
  "snd (handle_frame pb pe clk f s) = (if frame_parses pb pe f then None else Some DecodeError)"
  by (simp add: handle_frame_def frame_parses_def handle_sample_batch_error handle_phase_event_error)

definition handle_all :: "batch_parser \<Rightarrow> event_parser \<Rightarrow> clock \<Rightarrow> decoded_frame list \<Rightarrow> server \<Rightarrow> server" where
  "handle_all pb pe clk fs s = fold (\<lambda>f s. fst (handle_frame pb pe clk f s)) fs s"

lemma handle_all_simps [simp]:
  "handle_all pb pe clk [] s = s"
  "handle_all pb pe clk (f # fs) s = handle_all pb pe clk fs (fst (handle_frame pb pe clk f s))"
  "handle_all pb pe clk (fs @ gs) s = handle_all pb pe clk gs (handle_all pb pe clk fs s)"
  by (simp_all add: handle_all_def)

text \<open>The cases of one round of the drain loop.\<close>

lemma drain_frame:
  assumes "decode_frame b = Inr (Some f, n)"
  shows "drain_frames pb pe clk peer b s = (if frame_parses pb pe f
     then drain_frames pb pe clk peer (drop n b) (fst (handle_frame pb pe clk f s))
     else (drop n b, fst (handle_frame pb pe clk f s), Some DecodeError))"
proof -
  obtain s' e where h: "handle_frame pb pe clk f s = (s', e)" by fastforce
  moreover from h have "e = (if frame_parses pb pe f then None else Some DecodeError)"
    using handle_frame_error [of pb pe clk f s] by simp
  ultimately show ?thesis using assms by (simp add: drain_frames.simps [of _ _ _ _ b])
qed

lemma drain_wait:
  "decode_frame b = Inr (None, k) \<Longrightarrow> drain_frames pb pe clk peer b s = (b, s, None)"
  by (simp add: drain_frames.simps [of _ _ _ _ b])

lemma drain_unknown:
  "decode_frame b = Inl e \<Longrightarrow> drain_frames pb pe clk peer b s =
     ([], emit (warn_log ''unknown_frame_tag'' ''unknown_frame_tag'' (Some peer)) s, None)"
  by (cases e) (simp add: drain_frames.simps [of _ _ _ _ b])

lemma drain_reads:
  assumes "reads decode_frame b fs b'" and "\<forall>f\<in>set fs. frame_parses pb pe f"
  shows "drain_frames pb pe clk peer b s = drain_frames pb pe clk peer b' (handle_all pb pe clk fs s)"
  using assms by (induction arbitrary: s rule: reads.induct) (simp_all add: drain_frame)

section \<open>Clean streams\<close>

text \<open>
  A stream that consists of the frames \<open>fs\<close>, all of which parse, and an incomplete
  rest.
\<close>

definition clean_stream :: "batch_parser \<Rightarrow> event_parser \<Rightarrow> bytes \<Rightarrow> decoded_frame list \<Rightarrow> bytes \<Rightarrow> bool" where
  "clean_stream pb pe stream fs rest \<longleftrightarrow> reads decode_frame stream fs rest
     \<and> decode_frame rest = Inr (None, 0) \<and> (\<forall>f\<in>set fs. frame_parses pb pe f)"

lemma drain_clean:
  "clean_stream pb pe b fs b' \<Longrightarrow> drain_frames pb pe clk peer b s = (b', handle_all pb pe clk fs s, None)"
  using drain_reads [of b fs b' pb pe clk peer s] by (simp add: clean_stream_def drain_wait)

text \<open>The first chunk of a clean stream is drained completely, and the rest is clean.\<close>

lemma clean_stream_split:
  assumes "clean_stream pb pe (b @ c) fs rest"
  obtains gs hs b1 where "clean_stream pb pe b gs b1" and "clean_stream pb pe (b1 @ c) hs rest" and "fs = gs @ hs"
proof -
  from assms have c: "reads decode_frame (b @ c) fs rest" "decode_frame rest = Inr (None, 0)"
    "\<forall>f\<in>set fs. frame_parses pb pe f" by (simp_all add: clean_stream_def)
  obtain gs b1 where b1: "reads decode_frame b gs b1" "\<forall>f n. decode_frame b1 \<noteq> Inr (Some f, n)"
    using fd.reads_maximal by blast
  from fd.reads_prefix [OF c(1,2) b1] obtain hs where "decode_frame b1 = Inr (None, 0)"
    "fs = gs @ hs" "reads decode_frame (b1 @ c) hs rest" by blast
  with b1 c show thesis by (intro that [of gs b1 hs]) (simp_all add: clean_stream_def)
qed

lemma read_loop_clean:
  "clean_stream pb pe (b @ concat cs) fs rest \<Longrightarrow> decode_frame b = Inr (None, 0) \<Longrightarrow> [] \<notin> set cs \<Longrightarrow>
   read_loop pb pe clk peer b s (map Chunk cs) = (at_eof peer rest (handle_all pb pe clk fs s), None)"
proof (induction cs arbitrary: b fs s)
  case Nil
  then have "fs = [] \<and> b = rest" using fd.reads_stuck [of b fs rest] by (simp add: clean_stream_def)
  then show ?case by simp
next
  case (Cons c cs)
  from Cons.prems(1) have "clean_stream pb pe ((b @ c) @ concat cs) fs rest" by simp
  then obtain gs hs b1 where 1: "clean_stream pb pe (b @ c) gs b1"
    and 2: "clean_stream pb pe (b1 @ concat cs) hs rest" and fs: "fs = gs @ hs"
    by (rule clean_stream_split)
  have "decode_frame b1 = Inr (None, 0)" using 1 by (simp add: clean_stream_def)
  from Cons.IH [OF 2 this] Cons.prems(3) show ?case by (auto simp: drain_clean [OF 1] fs)
qed

lemma handle_connection_clean:
  assumes "clean_stream pb pe (concat cs) fs rest" and "[] \<notin> set cs"
  shows "handle_connection pb pe clk peer (map Chunk cs) s =
    (emit (info_log ''agent_disconnected'' peer None) (at_eof peer rest
       (handle_all pb pe clk fs (emit (info_log ''agent_connected'' peer None) s))), None)"
  using read_loop_clean [of pb pe "[]" cs fs rest] assms by (simp add: handle_connection_def)

section \<open>Many connections on one server\<close>

text \<open>
  The coroutines of all open connections: \<open>sys_conns i\<close> is the buffer of connection
  \<open>i\<close>, \<open>None\<close> when it is not open.
\<close>

record system =
  sys_srv :: server
  sys_conns :: "nat \<Rightarrow> bytes option"

datatype sys_event = Connect nat | Data nat bytes | Eof nat | Reset nat | OtherTask

text \<open>
  \<open>OtherTask\<close> is a writing call of the store made by another task of the process (the
  rollup refresh, the job orchestrator).
\<close>

inductive sys_step :: "batch_parser \<Rightarrow> event_parser \<Rightarrow> clock \<Rightarrow> (nat \<Rightarrow> string) \<Rightarrow> sys_event \<Rightarrow> system \<Rightarrow> system \<Rightarrow> bool"
  for pb :: batch_parser and pe :: event_parser and clk :: clock and peer :: "nat \<Rightarrow> string" where
  sys_connect: "sys_conns s i = None \<Longrightarrow>
    sys_step pb pe clk peer (Connect i) s
      (s\<lparr>sys_srv := emit (info_log ''agent_connected'' (peer i) None) (sys_srv s),
         sys_conns := (sys_conns s)(i \<mapsto> [])\<rparr>)"
| sys_data: "sys_conns s i = Some b \<Longrightarrow> c \<noteq> [] \<Longrightarrow>
    drain_frames pb pe clk (peer i) (b @ c) (sys_srv s) = (b', srv', None) \<Longrightarrow>
    sys_step pb pe clk peer (Data i c) s (s\<lparr>sys_srv := srv', sys_conns := (sys_conns s)(i \<mapsto> b')\<rparr>)"
| sys_fault: "sys_conns s i = Some b \<Longrightarrow> c \<noteq> [] \<Longrightarrow>
    drain_frames pb pe clk (peer i) (b @ c) (sys_srv s) = (b', srv', Some e) \<Longrightarrow>
    sys_step pb pe clk peer (Data i c) s
      (s\<lparr>sys_srv := emit (info_log ''agent_disconnected'' (peer i) None) srv',
         sys_conns := (sys_conns s)(i := None)\<rparr>)"
| sys_eof: "sys_conns s i = Some b \<Longrightarrow>
    sys_step pb pe clk peer (Eof i) s
      (s\<lparr>sys_srv := emit (info_log ''agent_disconnected'' (peer i) None) (at_eof (peer i) b (sys_srv s)),
         sys_conns := (sys_conns s)(i := None)\<rparr>)"
| sys_reset: "sys_conns s i = Some b \<Longrightarrow>
    sys_step pb pe clk peer (Reset i) s
      (s\<lparr>sys_srv := emit (info_log ''agent_disconnected'' (peer i) None) (sys_srv s),
         sys_conns := (sys_conns s)(i := None)\<rparr>)"
| sys_other: "store_step (srv_db (sys_srv s)) d \<Longrightarrow>
    sys_step pb pe clk peer OtherTask s (s\<lparr>sys_srv := (sys_srv s)\<lparr>srv_db := d\<rparr>\<rparr>)"

inductive_cases sys_dataE: "sys_step pb pe clk peer (Data i c) s s'"

inductive sys_run :: "batch_parser \<Rightarrow> event_parser \<Rightarrow> clock \<Rightarrow> (nat \<Rightarrow> string) \<Rightarrow> sys_event list \<Rightarrow> system \<Rightarrow> system \<Rightarrow> bool"
  for pb :: batch_parser and pe :: event_parser and clk :: clock and peer :: "nat \<Rightarrow> string" where
  run_nil: "sys_run pb pe clk peer [] s s"
| run_cons: "sys_step pb pe clk peer e s s' \<Longrightarrow> sys_run pb pe clk peer es s' s'' \<Longrightarrow>
    sys_run pb pe clk peer (e # es) s s''"

definition start_system :: system where
  "start_system = \<lparr>sys_srv = \<lparr>srv_db = empty_db, srv_log = [], srv_ticks = 0\<rparr>, sys_conns = (\<lambda>_. None)\<rparr>"

subsection \<open>What a step does to the store\<close>

lemma emit_db [simp]: "srv_db (emit l s) = srv_db s"
  by (simp add: emit_def)

lemma fold_emit_db [simp]: "srv_db (fold (\<lambda>c. emit (f c)) cs s) = srv_db s"
  by (induction cs arbitrary: s) simp_all

lemma time_ns_db [simp]: "srv_db (snd (time_ns clk s)) = srv_db s"
  by (simp add: time_ns_def)

lemma at_eof_db [simp]: "srv_db (at_eof peer b s) = srv_db s"
  by (simp add: at_eof_def)

lemma validate_now_db [simp]: "srv_db (snd (validate_now clk batch s)) = srv_db s"
  by (simp add: validate_now_def time_ns_def)

text \<open>The store after a batch, as one insert of the accepted samples.\<close>

lemma handle_sample_batch_db:
  assumes "pb pl = Some batch"
  obtains recv where "srv_db (fst (handle_sample_batch pb clk pl s)) =
    snd (insert_samples (map (row_of (producer_version batch) recv)
      (accepted (fst (validate_now clk batch s)))) (srv_db s))"
proof -
  obtain result s1 where v: "validate_now clk batch s = (result, s1)" by fastforce
  have s1: "srv_db s1 = srv_db s" using validate_now_db [of clk batch s] v by simp
  have empty: "snd (insert_samples [] d) = d" for d
    by (simp add: insert_samples_frame)
  show thesis
  proof (cases "batch_rejected_reason_code result")
    case (Some code)
    then have "accepted result = []"
      using v by (auto simp: validate_now_def validate_batch_def Let_def time_ns_def split: if_splits prod.splits)
    then show thesis using that [of 0] Some assms v s1 by (simp add: handle_sample_batch_def empty)
  next
    case None
    then show thesis
      using that assms v s1
      by (cases "accepted result") (auto simp: handle_sample_batch_def Let_def empty time_ns_def)
  qed
qed

lemma handle_frame_store: "store_step\<^sup>*\<^sup>* (srv_db s) (srv_db (fst (handle_frame pb pe clk f s)))"
proof -
  have batch: "store_step\<^sup>*\<^sup>* (srv_db s) (srv_db (fst (handle_sample_batch pb clk pl s)))" for pl
  proof (cases "pb pl")
    case None
    then show ?thesis by (simp add: handle_sample_batch_def)
  next
    case (Some batch)
    then obtain recv where "srv_db (fst (handle_sample_batch pb clk pl s)) =
      snd (insert_samples (map (row_of (producer_version batch) recv)
        (accepted (fst (validate_now clk batch s)))) (srv_db s))" by (rule handle_sample_batch_db)
    then show ?thesis by (metis r_into_rtranclp step_insert_samples)
  qed
  have "store_step\<^sup>*\<^sup>* (srv_db s) (srv_db (fst (handle_phase_event pe pl s)))" for pl
    by (auto simp: handle_phase_event_def intro: step_insert_event split: option.split)
  with batch show ?thesis by (simp add: handle_frame_def)
qed

lemma drain_store: "store_step\<^sup>*\<^sup>* (srv_db s) (srv_db (fst (snd (drain_frames pb pe clk peer b s))))"
proof (induction pb pe clk peer b s rule: drain_frames.induct)
  case (1 pb pe clk peer b s)
  show ?case
  proof (cases "decode_frame b")
    case (Inl e)
    then show ?thesis by (simp add: drain_unknown)
  next
    case (Inr r)
    obtain o1 n where r: "r = (o1, n)" by fastforce
    show ?thesis
    proof (cases o1)
      case None
      then show ?thesis using Inr r by (simp add: drain_wait)
    next
      case (Some f)
      note fn = Inr [unfolded r Some]
      obtain s' e where h: "handle_frame pb pe clk f s = (s', e)" by fastforce
      have s': "store_step\<^sup>*\<^sup>* (srv_db s) (srv_db s')" using handle_frame_store [of s pb pe clk f] h by simp
      show ?thesis
      proof (cases "frame_parses pb pe f")
        case True
        then have "e = None" using handle_frame_error [of pb pe clk f s] h by simp
        then have "store_step\<^sup>*\<^sup>* (srv_db s') (srv_db (fst (snd (drain_frames pb pe clk peer (drop n b) s'))))"
          using "1.IH" Inr r Some h by fastforce
        then show ?thesis using s' True h by (simp add: drain_frame [OF fn])
      next
        case False
        then show ?thesis using s' h by (simp add: drain_frame [OF fn])
      qed
    qed
  qed
qed

lemma sys_step_store:
  "sys_step pb pe clk peer e s s' \<Longrightarrow> store_step\<^sup>*\<^sup>* (srv_db (sys_srv s)) (srv_db (sys_srv s'))"
proof (induction rule: sys_step.induct)
  case (sys_data s i b c b' srv')
  then show ?case using drain_store [of "sys_srv s" pb pe clk "peer i" "b @ c"] by simp
next
  case (sys_fault s i b c b' srv' e)
  then show ?case using drain_store [of "sys_srv s" pb pe clk "peer i" "b @ c"] by simp
qed auto

lemma sys_run_store:
  "sys_run pb pe clk peer es s s' \<Longrightarrow> store_step\<^sup>*\<^sup>* (srv_db (sys_srv s)) (srv_db (sys_srv s'))"
  by (induction rule: sys_run.induct) (auto dest: sys_step_store)


section \<open>Delivery\<close>

text \<open>
  What a handled frame guarantees of the store. A sample counts when it is valid at every
  time the clock may show and its value is a number.
\<close>

definition storable :: "clock \<Rightarrow> sample_tuple \<Rightarrow> bool" where
  "storable clk t \<longleftrightarrow> (\<forall>k. valid_tuple (clk k) t) \<and> v_value (valid_of t) \<noteq> NaN"

definition key_of :: "sample_tuple \<Rightarrow> string \<times> int \<times> int" where
  "key_of t = (case t of (n, m, ts, _, _) \<Rightarrow> (n, m, ts))"

definition delivered :: "batch_parser \<Rightarrow> event_parser \<Rightarrow> clock \<Rightarrow> decoded_frame \<Rightarrow> db \<Rightarrow> bool" where
  "delivered pb pe clk f d \<longleftrightarrow>
     (tag f = FRAME_TAG_SAMPLE_BATCH \<longrightarrow> (\<forall>batch. pb (payload f) = Some batch \<longrightarrow> schema_version batch = 1 \<longrightarrow>
        (\<forall>t\<in>set (tuples_of batch). storable clk t \<longrightarrow> key_of t \<in> set (map sample_key (samples d)))))
   \<and> (tag f = FRAME_TAG_PHASE_EVENT \<longrightarrow> (\<forall>m. pe (payload f) = Some m \<longrightarrow>
        event_key (event_row_of m) \<in> set (map event_key (phase_events d))))"

lemma delivered_mono:
  assumes "delivered pb pe clk f d" and "store_step\<^sup>*\<^sup>* d d'"
  shows "delivered pb pe clk f d'"
  using assms(1) store_steps_appends [OF assms(2)] by (fastforce simp: delivered_def)

lemma handle_sample_batch_delivers:
  assumes "pb pl = Some batch" and "schema_version batch = 1" and "t \<in> set (tuples_of batch)" and "storable clk t"
  shows "key_of t \<in> set (map sample_key (samples (srv_db (fst (handle_sample_batch pb clk pl s)))))"
proof -
  obtain recv where db: "srv_db (fst (handle_sample_batch pb clk pl s)) =
      snd (insert_samples (map (row_of (producer_version batch) recv)
        (accepted (fst (validate_now clk batch s)))) (srv_db s))"
    by (rule handle_sample_batch_db [where pb = pb and pl = pl, OF assms(1)])
  have "valid_of t \<in> set (accepted (fst (validate_now clk batch s)))"
    using assms(2-4) by (auto simp: validate_now_def time_ns_def SUPPORTED_SCHEMA_VERSIONS_def validate_batch_eq storable_def)
  then have "row_of (producer_version batch) recv (valid_of t) \<in> set (map (row_of (producer_version batch) recv)
      (accepted (fst (validate_now clk batch s))))" by simp
  moreover have "sample_ok (row_of (producer_version batch) recv (valid_of t))"
    using assms(4) by (simp add: sample_ok_def row_of_def storable_def)
  moreover have "sample_key (row_of (producer_version batch) recv (valid_of t)) = key_of t"
    by (simp add: sample_key_def row_of_def key_of_def valid_of_def split: prod.split)
  ultimately show ?thesis unfolding db insert_samples_table by (metis st.fold_covers)
qed

lemma handle_frame_delivers: "delivered pb pe clk f (srv_db (fst (handle_frame pb pe clk f s)))"
proof -
  have "event_key (event_row_of m) \<in> set (map event_key (phase_events (srv_db (fst (handle_phase_event pe pl s)))))"
    if "pe pl = Some m" for pl m
    using that pe.fold_covers [of "event_row_of m" "[event_row_of m]" "phase_events (srv_db s)"]
    by (simp add: handle_phase_event_def insert_phase_event_def)
  then show ?thesis
    using handle_sample_batch_delivers
    by (auto simp: delivered_def handle_frame_def FRAME_TAG_SAMPLE_BATCH_def FRAME_TAG_PHASE_EVENT_def)
qed

lemma handle_all_store: "store_step\<^sup>*\<^sup>* (srv_db s) (srv_db (handle_all pb pe clk fs s))"
  by (induction fs arbitrary: s) (auto intro: rtranclp_trans handle_frame_store)

lemma handle_all_delivers: "f \<in> set fs \<Longrightarrow> delivered pb pe clk f (srv_db (handle_all pb pe clk fs s))"
proof (induction fs arbitrary: s)
  case (Cons g fs)
  then show ?case
    using delivered_mono [OF handle_frame_delivers handle_all_store] by auto
qed simp

text \<open>The bytes connection \<open>i\<close> receives in a run, and runs in which it only receives.\<close>

definition stream_of :: "nat \<Rightarrow> sys_event list \<Rightarrow> bytes" where
  "stream_of i es = concat (map (\<lambda>e. case e of Data j c \<Rightarrow> if j = i then c else [] | _ \<Rightarrow> []) es)"

definition only_receives :: "nat \<Rightarrow> sys_event list \<Rightarrow> bool" where
  "only_receives i es \<longleftrightarrow> Connect i \<notin> set es \<and> Eof i \<notin> set es \<and> Reset i \<notin> set es"

lemma sys_step_other_conn:
  assumes "sys_step pb pe clk peer e s s'"
    and "e \<noteq> Connect i" and "e \<noteq> Eof i" and "e \<noteq> Reset i" and "\<And>c. e \<noteq> Data i c"
  shows "sys_conns s' i = sys_conns s i"
  using assms by (cases rule: sys_step.cases) auto

lemma sys_run_delivers:
  assumes "sys_run pb pe clk peer es s s'" and "only_receives i es" and "sys_conns s i = Some b"
    and "clean_stream pb pe (b @ stream_of i es) fs rest" and "decode_frame b = Inr (None, 0)"
  shows "sys_conns s' i = Some rest \<and> (\<forall>f\<in>set fs. delivered pb pe clk f (srv_db (sys_srv s')))"
  using assms
proof (induction arbitrary: b fs rule: sys_run.induct)
  case (run_nil s)
  then have "fs = [] \<and> b = rest" using fd.reads_stuck [of b fs rest] by (simp add: clean_stream_def stream_of_def)
  then show ?case using run_nil.prems by simp
next
  case (run_cons e s s1 es s2)
  show ?case
  proof (cases "\<exists>c. e = Data i c")
    case False
    then have "sys_conns s1 i = Some b"
      using sys_step_other_conn [OF run_cons.hyps(1), of i] run_cons.prems(1,2) by (auto simp: only_receives_def)
    moreover have "stream_of i (e # es) = stream_of i es"
      using False by (auto simp: stream_of_def split: sys_event.split)
    ultimately show ?thesis using run_cons.IH run_cons.prems by (simp add: only_receives_def)
  next
    case True
    then obtain c where e: "e = Data i c" by blast
    have "clean_stream pb pe ((b @ c) @ stream_of i es) fs rest"
      using run_cons.prems(3) e by (simp add: stream_of_def)
    then obtain gs hs b1 where 1: "clean_stream pb pe (b @ c) gs b1"
      and 2: "clean_stream pb pe (b1 @ stream_of i es) hs rest" and fs: "fs = gs @ hs"
      by (rule clean_stream_split)
    from run_cons.hyps(1) have s1: "s1 = s\<lparr>sys_srv := handle_all pb pe clk gs (sys_srv s), sys_conns := (sys_conns s)(i \<mapsto> b1)\<rparr>"
      unfolding e by (rule sys_dataE) (use run_cons.prems(2) drain_clean [OF 1] in auto)
    have "decode_frame b1 = Inr (None, 0)" using 1 by (simp add: clean_stream_def)
    moreover have "only_receives i es" using run_cons.prems(1) by (simp add: only_receives_def)
    ultimately have ih: "sys_conns s2 i = Some rest \<and> (\<forall>f\<in>set hs. delivered pb pe clk f (srv_db (sys_srv s2)))"
      using run_cons.IH 2 s1 by simp
    have "delivered pb pe clk f (srv_db (sys_srv s2))" if "f \<in> set gs" for f
      using delivered_mono [OF handle_all_delivers [OF that] sys_run_store [OF run_cons.hyps(2), unfolded s1, simplified]] .
    with ih fs show ?thesis by auto
  qed
qed

section \<open>A concrete wire format\<close>

text \<open>
  Parsers for the examples: the payload \<open>[7]\<close> is a batch of one sample of metric 1 and one
  of an unknown metric, \<open>[8]\<close> a batch of one NaN sample, \<open>[9]\<close> a phase event, and no
  other payload parses.
\<close>

definition demo_msg :: "int \<Rightarrow> pyfloat \<Rightarrow> sample_msg" where
  "demo_msg m x = \<lparr>s_node_id = ''a'', s_metric_id = m, s_ts_ns = 1000, s_mono_ns = 1,
     s_server_recv_ts_ns = 0, s_value = x\<rparr>"

definition demo_pb :: batch_parser where
  "demo_pb pl = (if pl = [7] then Some \<lparr>schema_version = 1, producer_version = ''v'',
       batch_samples = [demo_msg 1 (Fin 5), demo_msg 99 (Fin 6)]\<rparr>
     else if pl = [8] then Some \<lparr>schema_version = 1, producer_version = ''v'', batch_samples = [demo_msg 1 NaN]\<rparr>
     else None)"

definition demo_event_msg :: phase_event_msg where
  "demo_event_msg = \<lparr>pm_job_id = ''j'', pm_node_id = ''a'', pm_phase_index = 0, pm_start_ts_ns = 5,
     pm_start_mono_ns = 5, pm_end_ts_ns = 9, pm_end_mono_ns = 9, pm_status = ''ok''\<rparr>"

definition demo_pe :: event_parser where
  "demo_pe pl = (if pl = [9] then Some demo_event_msg else None)"

definition demo_clock :: clock where
  "demo_clock k = 5000 + int k"

definition demo_server :: server where
  "demo_server = \<lparr>srv_db = empty_db, srv_log = [], srv_ticks = 0\<rparr>"

definition demo_frame :: "byte \<Rightarrow> bytes" where
  "demo_frame x = [if x = 9 then 2 else 1, 0, 0, 0, 1, x]"

lemma demo_decode:
  "decode_frame (demo_frame x @ c) = Inr (Some \<lparr>tag = (if x = 9 then 2 else 1), payload = [x]\<rparr>, 6)"
  by (simp add: decode_frame_def demo_frame_def py_slice_def FRAME_HEADER_LENGTH_def KNOWN_TAGS_def
      FRAME_TAG_SAMPLE_BATCH_def FRAME_TAG_PHASE_EVENT_def int_from_bytes_big_def Let_def)

lemma demo_reads:
  "reads decode_frame (demo_frame x @ c) [\<lparr>tag = (if x = 9 then 2 else 1), payload = [x]\<rparr>] c"
proof -
  have "drop 6 (demo_frame x @ c) = c" by (simp add: demo_frame_def)
  then show ?thesis using demo_decode [of x c] reads_frame [where dec = decode_frame] by (metis reads_none)
qed

lemma demo_clean:
  assumes "x = 7 \<or> x = 9" and "decode_frame c = Inr (None, 0)"
  shows "clean_stream demo_pb demo_pe (demo_frame x @ c) [\<lparr>tag = (if x = 9 then 2 else 1), payload = [x]\<rparr>] c"
  using assms demo_reads [of x c]
  by (auto simp: clean_stream_def frame_parses_def demo_pb_def demo_pe_def
      FRAME_TAG_SAMPLE_BATCH_def FRAME_TAG_PHASE_EVENT_def)

section \<open>Properties of the ingestion server\<close>



text \<open>
  When the peer closes after such a stream, every frame has been handled in order and the
  log ends with the reason the fault table asks for: none after a whole number of frames,
  \<open>truncated_frame\<close> after a header of less than 5 bytes, \<open>partial_frame\<close> otherwise.
\<close>

theorem end_of_stream_reason:
  assumes "clean_stream pb pe (concat cs) fs rest" and "[] \<notin> set cs"
  shows "handle_connection pb pe clk peer (map Chunk cs) s =
    (let s1 = handle_all pb pe clk fs (emit (info_log ''agent_connected'' peer None) s) in
     (s1\<lparr>srv_log := srv_log s1
        @ (if rest = [] then []
           else if length rest < 5 then [warn_log ''truncated_frame'' ''truncated_frame'' (Some peer)]
           else [warn_log ''partial_frame'' ''partial_frame'' (Some peer)])
        @ [info_log ''agent_disconnected'' peer None]\<rparr>, None))"
  using handle_connection_clean [OF assms(1,2)]
  by (simp add: Let_def at_eof_def emit_def FRAME_HEADER_LENGTH_def)

theorem end_of_stream_reason_witness:
  "map lg_reason_code (srv_log (fst (handle_connection demo_pb demo_pe demo_clock ''p''
      [Chunk [2, 0, 0], Chunk [0, 1, 9, 2, 0]] demo_server))) = [None, None, Some ''truncated_frame'', None]"
proof -
  have "decode_frame [2, 0] = Inr (None, 0)"
    by (simp add: decode_frame_def KNOWN_TAGS_def FRAME_TAG_SAMPLE_BATCH_def
        FRAME_TAG_PHASE_EVENT_def FRAME_HEADER_LENGTH_def)
  then have "clean_stream demo_pb demo_pe (concat [[2, 0, 0], [0, 1, 9, 2, 0]])
      [\<lparr>tag = 2, payload = [9]\<rparr>] [2, 0]"
    using demo_clean [of 9 "[2, 0]"] by (simp add: demo_frame_def)
  from end_of_stream_reason [OF this, of demo_clock "''p''" demo_server] show ?thesis
    by (simp add: handle_frame_def handle_phase_event_def demo_pe_def demo_server_def emit_def
        info_log_def warn_log_def FRAME_TAG_SAMPLE_BATCH_def FRAME_TAG_PHASE_EVENT_def)
qed

text \<open>
  What one batch does, exactly. With an unsupported schema version it only logs
  \<open>schema_mismatch\<close>. Otherwise the samples that are valid at the time of the first clock
  reading are inserted, in order, with the second reading as receive time; every other sample
  leaves one \<open>sample_dropped\<close> record with its reason; and nothing is inserted, and the clock
  is read once only, when no sample is valid.
\<close>

theorem handle_sample_batch_effect:
  assumes "pb pl = Some batch"
  shows "handle_sample_batch pb clk pl s =
    (if schema_version batch \<noteq> 1
     then (s\<lparr>srv_log := srv_log s @ [warn_log ''batch_rejected'' ''schema_mismatch'' None]\<rparr>, None)
     else let now = clk (srv_ticks s); recv = clk (Suc (srv_ticks s));
         good = filter (valid_tuple now) (tuples_of batch);
         bad = filter (\<lambda>t. \<not> valid_tuple now t) (tuples_of batch);
         dropped = map (\<lambda>t. warn_log ''sample_dropped'' (drop_code t) None) bad
       in if good = [] then (s\<lparr>srv_ticks := Suc (srv_ticks s), srv_log := srv_log s @ dropped\<rparr>, None)
          else (s\<lparr>srv_ticks := Suc (Suc (srv_ticks s)),
                  srv_db := snd (insert_samples (map (row_of (producer_version batch) recv \<circ> valid_of) good) (srv_db s)),
                  srv_log := srv_log s @ dropped
                    @ [info_log ''sample_batch_ingested'' (v_node_id (valid_of (hd good))) None]\<rparr>, None))"
proof (cases "schema_version batch = 1")
  case False
  then show ?thesis using assms
    by (simp add: handle_sample_batch_def validate_now_def validate_batch_mismatch SUPPORTED_SCHEMA_VERSIONS_def emit_def)
next
  case True
  have emits: "fold (\<lambda>c. emit (f c)) cs x = x\<lparr>srv_log := srv_log x @ map f cs\<rparr>" for f :: "string \<Rightarrow> log_record" and cs x
    by (induction cs arbitrary: x) (simp_all add: emit_def)
  let ?good = "filter (valid_tuple (clk (srv_ticks s))) (tuples_of batch)"
  show ?thesis using assms True
    by (cases ?good) (simp_all add: handle_sample_batch_def validate_now_def validate_batch_eq
        SUPPORTED_SCHEMA_VERSIONS_def time_ns_def Let_def emits emit_def comp_def)
qed

theorem handle_sample_batch_effect_witness:
  "snd (handle_sample_batch demo_pb demo_clock [7] demo_server) = None
   \<and> map sr_server_recv_ts_ns (samples (srv_db (fst (handle_sample_batch demo_pb demo_clock [7] demo_server)))) = [5001]
   \<and> map lg_reason_code (srv_log (fst (handle_sample_batch demo_pb demo_clock [7] demo_server)))
       = [Some ''unknown_metric_id'', None]"
proof -
  have "demo_pb [7] = Some \<lparr>schema_version = 1, producer_version = ''v'',
       batch_samples = [demo_msg 1 (Fin 5), demo_msg 99 (Fin 6)]\<rparr>" by (simp add: demo_pb_def)
  from handle_sample_batch_effect [where pb = demo_pb and pl = "[7]", OF this, of demo_clock demo_server] show ?thesis
    by (simp add: tuples_of_def demo_msg_def valid_tuple_def ONE_DAY_NS_def demo_clock_def demo_server_def
        insert_samples_def insert_sample_row_def insert_or_ignore_def empty_db_def sample_ok_def row_of_def
        valid_of_def drop_code_def warn_log_def info_log_def)
qed

text \<open>Steps that can be taken: a chunk of a clean stream, a chunk that starts with an unknown tag.\<close>

lemma step_clean:
  assumes "sys_conns s i = Some b" and "c \<noteq> []" and "clean_stream pb pe (b @ c) fs rest"
  shows "\<exists>s'. sys_step pb pe clk peer (Data i c) s s' \<and> sys_conns s' = (sys_conns s)(i \<mapsto> rest)"
  using sys_data [OF assms(1,2) drain_clean [OF assms(3)]] by fastforce

lemma step_unknown:
  assumes "sys_conns s i = Some b" and "c \<noteq> []" and "decode_frame (b @ c) = Inl e"
  shows "\<exists>s'. sys_step pb pe clk peer (Data i c) s s' \<and> sys_conns s' = (sys_conns s)(i \<mapsto> [])"
  using sys_data [OF assms(1,2) drain_unknown [OF assms(3)]] by fastforce

lemma clean_incomplete: "decode_frame b = Inr (None, 0) \<Longrightarrow> clean_stream pb pe b [] b"
  by (simp add: clean_stream_def reads_none)

text \<open>
  A sample whose value is NaN passes validation but is not stored, and no reason code says
  so: a batch of one such sample leaves the store as it is and is logged as ingested.
\<close>

theorem nan_sample_silently_lost:
  assumes "pb pl = Some batch" and "schema_version batch = 1"
    and "tuples_of batch = [t]" and "valid_tuple (clk (srv_ticks s)) t" and "v_value (valid_of t) = NaN"
  shows "srv_db (fst (handle_sample_batch pb clk pl s)) = srv_db s
    \<and> srv_log (fst (handle_sample_batch pb clk pl s)) =
        srv_log s @ [info_log ''sample_batch_ingested'' (v_node_id (valid_of t)) None]"
proof -
  have "insert_samples [row_of p r (valid_of t)] d = (0, d)" for p r d
    using assms(5) by (simp add: insert_samples_def insert_sample_row_def insert_or_ignore_def sample_ok_def row_of_def)
  then show ?thesis using assms
    by (simp add: handle_sample_batch_def validate_now_def validate_batch_eq
        SUPPORTED_SCHEMA_VERSIONS_def time_ns_def Let_def emit_def)
qed

theorem nan_sample_silently_lost_witness:
  "srv_db (fst (handle_sample_batch demo_pb demo_clock [8] demo_server)) = srv_db demo_server
   \<and> map lg_reason_code (srv_log (fst (handle_sample_batch demo_pb demo_clock [8] demo_server))) = [None]"
proof -
  have "demo_pb [8] = Some \<lparr>schema_version = 1, producer_version = ''v'', batch_samples = [demo_msg 1 NaN]\<rparr>"
    by (simp add: demo_pb_def)
  from nan_sample_silently_lost [where pb = demo_pb and pl = "[8]", OF this, of _ demo_clock demo_server]
  show ?thesis
    by (simp add: tuples_of_def demo_msg_def valid_tuple_def ONE_DAY_NS_def demo_clock_def
        valid_of_def info_log_def demo_server_def)
qed

text \<open>
  An unrecognised tag byte does not drop the connection: the frames before it are handled,
  the buffer is emptied, and the next read is decoded as if it began a new frame.
\<close>

theorem unknown_tag_keeps_connection:
  assumes "reads decode_frame (b @ c) fs r" and "\<forall>f\<in>set fs. frame_parses pb pe f"
    and "decode_frame r = Inl UnknownFrameTagError" and "c \<noteq> []"
  shows "read_loop pb pe clk peer b s (Chunk c # rest) =
    read_loop pb pe clk peer []
      (emit (warn_log ''unknown_frame_tag'' ''unknown_frame_tag'' (Some peer)) (handle_all pb pe clk fs s)) rest"
  using drain_reads [OF assms(1,2)] assms(3,4) by (simp add: drain_unknown)

theorem unknown_tag_keeps_connection_witness:
  "length (phase_events (srv_db (fst (read_loop demo_pb demo_pe demo_clock ''p'' [] demo_server
      [Chunk [255, 1], Chunk (demo_frame 9)])))) = 1
   \<and> length (phase_events (srv_db (fst (read_loop demo_pb demo_pe demo_clock ''p'' [] demo_server
      [Chunk ([255, 1] @ demo_frame 9)])))) = 0"
proof
  have bad: "decode_frame (255 # c) = Inl UnknownFrameTagError" for c
    by (simp add: decode_frame_def KNOWN_TAGS_def FRAME_TAG_SAMPLE_BATCH_def FRAME_TAG_PHASE_EVENT_def)
  have resync: "read_loop demo_pb demo_pe demo_clock ''p'' [] demo_server (Chunk (255 # c) # rest) =
      read_loop demo_pb demo_pe demo_clock ''p'' []
        (emit (warn_log ''unknown_frame_tag'' ''unknown_frame_tag'' (Some ''p'')) demo_server) rest" for c rest
    using unknown_tag_keeps_connection [where b = "[]" and c = "255 # c" and fs = "[]" and r = "255 # c"
        and pb = demo_pb and pe = demo_pe] bad by (simp add: reads_none)
  have "clean_stream demo_pb demo_pe (demo_frame 9) [\<lparr>tag = 2, payload = [9]\<rparr>] []"
    using demo_clean [of 9 "[]"] by simp
  then have after: "read_loop demo_pb demo_pe demo_clock ''p'' [] s [Chunk (demo_frame 9)] =
      (handle_all demo_pb demo_pe demo_clock [\<lparr>tag = 2, payload = [9]\<rparr>] s, None)" for s
    using read_loop_clean [of demo_pb demo_pe "[]" "[demo_frame 9]"] by (simp add: at_eof_def demo_frame_def FRAME_HEADER_LENGTH_def)
  show "length (phase_events (srv_db (fst (read_loop demo_pb demo_pe demo_clock ''p'' [] demo_server
      [Chunk [255, 1], Chunk (demo_frame 9)])))) = 1"
    unfolding resync after
    by (simp add: handle_frame_def handle_phase_event_def demo_pe_def demo_server_def emit_def
        insert_phase_event_def insert_event_row_def insert_or_ignore_def empty_db_def
        FRAME_TAG_SAMPLE_BATCH_def FRAME_TAG_PHASE_EVENT_def)
  show "length (phase_events (srv_db (fst (read_loop demo_pb demo_pe demo_clock ''p'' [] demo_server
      [Chunk ([255, 1] @ demo_frame 9)])))) = 0"
    unfolding append_Cons resync
    by (simp add: at_eof_def emit_def demo_server_def empty_db_def)
qed

text \<open>
  C40. A frame whose payload does not parse ends its connection with DecodeError: the frames
  before it are handled, nothing is logged about it, and every byte after it is lost.
\<close>

theorem bad_payload_ends_connection:
  assumes "reads decode_frame (b @ c) fs r" and "\<forall>f\<in>set fs. frame_parses pb pe f"
    and "decode_frame r = Inr (Some f, n)" and "\<not> frame_parses pb pe f" and "c \<noteq> []"
  shows "read_loop pb pe clk peer b s (Chunk c # rest) = (handle_all pb pe clk fs s, Some DecodeError)"
proof -
  have "fst (handle_frame pb pe clk f x) = x" for x
    using assms(4) by (auto simp: handle_frame_def frame_parses_def handle_sample_batch_def
        handle_phase_event_def split: if_splits)
  then show ?thesis using drain_reads [OF assms(1,2)] assms(3-5) by (simp add: drain_frame)
qed

theorem bad_payload_ends_connection_witness:
  "read_loop demo_pb demo_pe demo_clock ''p'' [] demo_server [Chunk (demo_frame 3 @ demo_frame 9)]
     = (demo_server, Some DecodeError)"
proof -
  have "\<not> frame_parses demo_pb demo_pe \<lparr>tag = 1, payload = [3]\<rparr>"
    by (simp add: frame_parses_def demo_pb_def FRAME_TAG_SAMPLE_BATCH_def)
  then show ?thesis
    using bad_payload_ends_connection [where b = "[]" and c = "demo_frame 3 @ demo_frame 9" and fs = "[]"
        and r = "demo_frame 3 @ demo_frame 9" and pb = demo_pb and pe = demo_pe
        and f = "\<lparr>tag = 1, payload = [3]\<rparr>" and n = 6 and clk = demo_clock
        and peer = "''p''" and s = demo_server and rest = "[]"] demo_decode [of 3 "demo_frame 9"]
    by (simp add: demo_frame_def reads_none)
qed

text \<open>
  C14. Delivery. While a connection only receives, and whatever all other connections and tasks
  of the server do in between (malformed frames, disconnects, other writers), once its bytes
  form frames that parse, every phase event they carry and every storable sample is in the
  store, and exactly the incomplete rest is buffered.
\<close>

theorem delivery_under_interleaving:
  assumes "sys_run pb pe clk peer es s s'" and "only_receives i es" and "sys_conns s i = Some []"
    and "clean_stream pb pe (stream_of i es) fs rest"
  shows "sys_conns s' i = Some rest \<and> (\<forall>f\<in>set fs. delivered pb pe clk f (srv_db (sys_srv s')))"
  using sys_run_delivers [OF assms(1-3)] assms(4) by simp

definition demo_system :: system where
  "demo_system = \<lparr>sys_srv = demo_server, sys_conns = (\<lambda>_. None)(1 \<mapsto> [], 2 \<mapsto> [])\<rparr>"

theorem delivery_under_interleaving_witness:
  "\<exists>s'. sys_run demo_pb demo_pe demo_clock (\<lambda>_. ''p'') [Data 1 [2, 0, 0], Data 2 [255], Data 1 [0, 1, 9]] demo_system s'
     \<and> (''j'', ''a'', 0) \<in> set (map event_key (phase_events (srv_db (sys_srv s'))))"
proof -
  let ?es = "[Data 1 [2, 0, 0], Data 2 [255], Data 1 [0, 1, 9]]"
  have bad: "decode_frame [255] = Inl UnknownFrameTagError" and wait: "decode_frame [2, 0, 0] = Inr (None, 0)"
    by (simp_all add: decode_frame_def KNOWN_TAGS_def FRAME_TAG_SAMPLE_BATCH_def FRAME_TAG_PHASE_EVENT_def
        FRAME_HEADER_LENGTH_def)
  have clean: "clean_stream demo_pb demo_pe [2, 0, 0, 0, 1, 9] [\<lparr>tag = 2, payload = [9]\<rparr>] []"
    using demo_clean [of 9 "[]"] by (simp add: demo_frame_def)
  let ?step = "sys_step demo_pb demo_pe demo_clock (\<lambda>_. ''p'')"
  obtain s1 where 1: "?step (Data 1 [2, 0, 0]) demo_system s1"
    and c1: "sys_conns s1 1 = Some [2, 0, 0]" "sys_conns s1 2 = Some []"
    using step_clean [of demo_system 1 "[]" "[2, 0, 0]" demo_pb demo_pe "[]" "[2, 0, 0]"] clean_incomplete [OF wait]
    by (fastforce simp: demo_system_def)
  obtain s2 where 2: "?step (Data 2 [255]) s1 s2" and c2: "sys_conns s2 1 = Some [2, 0, 0]"
    using step_unknown [of s1 2 "[]" "[255]", OF c1(2)] c1 bad by fastforce
  obtain s' where 3: "?step (Data 1 [0, 1, 9]) s2 s'"
    using step_clean [of s2 1 "[2, 0, 0]" "[0, 1, 9]" demo_pb demo_pe, OF c2] clean by fastforce
  have run: "sys_run demo_pb demo_pe demo_clock (\<lambda>_. ''p'') ?es demo_system s'"
    by (rule run_cons [OF 1 run_cons [OF 2 run_cons [OF 3 run_nil]]])
  have "delivered demo_pb demo_pe demo_clock \<lparr>tag = 2, payload = [9]\<rparr> (srv_db (sys_srv s'))"
    using delivery_under_interleaving [OF run, of 1 "[\<lparr>tag = 2, payload = [9]\<rparr>]" "[]"] clean
    by (simp add: only_receives_def demo_system_def stream_of_def)
  then have "(''j'', ''a'', 0) \<in> set (map event_key (phase_events (srv_db (sys_srv s'))))"
    by (simp add: delivered_def FRAME_TAG_SAMPLE_BATCH_def FRAME_TAG_PHASE_EVENT_def demo_pe_def
        demo_event_msg_def event_row_of_def event_key_def)
  with run show ?thesis by blast
qed

text \<open>
  C36. No traffic corrupts the store: after any interleaving of connections and tasks from the
  start of the server the schema's constraints hold, and whatever happens next, the samples
  and phase events stored so far stay as they are.
\<close>

theorem server_keeps_store_intact:
  assumes "sys_run pb pe clk peer es start_system s" and "sys_run pb pe clk peer es' s s'"
  shows "wf_db (srv_db (sys_srv s))
    \<and> take (length (samples (srv_db (sys_srv s)))) (samples (srv_db (sys_srv s'))) = samples (srv_db (sys_srv s))
    \<and> take (length (phase_events (srv_db (sys_srv s)))) (phase_events (srv_db (sys_srv s'))) = phase_events (srv_db (sys_srv s))"
proof -
  have "store_step\<^sup>*\<^sup>* empty_db (srv_db (sys_srv s))"
    using sys_run_store [OF assms(1)] by (simp add: start_system_def)
  then have "wf_db (srv_db (sys_srv s))"
    by (induction rule: rtranclp_induct) (auto intro: wf_empty_db store_step_wf)
  then show ?thesis using store_steps_appends [OF sys_run_store [OF assms(2)]] by auto
qed

theorem server_keeps_store_intact_witness:
  "\<exists>s s'. sys_run demo_pb demo_pe demo_clock (\<lambda>_. ''p'') [Connect 1, Data 1 (demo_frame 9)] start_system s
     \<and> sys_run demo_pb demo_pe demo_clock (\<lambda>_. ''p'') [Data 1 (demo_frame 3)] s s' \<and> wf_db (srv_db (sys_srv s))"
proof -
  have clean: "clean_stream demo_pb demo_pe (demo_frame 9) [\<lparr>tag = 2, payload = [9]\<rparr>] []"
    using demo_clean [of 9 "[]"] by simp
  let ?step = "sys_step demo_pb demo_pe demo_clock (\<lambda>_. ''p'')"
  obtain s0 where 0: "?step (Connect 1) start_system s0" and c0: "sys_conns s0 1 = Some []"
    using sys_connect [of start_system 1] by (fastforce simp: start_system_def)
  obtain s where s: "?step (Data 1 (demo_frame 9)) s0 s" and conn: "sys_conns s 1 = Some []"
    using step_clean [OF c0, of "demo_frame 9"] clean by (fastforce simp: demo_frame_def)
  have 1: "sys_run demo_pb demo_pe demo_clock (\<lambda>_. ''p'') [Connect 1, Data 1 (demo_frame 9)] start_system s"
    by (rule run_cons [OF 0 run_cons [OF s run_nil]])
  have dec: "decode_frame (demo_frame 3) = Inr (Some \<lparr>tag = 1, payload = [3]\<rparr>, 6)" using demo_decode [of 3 "[]"] by simp
  have "\<not> frame_parses demo_pb demo_pe \<lparr>tag = 1, payload = [3]\<rparr>"
    by (simp add: frame_parses_def demo_pb_def FRAME_TAG_SAMPLE_BATCH_def)
  then have "\<exists>b' x. drain_frames demo_pb demo_pe demo_clock ''p'' ([] @ demo_frame 3) (sys_srv s) = (b', x, Some DecodeError)"
    by (simp add: drain_frame [OF dec])
  then have "\<exists>s'. sys_run demo_pb demo_pe demo_clock (\<lambda>_. ''p'') [Data 1 (demo_frame 3)] s s'"
    using run_cons [OF sys_fault run_nil] conn by (metis demo_frame_def list.discI)
  with 1 server_keeps_store_intact [OF 1] show ?thesis by blast
qed

end
