(* ===== verification/Jobs.thy ===== *)
theory Jobs
  imports Ingest_Server "HOL-Library.Monad_Syntax"
begin

text \<open>
  \<open>ingestion/src/hpctel/jobs.py\<close>: the orchestration of a job as one coroutine. It runs
  between the awaits of the code; what everything else in the process does to the shared state
  during an await is given by the environment, and so are the readings of the monotonic clock
  and the outcome of each HTTP request. The loop that waits for the reports ends only if the
  clock passes the deadline, so it is a partial function: \<open>None\<close> means that it does not
  return, and \<open>execute_job_returns\<close> shows when it does.
\<close>

section \<open>The environment and the state\<close>

record fault_spec =
  fs_fault_type :: string
  fs_intensity :: int

text \<open>A POST to \<open>/start_phase\<close> of a host; an optional field of the body may be absent.\<close>

record phase_request =
  pr_host :: string
  pr_job_id :: string
  pr_phase_index :: int
  pr_sieve_limit :: "int option"
  pr_fault :: "fault_spec option"

datatype post_outcome = PostOk | HTTPError | OtherError

text \<open>
  \<open>ev_mono k\<close> is the \<open>k\<close>-th reading of \<open>time.monotonic()\<close>, \<open>ev_other k\<close> what the other tasks
  do during the \<open>k\<close>-th await, \<open>ev_finish\<close> the order in which the requests of a
  \<open>gather\<close> finish.
\<close>

record environment =
  ev_mono :: "nat \<Rightarrow> rat"
  ev_other :: "nat \<Rightarrow> server \<Rightarrow> server"
  ev_post :: "phase_request \<Rightarrow> post_outcome"
  ev_finish :: "phase_request list \<Rightarrow> phase_request list"

record orchestrator =
  o_srv :: server
  o_mono :: nat
  o_await :: nat
  o_sent :: "phase_request list"

datatype job_error = FaultTypeKeyError | DispatchError

definition PHASE_REPORT_TIMEOUT_S :: rat where
  "PHASE_REPORT_TIMEOUT_S = 30"

definition tick :: "orchestrator \<Rightarrow> orchestrator" where
  "tick st = st\<lparr>o_mono := Suc (o_mono st)\<rparr>"

definition await :: "environment \<Rightarrow> orchestrator \<Rightarrow> orchestrator" where
  "await env st = st\<lparr>o_srv := ev_other env (o_await st) (o_srv st), o_await := Suc (o_await st)\<rparr>"

definition on_srv :: "(server \<Rightarrow> server) \<Rightarrow> orchestrator \<Rightarrow> orchestrator" where
  "on_srv f st = st\<lparr>o_srv := f (o_srv st)\<rparr>"

definition reports :: "string \<Rightarrow> int \<Rightarrow> orchestrator \<Rightarrow> nat" where
  "reports job k st = count_phase_reports job k (srv_db (o_srv st))"

section \<open>Dispatch\<close>

text \<open>The fault a host gets in a phase; \<open>Inl\<close> is the KeyError of a manifest without a fault type.\<close>

definition fault_for_host :: "fault_manifest option \<Rightarrow> string \<Rightarrow> int \<Rightarrow> job_error + fault_spec option" where
  "fault_for_host manifest host k = (case manifest of None \<Rightarrow> Inr None
   | Some m \<Rightarrow> if fm_target_host m = Some host \<and> fm_phase_index m = Some k
       then (case fm_fault_type m of None \<Rightarrow> Inl FaultTypeKeyError
         | Some t \<Rightarrow> Inr (Some \<lparr>fs_fault_type = t, fs_intensity = (case fm_intensity m of None \<Rightarrow> 2 | Some i \<Rightarrow> i)\<rparr>))
       else Inr None)"

fun build_dispatches :: "fault_manifest option \<Rightarrow> string \<Rightarrow> int option \<Rightarrow> int \<Rightarrow> string list
    \<Rightarrow> job_error + phase_request list" where
  "build_dispatches manifest job sieve k [] = Inr []"
| "build_dispatches manifest job sieve k (host # hosts) = (case fault_for_host manifest host k of
     Inl e \<Rightarrow> Inl e
   | Inr fault \<Rightarrow> (case build_dispatches manifest job sieve k hosts of
       Inl e \<Rightarrow> Inl e
     | Inr rs \<Rightarrow> Inr (\<lparr>pr_host = host, pr_job_id = job, pr_phase_index = k,
                       pr_sieve_limit = sieve, pr_fault = fault\<rparr> # rs)))"

text \<open>\<open>_dispatch_phase\<close>: an HTTP error is logged, any other exception leaves the coroutine.\<close>

definition dispatch_phase :: "environment \<Rightarrow> phase_request \<Rightarrow> server \<Rightarrow> server" where
  "dispatch_phase env r s = (if ev_post env r = HTTPError
     then emit \<lparr>lg_level = ''WARNING'', lg_message = ''phase_dispatch_failed'', lg_reason_code = None,
                lg_node_id = Some (pr_host r), lg_job_id = Some (pr_job_id r)\<rparr> s
     else s)"

text \<open>\<open>await asyncio.gather(*dispatches)\<close>.\<close>

definition gather_dispatches :: "environment \<Rightarrow> phase_request list \<Rightarrow> orchestrator
    \<Rightarrow> job_error option \<times> orchestrator" where
  "gather_dispatches env rs st =
     (let st1 = await env (st\<lparr>o_sent := o_sent st @ rs\<rparr>);
          st2 = on_srv (fold (dispatch_phase env) (ev_finish env rs)) st1
      in (if \<exists>r\<in>set rs. ev_post env r = OtherError then Some DispatchError else None, st2))"

section \<open>Waiting for the reports\<close>

partial_function (option) wait_loop :: "environment \<Rightarrow> string \<Rightarrow> int \<Rightarrow> nat \<Rightarrow> rat \<Rightarrow> orchestrator
    \<Rightarrow> (bool \<times> orchestrator) option" where
  "wait_loop env job k expected deadline st =
     (if ev_mono env (o_mono st) < deadline
      then if expected \<le> reports job k st then Some (True, tick st)
           else wait_loop env job k expected deadline (await env (tick st))
      else Some (expected \<le> reports job k st, tick st))"

definition wait_for_phase_reports :: "environment \<Rightarrow> string \<Rightarrow> int \<Rightarrow> nat \<Rightarrow> orchestrator
    \<Rightarrow> (bool \<times> orchestrator) option" where
  "wait_for_phase_reports env job k expected st =
     wait_loop env job k expected (rnd (ev_mono env (o_mono st) + PHASE_REPORT_TIMEOUT_S)) (tick st)"

section \<open>Jobs\<close>

definition create_job :: "clock \<Rightarrow> string \<Rightarrow> string list \<Rightarrow> int \<Rightarrow> fault_manifest option \<Rightarrow> server
    \<Rightarrow> (store_error + string) \<times> server" where
  "create_job clk uuid hosts phase_count manifest s =
     (let (now, s1) = time_ns clk s in
      case store_create_job uuid phase_count hosts now manifest (srv_db s1) of
        Inl e \<Rightarrow> (Inl e, s1)
      | Inr d \<Rightarrow> (Inr uuid, s1\<lparr>srv_db := d\<rparr>))"

definition finish_job :: "string \<Rightarrow> string \<Rightarrow> server \<Rightarrow> server" where
  "finish_job job status s = s\<lparr>srv_db := set_job_status job status (srv_db s)\<rparr>"

definition timed_out_log :: "string \<Rightarrow> log_record" where
  "timed_out_log job = \<lparr>lg_level = ''WARNING'', lg_message = ''job_timed_out'', lg_reason_code = None,
     lg_node_id = Some ''orchestrator'', lg_job_id = Some job\<rparr>"

text \<open>The \<open>for\<close> loop over the phases that are left. \<open>Inl\<close> is an exception that ends the task.\<close>

fun run_phases :: "environment \<Rightarrow> string \<Rightarrow> string list \<Rightarrow> int option \<Rightarrow> fault_manifest option
    \<Rightarrow> int list \<Rightarrow> orchestrator \<Rightarrow> ((job_error + unit) \<times> orchestrator) option" where
  "run_phases env job hosts sieve manifest [] st = Some (Inr (), on_srv (finish_job job ''completed'') st)"
| "run_phases env job hosts sieve manifest (k # ks) st =
     (case build_dispatches manifest job sieve k hosts of
        Inl e \<Rightarrow> Some (Inl e, st)
      | Inr rs \<Rightarrow> (case gather_dispatches env rs st of
          (Some e, st1) \<Rightarrow> Some (Inl e, st1)
        | (None, st1) \<Rightarrow> do {
            (all_reported, st2) \<leftarrow> wait_for_phase_reports env job k (length hosts) st1;
            if all_reported then run_phases env job hosts sieve manifest ks st2
            else Some (Inr (), on_srv (emit (timed_out_log job) \<circ> finish_job job ''timed_out'') st2) }))"

definition execute_job :: "environment \<Rightarrow> string \<Rightarrow> string list \<Rightarrow> int \<Rightarrow> int option \<Rightarrow> fault_manifest option
    \<Rightarrow> orchestrator \<Rightarrow> ((job_error + unit) \<times> orchestrator) option" where
  "execute_job env job hosts phase_count sieve manifest st =
     run_phases env job hosts sieve manifest [0..phase_count - 1] st"

section \<open>What a dispatch sends\<close>

definition fault_of :: "fault_manifest option \<Rightarrow> string \<Rightarrow> int \<Rightarrow> fault_spec option" where
  "fault_of manifest host k = (case fault_for_host manifest host k of Inl _ \<Rightarrow> None | Inr f \<Rightarrow> f)"

definition request_to :: "fault_manifest option \<Rightarrow> string \<Rightarrow> int option \<Rightarrow> int \<Rightarrow> string \<Rightarrow> phase_request" where
  "request_to manifest job sieve k host = \<lparr>pr_host = host, pr_job_id = job, pr_phase_index = k,
     pr_sieve_limit = sieve, pr_fault = fault_of manifest host k\<rparr>"

lemma build_dispatches_Inr [result_iff]:
  "build_dispatches manifest job sieve k hosts = Inr rs \<Longrightarrow> rs = map (request_to manifest job sieve k) hosts"
  by (induction hosts arbitrary: rs) (auto simp: request_to_def fault_of_def split: sum.splits)

lemma build_dispatches_Inl:
  "build_dispatches manifest job sieve k hosts = Inl e \<Longrightarrow> \<exists>m. manifest = Some m \<and> fm_fault_type m = None"
  by (induction hosts) (auto simp: fault_for_host_def split: sum.splits option.splits if_splits)

text \<open>A request carries a fault exactly when the manifest names its host and its phase.\<close>

lemma request_fault:
  "pr_fault (request_to manifest job sieve k host) \<noteq> None \<longleftrightarrow>
     (\<exists>m. manifest = Some m \<and> fm_target_host m = Some host \<and> fm_phase_index m = Some k \<and> fm_fault_type m \<noteq> None)"
  by (auto simp: request_to_def fault_of_def fault_for_host_def split: option.splits)

section \<open>The orchestrator among the other tasks\<close>

lemma count_phase_reports_mono:
  assumes "store_step\<^sup>*\<^sup>* d d'"
  shows "count_phase_reports job k d \<le> count_phase_reports job k d'"
  using store_steps_appends [OF assms] by (auto simp: count_phase_reports_def)

lemma on_srv_simps [simp]:
  "o_srv (on_srv f st) = f (o_srv st)" "o_mono (on_srv f st) = o_mono st" "o_sent (on_srv f st) = o_sent st"
  by (simp_all add: on_srv_def)

lemma tick_simps [simp]:
  "o_srv (tick st) = o_srv st" "o_mono (tick st) = Suc (o_mono st)" "o_sent (tick st) = o_sent st"
  by (simp_all add: tick_def)

lemma await_simps [simp]:
  "o_srv (await env st) = ev_other env (o_await st) (o_srv st)" "o_mono (await env st) = o_mono st"
  "o_sent (await env st) = o_sent st"
  by (simp_all add: await_def)

lemma reports_tick [simp]: "reports job k (tick st) = reports job k st"
  by (simp add: reports_def)

lemma dispatch_phase_db [simp]: "srv_db (fold (dispatch_phase env) rs s) = srv_db s"
  by (induction rs arbitrary: s) (simp_all add: dispatch_phase_def)

text \<open>
  A later state: the store has changed through its methods only, and the job's row is the same;
  and a state in which only the status of the job's row has changed.
\<close>

definition later :: "string \<Rightarrow> orchestrator \<Rightarrow> orchestrator \<Rightarrow> bool" where
  "later job st st' \<longleftrightarrow> store_step\<^sup>*\<^sup>* (srv_db (o_srv st)) (srv_db (o_srv st'))
     \<and> store_get_job job (srv_db (o_srv st')) = store_get_job job (srv_db (o_srv st))"

definition with_status :: "string \<Rightarrow> string \<Rightarrow> orchestrator \<Rightarrow> orchestrator \<Rightarrow> bool" where
  "with_status job status st st' \<longleftrightarrow> store_get_job job (srv_db (o_srv st')) =
     map_option (jr_status_update (\<lambda>_. status)) (store_get_job job (srv_db (o_srv st)))"

lemma set_job_status_find:
  "store_get_job job (set_job_status job status d) = map_option (jr_status_update (\<lambda>_. status)) (store_get_job job d)"
proof -
  have "find (\<lambda>j. jr_job_id j = job) (map (\<lambda>j. if jr_job_id j = job then j\<lparr>jr_status := status\<rparr> else j) js)
      = map_option (jr_status_update (\<lambda>_. status)) (find (\<lambda>j. jr_job_id j = job) js)" for js
    by (induction js) auto
  then show ?thesis by (simp add: store_get_job_def set_job_status_def)
qed

text \<open>
  The contract the orchestrator relies on: the other tasks change the store only through the
  calls of \<open>TSDBStore\<close>, and leave the row of this job alone.
\<close>

locale background =
  fixes other :: "nat \<Rightarrow> server \<Rightarrow> server" and job :: string
  assumes grows: "store_step\<^sup>*\<^sup>* (srv_db s) (srv_db (other k s))"
    and keeps_job: "store_get_job job (srv_db (other k s)) = store_get_job job (srv_db s)"
begin

lemma later_refl: "later job st st"
  by (simp add: later_def)

lemma later_trans: "later job st st' \<Longrightarrow> later job st' st'' \<Longrightarrow> later job st st''"
  by (auto simp: later_def)

lemma later_same_db: "srv_db (o_srv st) = srv_db (o_srv st') \<Longrightarrow> later job st st'"
  by (simp add: later_def)

lemma later_await: "ev_other env = other \<Longrightarrow> later job st (await env st)"
  by (simp add: later_def grows keeps_job)

lemma later_reports: "later job st st' \<Longrightarrow> reports j k st \<le> reports j k st'"
  by (auto simp: later_def reports_def intro: count_phase_reports_mono)

text \<open>The verdict of a wait is the number of reports in the store when it returns.\<close>

lemma wait_loop_result:
  assumes "ev_other env = other"
    and "wait_loop env j k n deadline st = Some r"
  shows "(fst r \<longleftrightarrow> n \<le> reports j k (snd r)) \<and> o_sent (snd r) = o_sent st \<and> later job st (snd r)"
proof -
  have "ev_other env = other \<longrightarrow>
      (fst r \<longleftrightarrow> n \<le> reports j k (snd r)) \<and> o_sent (snd r) = o_sent st \<and> later job st (snd r)"
  proof (rule wait_loop.raw_induct [OF _ assms(2)], goal_cases)
    case (1 loop env j k n deadline st r)
    show ?case
    proof (cases "ev_mono env (o_mono st) < deadline \<and> \<not> n \<le> reports j k st")
      case True
      then have "loop env j k n deadline (await env (tick st)) = Some r" using 1(2) by simp
      then have "ev_other env = other \<longrightarrow> (fst r \<longleftrightarrow> n \<le> reports j k (snd r))
          \<and> o_sent (snd r) = o_sent st \<and> later job (await env (tick st)) (snd r)"
        using 1(1) [of env j k n deadline "await env (tick st)" r] by simp
      moreover have "later job st (await env (tick st))" if "ev_other env = other"
        using later_trans [OF later_same_db later_await [OF that]] by simp
      ultimately show ?thesis using later_trans by blast
    next
      case False
      then have "r = (n \<le> reports j k st, tick st)" using 1(2) by (auto split: if_splits)
      then show ?thesis by (simp add: later_same_db)
    qed
  qed
  then show ?thesis using assms(1) by blast
qed
lemma wait_for_phase_reports_result:
  assumes "ev_other env = other" and "wait_for_phase_reports env j k n st = Some (b, st')"
  shows "b \<longleftrightarrow> n \<le> reports j k st'" and "o_sent st' = o_sent st" and "later job st st'"
proof -
  from wait_loop_result [OF assms(1) assms(2) [unfolded wait_for_phase_reports_def]]
  have r: "b \<longleftrightarrow> n \<le> reports j k st'" "o_sent st' = o_sent st" "later job (tick st) st'" by simp_all
  then show "b \<longleftrightarrow> n \<le> reports j k st'" and "o_sent st' = o_sent st" by simp_all
  show "later job st st'" using later_trans [OF later_same_db r(3)] by simp
qed

lemma gather_dispatches_result:
  assumes "ev_other env = other" and "gather_dispatches env rs st = (e, st')"
  shows "o_sent st' = o_sent st @ rs" and "later job st st'"
  using assms(2) later_await [OF assms(1), of "st\<lparr>o_sent := o_sent st @ rs\<rparr>"]
  by (auto simp: gather_dispatches_def Let_def later_def)

text \<open>
  The run of the phases that are left: the phases dispatched are a prefix of them, and the job
  is completed exactly when every phase has its reports in the store at the end.
\<close>

lemma finish_reports [simp]:
  "reports j k (on_srv (finish_job job' status) st) = reports j k st"
  "reports j k (on_srv (emit l \<circ> finish_job job' status) st) = reports j k st"
  by (simp_all add: reports_def finish_job_def count_phase_reports_def set_job_status_def)

lemma run_phases_result:
  assumes "ev_other env = other" and "run_phases env job hosts sieve manifest ks st = Some (Inr (), st')"
  shows "\<exists>m \<le> length ks. o_sent st' = o_sent st @ concat (map (\<lambda>k. map (request_to manifest job sieve k) hosts) (take m ks))
    \<and> (if \<forall>k\<in>set ks. length hosts \<le> reports job k st'
       then m = length ks \<and> with_status job ''completed'' st st'
       else with_status job ''timed_out'' st st' \<and> 0 < m \<and> \<not> length hosts \<le> reports job (ks ! (m - 1)) st')
    \<and> (\<forall>k. reports job k st \<le> reports job k st')"
  using assms(2)
proof (induction ks arbitrary: st)
  case Nil
  then show ?case by (auto simp: with_status_def finish_job_def set_job_status_find)
next
  case (Cons k ks)
  from Cons.prems obtain rs st1 where rs: "build_dispatches manifest job sieve k hosts = Inr rs"
    and g: "gather_dispatches env rs st = (None, st1)"
    by (auto split: sum.splits prod.splits option.splits)
  with Cons.prems obtain b st2 where w: "wait_for_phase_reports env job k (length hosts) st1 = Some (b, st2)"
    and rest: "(if b then run_phases env job hosts sieve manifest ks st2
       else Some (Inr (), on_srv (emit (timed_out_log job) \<circ> finish_job job ''timed_out'') st2)) = Some (Inr (), st')"
    by (auto simp: bind_eq_Some_conv)
  have sent: "o_sent st2 = o_sent st @ map (request_to manifest job sieve k) hosts"
    using gather_dispatches_result(1) [OF assms(1) g] wait_for_phase_reports_result(2) [OF assms(1) w]
      build_dispatches_Inr [OF rs] by simp
  have later: "later job st st2"
    using gather_dispatches_result(2) [OF assms(1) g] wait_for_phase_reports_result(3) [OF assms(1) w]
    by (rule later_trans)
  have verdict: "b \<longleftrightarrow> length hosts \<le> reports job k st2" by (rule wait_for_phase_reports_result(1) [OF assms(1) w])
  have status: "with_status job s st2 x \<longleftrightarrow> with_status job s st x" for s x
    using later by (simp add: later_def with_status_def)
  have grow: "reports job j st \<le> reports job j st2" for j using later by (rule later_reports)
  show ?case
  proof (cases b)
    case True
    then have "run_phases env job hosts sieve manifest ks st2 = Some (Inr (), st')" using rest by simp
    from Cons.IH [OF this] obtain m where m: "m \<le> length ks"
      and ih: "o_sent st' = o_sent st2 @ concat (map (\<lambda>k. map (request_to manifest job sieve k) hosts) (take m ks))"
        "if \<forall>k\<in>set ks. length hosts \<le> reports job k st'
         then m = length ks \<and> with_status job ''completed'' st2 st'
         else with_status job ''timed_out'' st2 st' \<and> 0 < m \<and> \<not> length hosts \<le> reports job (ks ! (m - 1)) st'"
        "\<forall>k. reports job k st2 \<le> reports job k st'" by blast
    have "length hosts \<le> reports job k st'" using verdict True ih(3) by (meson order_trans)
    then show ?thesis using m ih grow sent status
      by (intro exI [of _ "Suc m"]) (auto split: if_splits intro: order_trans)
  next
    case False
    then have st': "st' = on_srv (emit (timed_out_log job) \<circ> finish_job job ''timed_out'') st2" using rest by simp
    then have "with_status job ''timed_out'' st2 st'" by (simp add: with_status_def finish_job_def set_job_status_find)
    then show ?thesis using False verdict sent status grow
      by (intro exI [of _ "Suc 0"]) (auto simp: st')
  qed
qed

lemma run_phases_steps:
  assumes "ev_other env = other" and "run_phases env job hosts sieve manifest ks st = Some (res, st')"
  shows "store_step\<^sup>*\<^sup>* (srv_db (o_srv st)) (srv_db (o_srv st'))"
  using assms(2)
proof (induction ks arbitrary: st)
  case Nil
  then show ?case by (auto simp: finish_job_def intro!: r_into_rtranclp step_set_status)
next
  case (Cons k ks)
  show ?case
  proof (cases "build_dispatches manifest job sieve k hosts")
    case (Inl e)
    then show ?thesis using Cons.prems by simp
  next
    case (Inr rs)
    obtain e st1 where g: "gather_dispatches env rs st = (e, st1)" by fastforce
    have 1: "store_step\<^sup>*\<^sup>* (srv_db (o_srv st)) (srv_db (o_srv st1))"
      using gather_dispatches_result(2) [OF assms(1) g] by (simp add: later_def)
    show ?thesis
    proof (cases e)
      case (Some x)
      then show ?thesis using Cons.prems Inr g 1 by simp
    next
      case None
      with Cons.prems Inr g obtain b st2 where w: "wait_for_phase_reports env job k (length hosts) st1 = Some (b, st2)"
        and rest: "(if b then run_phases env job hosts sieve manifest ks st2
          else Some (Inr (), on_srv (emit (timed_out_log job) \<circ> finish_job job ''timed_out'') st2)) = Some (res, st')"
        by (auto simp: bind_eq_Some_conv)
      have 2: "store_step\<^sup>*\<^sup>* (srv_db (o_srv st1)) (srv_db (o_srv st2))"
        using wait_for_phase_reports_result(3) [OF assms(1) w] by (simp add: later_def)
      have "store_step\<^sup>*\<^sup>* (srv_db (o_srv st2)) (srv_db (o_srv st'))"
        using rest Cons.IH [of st2] by (auto simp: finish_job_def intro!: r_into_rtranclp step_set_status split: if_splits)
      with 1 2 show ?thesis by simp
    qed
  qed
qed

end

section \<open>Returning\<close>

text \<open>The wait returns once the clock passes the deadline; each poll is one reading of the clock.\<close>

lemma wait_loop_returns:
  assumes "o_mono st \<le> j" and "deadline \<le> ev_mono env j"
  shows "\<exists>b st'. wait_loop env job k n deadline st = Some (b, st') \<and> o_mono st' \<le> Suc j"
  using assms
proof (induction "j - o_mono st" arbitrary: st)
  case 0
  then have "o_mono st = j" by simp
  then show ?case using 0 by (simp add: wait_loop.simps)
next
  case (Suc i)
  show ?case
  proof (cases "ev_mono env (o_mono st) < deadline \<and> \<not> n \<le> reports job k st")
    case True
    have "\<exists>b st'. wait_loop env job k n deadline (await env (tick st)) = Some (b, st') \<and> o_mono st' \<le> Suc j"
      by (rule Suc.hyps(1)) (use Suc.hyps(2) Suc.prems in simp_all)
    then show ?thesis using True by (simp add: wait_loop.simps [of env job k n deadline st])
  next
    case False
    then show ?thesis using Suc.prems by (auto simp: wait_loop.simps [of env job k n deadline st])
  qed
qed

lemma run_phases_returns:
  assumes "\<And>i t. \<exists>j\<ge>i. t \<le> ev_mono env j"
  shows "\<exists>r. run_phases env job hosts sieve manifest ks st = Some r"
proof (induction ks arbitrary: st)
  case (Cons k ks)
  have "\<exists>r. wait_for_phase_reports env job k (length hosts) x = Some r" for x
  proof -
    obtain j where "o_mono (tick x) \<le> j" "rnd (ev_mono env (o_mono x) + PHASE_REPORT_TIMEOUT_S) \<le> ev_mono env j"
      using assms by blast
    from wait_loop_returns [OF this] show ?thesis unfolding wait_for_phase_reports_def by blast
  qed
  then have wait: "\<exists>b x'. wait_for_phase_reports env job k (length hosts) x = Some (b, x')" for x by fastforce
  show ?case
  proof (cases "build_dispatches manifest job sieve k hosts")
    case (Inr rs)
    obtain e st1 where g: "gather_dispatches env rs st = (e, st1)" by fastforce
    obtain b st2 where "wait_for_phase_reports env job k (length hosts) st1 = Some (b, st2)" using wait by blast
    then show ?thesis using Inr g Cons.IH [of st2] by (cases e) auto
  qed simp
qed simp

lemma float_deadline: "0 \<le> t \<Longrightarrow> t \<le> 2 ^ 40 \<Longrightarrow> rnd (t + 30) \<le> t + 30 + 1/8"
proof -
  assume t: "0 \<le> t" "t \<le> 2 ^ 40"
  let ?m = "\<lceil>(t + 30) * 8\<rceil>"
  have up: "t + 30 \<le> of_int ?m / 8" by (simp add: pos_le_divide_eq)
  have "of_int ?m < (t + 30) * 8 + 1" by linarith
  then have lo: "of_int ?m / 8 \<le> t + 30 + 1/8" by simp
  have "of_int ?m < (2 ^ 53 :: rat)" using \<open>of_int ?m < (t + 30) * 8 + 1\<close> t by simp
  moreover have "0 \<le> ?m" using t by simp
  ultimately have "\<bar>?m\<bar> \<le> 2 ^ 53" by (metis abs_of_nonneg less_imp_le of_int_less_iff of_int_numeral of_int_power)
  then have "rnd (of_int ?m / 8) = of_int ?m / 8" by (intro rnd_exact [of _ ?m "-3"]) simp_all
  then have "rnd (t + 30) \<le> of_int ?m / 8" using up by (rule b64.below)
  with lo show ?thesis by simp
qed

section \<open>Ingestion as the background\<close>

text \<open>
  The other tasks are the connections of the ingestion server: during the \<open>k\<close>-th await the
  frames \<open>arrivals k\<close> are handled.
\<close>

definition arriving :: "batch_parser \<Rightarrow> event_parser \<Rightarrow> clock \<Rightarrow> (nat \<Rightarrow> decoded_frame list) \<Rightarrow> nat \<Rightarrow> server \<Rightarrow> server" where
  "arriving pb pe clk arrivals k = handle_all pb pe clk (arrivals k)"

text \<open>The tables that no handler of a frame writes.\<close>

definition other_tables :: "db \<Rightarrow> rollup_row list \<times> rollup_row list \<times> job_row list" where
  "other_tables d = (rollup_1m d, rollup_1h d, jobs d)"

lemma handle_frame_tables: "other_tables (srv_db (fst (handle_frame pb pe clk f s))) = other_tables (srv_db s)"
proof -
  have "other_tables (srv_db (fst (handle_sample_batch pb clk pl s))) = other_tables (srv_db s)" for pl
  proof (cases "pb pl")
    case None
    then show ?thesis by (simp add: handle_sample_batch_def)
  next
    case (Some batch)
    then obtain recv where "srv_db (fst (handle_sample_batch pb clk pl s)) =
      snd (insert_samples (map (row_of (producer_version batch) recv)
        (accepted (fst (validate_now clk batch s)))) (srv_db s))" by (rule handle_sample_batch_db)
    then show ?thesis by (simp add: insert_samples_frame other_tables_def)
  qed
  moreover have "other_tables (srv_db (fst (handle_phase_event pe pl s))) = other_tables (srv_db s)" for pl
    by (auto simp: handle_phase_event_def insert_phase_event_def other_tables_def split: option.split)
  ultimately show ?thesis by (simp add: handle_frame_def)
qed

lemma handle_frame_jobs: "jobs (srv_db (fst (handle_frame pb pe clk f s))) = jobs (srv_db s)"
  using handle_frame_tables [of pb pe clk f s] by (simp add: other_tables_def)

lemma handle_all_jobs: "jobs (srv_db (handle_all pb pe clk fs s)) = jobs (srv_db s)"
  by (induction fs arbitrary: s) (simp_all add: handle_frame_jobs)

interpretation ingest: background "arriving pb pe clk arrivals" job for pb pe clk arrivals job
  by unfold_locales (simp_all add: arriving_def handle_all_store store_get_job_def handle_all_jobs)

section \<open>A concrete job\<close>

text \<open>
  One host, whose report arrives while its request is being sent; the clock advances by one
  second with every reading.
\<close>

definition demo_env :: environment where
  "demo_env = \<lparr>ev_mono = of_nat, ev_other = arriving demo_pb demo_pe demo_clock
       (\<lambda>k. if k = 0 then [\<lparr>tag = 2, payload = [9]\<rparr>] else []),
     ev_post = (\<lambda>_. PostOk), ev_finish = (\<lambda>rs. rs)\<rparr>"

definition demo_row :: job_row where
  "demo_row = \<lparr>jr_job_id = ''j'', jr_phase_count = 1, jr_node_ids_json = [''a''],
     jr_fault_manifest_json = None, jr_status = ''running'', jr_created_ts_ns = 5\<rparr>"

definition demo_orchestrator :: orchestrator where
  "demo_orchestrator = \<lparr>o_srv = demo_server\<lparr>srv_db := empty_db\<lparr>jobs := [demo_row]\<rparr>\<rparr>, o_mono = 0, o_await = 0, o_sent = []\<rparr>"

lemma demo_execute:
  assumes "fault_for_host manifest ''a'' 0 = Inr None"
  shows "\<exists>st'. execute_job demo_env ''j'' [''a''] 1 None manifest demo_orchestrator = Some (Inr (), st')
     \<and> count_phase_reports ''j'' 0 (srv_db (o_srv st')) = 1"
proof -
  have "rnd 30 = 30" using rnd_of_int [of 30] by simp
  then show ?thesis
    by (simp add: execute_job_def assms gather_dispatches_def Let_def demo_env_def await_def on_srv_def
        dispatch_phase_def wait_for_phase_reports_def wait_loop.simps demo_orchestrator_def tick_def
        PHASE_REPORT_TIMEOUT_S_def arriving_def handle_frame_def handle_phase_event_def demo_pe_def
        FRAME_TAG_SAMPLE_BATCH_def FRAME_TAG_PHASE_EVENT_def reports_def count_phase_reports_def emit_def
        insert_phase_event_def insert_event_row_def insert_or_ignore_def empty_db_def of_phase_def event_row_of_def
        demo_event_msg_def demo_server_def finish_job_def set_job_status_def)
qed

lemma demo_background:
  "store_step\<^sup>*\<^sup>* (srv_db s) (srv_db (ev_other demo_env k s))"
  "store_get_job job (srv_db (ev_other demo_env k s)) = store_get_job job (srv_db s)"
  by (simp_all add: demo_env_def ingest.grows ingest.keeps_job)

section \<open>Properties of the orchestrator\<close>

text \<open>
  The verdict of a job. When the other tasks change the store only through its methods and
  leave the job's row alone, a job that ends without an exception has sent the requests of a
  prefix of its phases, in order, one to each host, and its stored status is \<open>completed\<close>
  exactly when in the end every phase has as many reports as there are hosts; otherwise it is
  \<open>timed_out\<close>, and the last phase dispatched is one that lacks reports.
\<close>

theorem job_verdict:
  assumes "\<And>k s. store_step\<^sup>*\<^sup>* (srv_db s) (srv_db (ev_other env k s))"
    and "\<And>k s. store_get_job job (srv_db (ev_other env k s)) = store_get_job job (srv_db s)"
    and "execute_job env job hosts phase_count sieve manifest st = Some (Inr (), st')"
    and "store_get_job job (srv_db (o_srv st)) = Some row"
  shows "\<exists>m \<le> nat phase_count.
      o_sent st' = o_sent st @ concat (map (\<lambda>k. map (request_to manifest job sieve k) hosts) [0..int m - 1])
    \<and> (if \<forall>k\<in>{0..<phase_count}. length hosts \<le> count_phase_reports job k (srv_db (o_srv st'))
       then m = nat phase_count
         \<and> store_get_job job (srv_db (o_srv st')) = Some (row\<lparr>jr_status := ''completed''\<rparr>)
       else 0 < m \<and> count_phase_reports job (int m - 1) (srv_db (o_srv st')) < length hosts
         \<and> store_get_job job (srv_db (o_srv st')) = Some (row\<lparr>jr_status := ''timed_out''\<rparr>))"
proof -
  let ?ks = "[0..phase_count - 1]"
  have "background (ev_other env) job" by (rule background.intro [OF assms(1,2)])
  from background.run_phases_result [OF this refl assms(3) [unfolded execute_job_def]]
  obtain m where m: "m \<le> length ?ks"
    and sent: "o_sent st' = o_sent st @ concat (map (\<lambda>k. map (request_to manifest job sieve k) hosts) (take m ?ks))"
    and verdict: "if \<forall>k\<in>set ?ks. length hosts \<le> reports job k st'
       then m = length ?ks \<and> with_status job ''completed'' st st'
       else with_status job ''timed_out'' st st' \<and> 0 < m \<and> \<not> length hosts \<le> reports job (?ks ! (m - 1)) st'"
    by blast
  have prefix: "take m ?ks = [0..int m - 1]" using m by (intro nth_equalityI) auto
  have last: "?ks ! (m - 1) = int m - 1" if "0 < m" using that m by (simp add: of_nat_diff)
  let ?all = "\<forall>k\<in>{0..<phase_count}. length hosts \<le> count_phase_reports job k (srv_db (o_srv st'))"
  have all: "(\<forall>k\<in>set ?ks. length hosts \<le> reports job k st') \<longleftrightarrow> ?all" by (auto simp: reports_def)
  show ?thesis
  proof (cases ?all)
    case True
    then have "m = length ?ks" "with_status job ''completed'' st st'" using verdict all by presburger+
    then show ?thesis using True sent prefix assms(4) by (intro exI [of _ m]) (simp add: with_status_def)
  next
    case False
    then have "with_status job ''timed_out'' st st'" "0 < m" "\<not> length hosts \<le> reports job (?ks ! (m - 1)) st'"
      using verdict all by presburger+
    then show ?thesis using False m last sent prefix assms(4)
      by (intro exI [of _ m]) (simp only: False if_False, simp add: with_status_def reports_def not_le)
  qed
qed

theorem job_verdict_witness:
  "\<exists>st'. execute_job demo_env ''j'' [''a''] 1 None None demo_orchestrator = Some (Inr (), st')
     \<and> store_get_job ''j'' (srv_db (o_srv st')) = Some (demo_row\<lparr>jr_status := ''completed''\<rparr>)"
proof -
  from demo_execute [of None] obtain st' where run: "execute_job demo_env ''j'' [''a''] 1 None None demo_orchestrator = Some (Inr (), st')"
    and count: "count_phase_reports ''j'' 0 (srv_db (o_srv st')) = 1" by (auto simp: fault_for_host_def)
  have "store_get_job ''j'' (srv_db (o_srv demo_orchestrator)) = Some demo_row"
    by (simp add: demo_orchestrator_def store_get_job_def demo_row_def)
  note job = this
  have "\<forall>k\<in>{0..<1}. length [''a''] \<le> count_phase_reports ''j'' k (srv_db (o_srv st'))"
  proof
    fix k :: int
    assume "k \<in> {0..<1}"
    then have "k = 0" by simp
    then show "length [''a''] \<le> count_phase_reports ''j'' k (srv_db (o_srv st'))" using count by simp
  qed
  from job_verdict [OF demo_background run job, unfolded if_P [OF this]]
  have "store_get_job ''j'' (srv_db (o_srv st')) = Some (demo_row\<lparr>jr_status := ''completed''\<rparr>)" by blast
  with run show ?thesis by blast
qed

text \<open>
  C19. A job always ends when the monotonic clock passes every deadline, whatever the hosts, the
  network and the other tasks do.
\<close>

theorem execute_job_returns:
  assumes "\<forall>i t. \<exists>j\<ge>i. t \<le> ev_mono env j"
  shows "\<exists>res st'. execute_job env job hosts phase_count sieve manifest st = Some (res, st')"
  unfolding execute_job_def using run_phases_returns [of env] assms by fastforce

theorem execute_job_returns_witness:
  "\<exists>res st'. execute_job demo_env ''k'' [''a'', ''b''] 3 (Some 100) None demo_orchestrator = Some (res, st')"
proof (rule execute_job_returns, intro allI)
  fix i and t :: rat
  obtain n where "t < of_nat n" using reals_Archimedean2 by blast
  then have "t \<le> ev_mono demo_env (max i n)" by (simp add: demo_env_def)
  then show "\<exists>j\<ge>i. t \<le> ev_mono demo_env j" by (meson max.cobounded1)
qed

text \<open>
  The wait for the reports of a phase reads the clock at most 304 times, when the clock does not go
  back between the deadline and the first poll, every later poll comes a tenth of a second after the
  one before, from which a sleep of 0.2 seconds separates it, and the clock has run for less than 2
  to the 40 seconds: the rounding of the float deadline adds no poll beyond that.
\<close>

theorem wait_bounded:
  assumes "ev_mono env (o_mono st) \<le> ev_mono env (Suc (o_mono st))"
    and "\<forall>i>o_mono st. ev_mono env i + 1/10 \<le> ev_mono env (Suc i)"
    and "0 \<le> ev_mono env (o_mono st)" and "ev_mono env (o_mono st) \<le> 2 ^ 40"
  shows "\<exists>b st'. wait_for_phase_reports env job k n st = Some (b, st') \<and> o_mono st' \<le> o_mono st + 304"
proof -
  let ?t = "ev_mono env (o_mono st)"
  have "?t + of_nat i / 10 \<le> ev_mono env (Suc (o_mono st) + i)" for i
  proof (induction i)
    case (Suc i)
    then show ?case using spec [OF assms(2), of "Suc (o_mono st) + i"] by (simp add: add_divide_distrib)
  qed (use assms(1) in simp)
  from this [of 302] have "rnd (?t + 30) \<le> ev_mono env (o_mono st + 303)"
    using float_deadline [OF assms(3,4)] by (simp add: add.commute [of _ 303])
  then have "\<exists>b st'. wait_loop env job k n (rnd (?t + PHASE_REPORT_TIMEOUT_S)) (tick st) = Some (b, st')
      \<and> o_mono st' \<le> Suc (o_mono st + 303)"
    by (intro wait_loop_returns) (simp_all add: PHASE_REPORT_TIMEOUT_S_def)
  then show ?thesis unfolding wait_for_phase_reports_def by fastforce
qed

theorem wait_bounded_witness:
  "\<exists>b st'. wait_for_phase_reports demo_env ''k'' 0 5 demo_orchestrator = Some (b, st') \<and> o_mono st' \<le> 304"
  using wait_bounded [of demo_env demo_orchestrator "''k''" 0 5]
  by (auto simp: demo_env_def demo_orchestrator_def)

text \<open>
  C20. A fault reaches its target only: of the requests a job sends, exactly those to the
  manifest's host in the manifest's phase carry a fault, with its type and with intensity 2
  where the manifest gives none.
\<close>

theorem fault_only_to_target:
  assumes "\<And>k s. store_step\<^sup>*\<^sup>* (srv_db s) (srv_db (ev_other env k s))"
    and "\<And>k s. store_get_job job (srv_db (ev_other env k s)) = store_get_job job (srv_db s)"
    and "execute_job env job hosts phase_count sieve (Some fm) st = Some (Inr (), st')"
    and "fm_fault_type fm = Some ft"
  shows "\<exists>rs. o_sent st' = o_sent st @ rs \<and> (\<forall>r\<in>set rs. pr_host r \<in> set hosts \<and> 0 \<le> pr_phase_index r \<and> pr_phase_index r < phase_count
     \<and> pr_fault r = (if fm_target_host fm = Some (pr_host r) \<and> fm_phase_index fm = Some (pr_phase_index r)
         then Some \<lparr>fs_fault_type = ft, fs_intensity = (case fm_intensity fm of None \<Rightarrow> 2 | Some i \<Rightarrow> i)\<rparr> else None))"
proof -
  let ?ks = "[0..phase_count - 1]"
  have "background (ev_other env) job" by (rule background.intro [OF assms(1,2)])
  from background.run_phases_result [OF this refl assms(3) [unfolded execute_job_def]]
  obtain m where "o_sent st' = o_sent st @ concat (map (\<lambda>k. map (request_to (Some fm) job sieve k) hosts) (take m ?ks))"
    by blast
  moreover have "k \<in> {0..<phase_count}" if "k \<in> set (take m ?ks)" for k using set_take_subset [of m ?ks] that by auto
  ultimately show ?thesis using assms(4)
    by (intro exI [of _ "concat (map (\<lambda>k. map (request_to (Some fm) job sieve k) hosts) (take m ?ks))"])
      (auto simp: request_to_def fault_of_def fault_for_host_def)
qed

theorem fault_only_to_target_witness:
  "\<exists>st'. execute_job demo_env ''j'' [''a''] 1 None
       (Some \<lparr>fm_target_host = Some ''b'', fm_phase_index = Some 0, fm_fault_type = Some ''cpu'', fm_intensity = None\<rparr>)
       demo_orchestrator = Some (Inr (), st') \<and> (\<forall>r\<in>set (o_sent st'). pr_fault r = None)"
proof -
  let ?fm = "\<lparr>fm_target_host = Some ''b'', fm_phase_index = Some 0, fm_fault_type = Some ''cpu'', fm_intensity = None\<rparr>"
  obtain st' where run: "execute_job demo_env ''j'' [''a''] 1 None (Some ?fm) demo_orchestrator = Some (Inr (), st')"
    using demo_execute [of "Some ?fm"] by (auto simp: fault_for_host_def)
  from fault_only_to_target [OF demo_background run] run
  show ?thesis by (fastforce simp: demo_orchestrator_def)
qed

text \<open>
  The job and the ingestion server together: when the other tasks are the ingestion of
  frames from the agents, a job that ends without an exception is \<open>completed\<close> exactly when, for
  every phase, at least as many distinct nodes as there are hosts have a phase event in the
  store; repeated reports of one node do not help.
\<close>

theorem ingested_reports_decide_job:
  assumes "ev_other env = arriving pb pe clk arrivals" and "wf_db (srv_db (o_srv st))"
    and "execute_job env job hosts phase_count sieve manifest st = Some (Inr (), st')"
    and "store_get_job job (srv_db (o_srv st)) = Some row"
  shows "store_get_job job (srv_db (o_srv st')) = Some (row\<lparr>jr_status :=
    (if \<forall>k\<in>{0..<phase_count}. length hosts \<le>
          card (er_node_id ` {e \<in> set (phase_events (srv_db (o_srv st'))). of_phase job k e})
     then ''completed'' else ''timed_out'')\<rparr>)"
proof -
  let ?ks = "[0..phase_count - 1]"
  have run: "run_phases env job hosts sieve manifest ?ks st = Some (Inr (), st')"
    using assms(3) by (simp add: execute_job_def)
  have "store_step\<^sup>*\<^sup>* (srv_db (o_srv st)) (srv_db (o_srv st'))" by (rule ingest.run_phases_steps [OF assms(1) run])
  then have "wf_db (srv_db (o_srv st'))" using assms(2) by (induction rule: rtranclp_induct) (auto intro: store_step_wf)
  then have card: "card (er_node_id ` {e \<in> set (phase_events (srv_db (o_srv st'))). of_phase job k e}) = reports job k st'" for k
    by (simp add: reports_def count_phase_reports_card)
  have ks: "set ?ks = {0..<phase_count}" by auto
  have "if \<forall>k\<in>{0..<phase_count}. length hosts \<le> reports job k st'
     then with_status job ''completed'' st st' else with_status job ''timed_out'' st st'"
    using ingest.run_phases_result [OF assms(1) run] unfolding ks by (auto split: if_split_asm)
  moreover have "store_get_job job (srv_db (o_srv st')) = Some (row\<lparr>jr_status := (if P then a else b)\<rparr>)"
    if "if P then with_status job a st st' else with_status job b st st'" for P a b
    using that assms(4) by (cases P) (simp_all add: with_status_def)
  ultimately show ?thesis unfolding card by blast
qed

theorem ingested_reports_decide_job_witness:
  "\<exists>st'. execute_job demo_env ''j'' [''a''] 1 None None demo_orchestrator = Some (Inr (), st')
     \<and> (\<exists>row. store_get_job ''j'' (srv_db (o_srv st')) = Some row \<and> jr_status row = ''completed'')"
proof -
  from demo_execute [of None] obtain st' where run: "execute_job demo_env ''j'' [''a''] 1 None None demo_orchestrator = Some (Inr (), st')"
    and count: "count_phase_reports ''j'' 0 (srv_db (o_srv st')) = 1" by (auto simp: fault_for_host_def)
  have "er_node_id ` {e \<in> set (phase_events (srv_db (o_srv st'))). of_phase ''j'' 0 e} \<noteq> {}"
    using count by (auto simp: count_phase_reports_def length_Suc_conv filter_eq_Cons_iff)
  moreover have "k = 0" if "k \<in> {0..<1}" for k :: int using that by simp
  ultimately have reported: "\<forall>k\<in>{0..<1}. length [''a''] \<le> card (er_node_id ` {e \<in> set (phase_events (srv_db (o_srv st'))). of_phase ''j'' k e})"
    by (fastforce simp: Suc_le_eq card_gt_0_iff)
  have wf: "wf_db (srv_db (o_srv demo_orchestrator))"
    by (simp add: demo_orchestrator_def wf_db_def empty_db_def)
  have job: "store_get_job ''j'' (srv_db (o_srv demo_orchestrator)) = Some demo_row"
    by (simp add: demo_orchestrator_def store_get_job_def demo_row_def)
  have env: "ev_other demo_env = arriving demo_pb demo_pe demo_clock (\<lambda>k. if k = 0 then [\<lparr>tag = 2, payload = [9]\<rparr>] else [])"
    by (simp add: demo_env_def)
  from ingested_reports_decide_job [OF env wf run job, unfolded if_P [OF reported]] run show ?thesis by fastforce
qed

end
