(* ===== verification/Workload.thy ===== *)
theory Workload
  imports Sieve Jobs
begin

text \<open>
  The workload runner: \<open>workload/src/workloadrunner/runner.py\<close>, \<open>faults.py\<close> and
  \<open>reporter.py\<close>. The environment of a phase gives the readings of the two clocks, the generated
  class's \<open>SerializeToString\<close> (\<open>None\<close> when a field is out of the range of its protobuf type,
  which raises ValueError), the connection to the ingestion server, the power function of
  the sieve, and which of the I/O threads are still in a system call when their join times out.
  The request is the \<open>phase_request\<close> of \<open>Jobs\<close>.
\<close>

section \<open>Faults\<close>

datatype fault_kind = CpuContention | IoStall

text \<open>A process or thread of a fault, and whether its stop flag is set.\<close>

record fault_worker =
  wk_kind :: fault_kind
  wk_stopping :: bool

datatype runner_error = FaultTypeValueError | SieveIndexError | FieldValueError | FrameOverflowError | ConnectError

definition start_workers :: "fault_kind \<Rightarrow> int \<Rightarrow> fault_worker list" where
  "start_workers kind intensity = replicate (nat (max 1 intensity)) \<lparr>wk_kind = kind, wk_stopping = False\<rparr>"

text \<open>
  The end of \<open>_cpu_contention\<close>: every process is stopped, joined, and terminated when the join
  times out. The end of \<open>_io_stall\<close>: the threads whose join times out are left with the event
  set; \<open>hangs i\<close> says that the \<open>i\<close>-th thread is one of them.
\<close>

definition stop_cpu :: "fault_worker list \<Rightarrow> fault_worker list" where
  "stop_cpu ws = []"

definition stop_io :: "(nat \<Rightarrow> bool) \<Rightarrow> fault_worker list \<Rightarrow> fault_worker list" where
  "stop_io hangs ws = map (\<lambda>(i, w). w\<lparr>wk_stopping := True\<rparr>) (filter (\<lambda>(i, w). hangs i) (enumerate 0 ws))"

text \<open>
  \<open>with apply_fault(manifest): body\<close>, where the body runs with the workers started and sees the
  ones that were there before; the result is the body's, and the workers left.
\<close>

definition apply_fault :: "(nat \<Rightarrow> bool) \<Rightarrow> fault_spec option \<Rightarrow> (fault_worker list \<Rightarrow> runner_error + 'a)
    \<Rightarrow> fault_worker list \<Rightarrow> (runner_error + 'a) \<times> fault_worker list" where
  "apply_fault hangs manifest body ws = (case manifest of
     None \<Rightarrow> (body ws, ws)
   | Some m \<Rightarrow>
       if fs_fault_type m = ''cpu_contention''
       then (let own = start_workers CpuContention (fs_intensity m) in (body (ws @ own), ws @ stop_cpu own))
       else if fs_fault_type m = ''io_stall''
       then (let own = start_workers IoStall (fs_intensity m) in (body (ws @ own), ws @ stop_io hangs own))
       else (Inl FaultTypeValueError, ws))"

section \<open>The reporter\<close>

definition report_phase_event :: "(phase_event_msg \<Rightarrow> bytes option) \<Rightarrow> bool \<Rightarrow> phase_event_msg
    \<Rightarrow> runner_error + bytes" where
  "report_phase_event serialize connects m = (case serialize m of
     None \<Rightarrow> Inl FieldValueError
   | Some pl \<Rightarrow> (case encode_frame 2 pl of
       None \<Rightarrow> Inl FrameOverflowError
     | Some frame \<Rightarrow> if connects then Inr frame else Inl ConnectError))"

section \<open>A phase\<close>

record runner_config =
  rc_node_id :: string
  rc_default_sieve_limit :: int

record phase_world =
  w_start_ts :: int
  w_start_mono :: int
  w_end_ts :: int
  w_end_mono :: int
  w_serialize :: "phase_event_msg \<Rightarrow> bytes option"
  w_connects :: bool
  w_root :: "rat \<Rightarrow> rat"
  w_hangs :: "nat \<Rightarrow> bool"

record phase_response =
  ps_node_id :: string
  ps_job_id :: string
  ps_phase_index :: int
  ps_status :: string
  ps_start_ts_ns :: int
  ps_end_ts_ns :: int
  ps_duration_ms :: rat

definition run_phase_work :: "phase_world \<Rightarrow> int \<Rightarrow> fault_spec option \<Rightarrow> fault_worker list
    \<Rightarrow> (runner_error + unit) \<times> fault_worker list" where
  "run_phase_work w sieve_limit manifest = apply_fault (w_hangs w) manifest
     (\<lambda>_. case run_prime_sieve (w_root w) sieve_limit of None \<Rightarrow> Inl SieveIndexError | Some _ \<Rightarrow> Inr ())"

text \<open>\<open>request.sieve_limit or _config.default_sieve_limit\<close>: a limit of 0 counts as none.\<close>

definition sieve_limit_of :: "runner_config \<Rightarrow> phase_request \<Rightarrow> int" where
  "sieve_limit_of cfg r = (case pr_sieve_limit r of
     None \<Rightarrow> rc_default_sieve_limit cfg
   | Some l \<Rightarrow> if l = 0 then rc_default_sieve_limit cfg else l)"

definition phase_msg :: "runner_config \<Rightarrow> phase_world \<Rightarrow> phase_request \<Rightarrow> string \<Rightarrow> phase_event_msg" where
  "phase_msg cfg w r status = \<lparr>pm_job_id = pr_job_id r, pm_node_id = rc_node_id cfg,
     pm_phase_index = pr_phase_index r, pm_start_ts_ns = w_start_ts w, pm_start_mono_ns = w_start_mono w,
     pm_end_ts_ns = w_end_ts w, pm_end_mono_ns = w_end_mono w, pm_status = status\<rparr>"

text \<open>
  \<open>start_phase\<close>: the response or the exception that becomes a 500, the bytes written to the
  ingestion server, and the fault workers left.
\<close>

definition start_phase :: "runner_config \<Rightarrow> phase_world \<Rightarrow> phase_request \<Rightarrow> fault_worker list
    \<Rightarrow> (runner_error + phase_response) \<times> bytes \<times> fault_worker list" where
  "start_phase cfg w r ws =
     (let (work, ws') = run_phase_work w (sieve_limit_of cfg r) (pr_fault r) ws;
          status = (case work of Inl _ \<Rightarrow> ''error'' | Inr _ \<Rightarrow> ''ok'')
      in case report_phase_event (w_serialize w) (w_connects w) (phase_msg cfg w r status) of
           Inl e \<Rightarrow> (Inl e, [], ws')
         | Inr frame \<Rightarrow> (Inr \<lparr>ps_node_id = rc_node_id cfg, ps_job_id = pr_job_id r,
             ps_phase_index = pr_phase_index r, ps_status = status, ps_start_ts_ns = w_start_ts w,
             ps_end_ts_ns = w_end_ts w,
             ps_duration_ms = rnd (rnd (of_int (w_end_mono w - w_start_mono w)) / 1000000)\<rparr>, frame, ws'))"

section \<open>What a phase does\<close>

text \<open>The status a phase reports: the sieve never fails, so only an unknown fault type does.\<close>

definition known_fault :: "fault_spec option \<Rightarrow> bool" where
  "known_fault f \<longleftrightarrow> (\<forall>m. f = Some m \<longrightarrow> fs_fault_type m \<in> {''cpu_contention'', ''io_stall''})"

definition phase_status :: "phase_request \<Rightarrow> string" where
  "phase_status r = (if known_fault (pr_fault r) then ''ok'' else ''error'')"

lemma apply_fault_result:
  "fst (apply_fault hangs manifest (\<lambda>_. b) ws) = (if known_fault manifest then b else Inl FaultTypeValueError)"
  by (auto simp: apply_fault_def known_fault_def Let_def split: option.split)

lemma sieve_returns:
  assumes "faithful_root rt" and "limit < 2 ^ 53"
  shows "\<exists>n. run_prime_sieve rt limit = Some n"
  using run_prime_sieve_primes [OF assms] by blast

lemma run_phase_work_status:
  assumes "faithful_root (w_root w)" and "limit < 2 ^ 53"
  shows "fst (run_phase_work w limit f ws) = (if known_fault f then Inr () else Inl FaultTypeValueError)"
  using run_prime_sieve_primes [OF assms] by (simp add: run_phase_work_def apply_fault_result)

lemma start_phase_sends:
  assumes "faithful_root (w_root w)" and "sieve_limit_of cfg r < 2 ^ 53"
    and "start_phase cfg w r ws = (res, bs, ws')"
  shows "case report_phase_event (w_serialize w) (w_connects w) (phase_msg cfg w r (phase_status r)) of
      Inl e \<Rightarrow> res = Inl e \<and> bs = []
    | Inr frame \<Rightarrow> bs = frame \<and> (\<exists>resp. res = Inr resp \<and> ps_status resp = phase_status r)"
proof -
  obtain work ws1 where work: "run_phase_work w (sieve_limit_of cfg r) (pr_fault r) ws = (work, ws1)" by fastforce
  then have "(case work of Inl _ \<Rightarrow> ''error'' | Inr _ \<Rightarrow> ''ok'') = phase_status r"
    using run_phase_work_status [OF assms(1,2), of "pr_fault r" ws] by (simp add: phase_status_def)
  then show ?thesis using assms(3) work
    by (auto simp: start_phase_def Let_def split: sum.splits)
qed

text \<open>What arrives at the server is the row of the event.\<close>

lemma report_arrives:
  assumes "report_phase_event serialize connects m = Inr frame"
    and "\<And>pl. serialize m = Some pl \<Longrightarrow> pe pl = Some m"
    and "concat cs = frame" and "[] \<notin> set cs"
  shows "\<exists>s'. handle_connection pb pe clk peer (map Chunk cs) s = (s', None)
    \<and> srv_db s' = insert_phase_event (event_row_of m) (srv_db s)"
proof -
  from assms(1) obtain pl where pl: "serialize m = Some pl" "encode_frame 2 pl = Some frame"
    by (auto simp: report_phase_event_def split: option.splits if_splits)
  let ?f = "\<lparr>tag = 2, payload = pl\<rparr>"
  have parses: "pe pl = Some m" using pl(1) by (rule assms(2))
  have "decode_frame frame = Inr (Some ?f, length frame)"
    using decode_encode [OF pl(2), of "[]"] by (simp add: KNOWN_TAGS_def FRAME_TAG_PHASE_EVENT_def)
  then have "reads decode_frame frame [?f] []" by (rule reads.reads_frame) (simp add: reads.reads_none)
  then have "clean_stream pb pe (concat cs) [?f] []"
    using parses by (simp add: clean_stream_def assms(3) frame_parses_def FRAME_TAG_SAMPLE_BATCH_def FRAME_TAG_PHASE_EVENT_def)
  from handle_connection_clean [OF this assms(4)] show ?thesis
    using parses by (simp add: handle_frame_def handle_phase_event_def FRAME_TAG_SAMPLE_BATCH_def FRAME_TAG_PHASE_EVENT_def)
qed

section \<open>The end of a fault\<close>

text \<open>
  A fault ends with its phase. A fault of a known type is active while the work runs, with
  at least one worker and as many as its intensity asks for; an unknown type raises before the
  work starts. Afterwards no process of the fault is left, and the threads that are left have been
  told to stop and are among those whose join timed out.
\<close>

theorem fault_ends_with_phase:
  assumes "apply_fault hangs manifest body ws = (res, ws')"
  shows "(case manifest of
      None \<Rightarrow> res = body ws \<and> ws' = ws
    | Some m \<Rightarrow> if known_fault manifest
        then (\<exists>kind own left. res = body (ws @ own) \<and> ws' = ws @ left
          \<and> kind = (if fs_fault_type m = ''cpu_contention'' then CpuContention else IoStall)
          \<and> int (length own) = max 1 (fs_intensity m)
          \<and> (\<forall>w\<in>set own. wk_kind w = kind \<and> \<not> wk_stopping w)
          \<and> (\<forall>w\<in>set left. wk_kind w = IoStall \<and> kind = IoStall \<and> wk_stopping w)
          \<and> length left \<le> card {i. i < length own \<and> hangs i})
        else res = Inl FaultTypeValueError \<and> ws' = ws)"
proof (cases manifest)
  case None
  then show ?thesis using assms by (auto simp: apply_fault_def)
next
  case (Some m)
  have left: "\<forall>w\<in>set (stop_io hangs own). wk_kind w = IoStall \<and> wk_stopping w"
    if "\<forall>w\<in>set own. wk_kind w = IoStall" for own
    using that by (auto simp: stop_io_def in_set_enumerate_eq)
  have few: "length (stop_io hangs own) = card {i. i < length own \<and> hangs i}" for own
  proof -
    have "length (filter (\<lambda>(i, w). hangs i) (enumerate 0 own)) = card {i. i < length own \<and> hangs i}"
      by (subst length_filter_conv_card) (auto simp: nth_enumerate_eq intro: arg_cong [where f = card])
    then show ?thesis by (simp add: stop_io_def)
  qed
  show ?thesis
  proof (cases "known_fault manifest")
    case True
    let ?kind = "if fs_fault_type m = ''cpu_contention'' then CpuContention else IoStall"
    let ?own = "start_workers ?kind (fs_intensity m)"
    let ?left = "if ?kind = CpuContention then stop_cpu ?own else stop_io hangs ?own"
    have own: "\<forall>w\<in>set ?own. wk_kind w = ?kind \<and> \<not> wk_stopping w" "int (length ?own) = max 1 (fs_intensity m)"
      by (simp_all add: start_workers_def)
    have "res = body (ws @ ?own) \<and> ws' = ws @ ?left"
      using assms True Some by (auto simp: apply_fault_def known_fault_def Let_def split: if_splits)
    moreover have "\<forall>w\<in>set ?left. wk_kind w = IoStall \<and> ?kind = IoStall \<and> wk_stopping w"
      using left [of ?own] own(1) by (simp add: stop_cpu_def)
    moreover have "length ?left \<le> card {i. i < length ?own \<and> hangs i}"
      by (simp add: few stop_cpu_def)
    ultimately show ?thesis using True Some own by auto
  next
    case False
    then show ?thesis using assms Some by (auto simp: apply_fault_def known_fault_def)
  qed
qed

theorem fault_ends_with_phase_witness:
  "\<exists>left. snd (apply_fault (\<lambda>i. i = 1) (Some \<lparr>fs_fault_type = ''io_stall'', fs_intensity = 4\<rparr>) (\<lambda>_. Inr ()) []) = left
     \<and> (\<forall>w\<in>set left. wk_stopping w)"
proof -
  let ?m = "\<lparr>fs_fault_type = ''io_stall'', fs_intensity = 4\<rparr>"
  obtain res ws' where run: "apply_fault (\<lambda>i. i = 1) (Some ?m) (\<lambda>_. Inr ()) [] = (res :: runner_error + unit, ws')"
    by fastforce
  have "known_fault (Some ?m)" by (simp add: known_fault_def)
  with fault_ends_with_phase [OF run] run show ?thesis by auto
qed

section \<open>A concrete phase\<close>

text \<open>
  Two runners, of the nodes \<open>a\<close> and \<open>b\<close>: \<open>a\<close> is asked for a fault it does not know, and the
  messages of the two are the payloads 3 and 4.
\<close>

definition demo_phase_msg :: "string \<Rightarrow> string \<Rightarrow> phase_event_msg" where
  "demo_phase_msg node status = \<lparr>pm_job_id = ''j'', pm_node_id = node, pm_phase_index = 0, pm_start_ts_ns = 100,
     pm_start_mono_ns = 10, pm_end_ts_ns = 400, pm_end_mono_ns = 310, pm_status = status\<rparr>"

definition demo_serialize :: "phase_event_msg \<Rightarrow> bytes option" where
  "demo_serialize m = (if m = demo_phase_msg ''a'' ''error'' then Some [3]
     else if m = demo_phase_msg ''b'' ''ok'' then Some [4] else None)"

definition demo_parse :: event_parser where
  "demo_parse pl = (if pl = [3] then Some (demo_phase_msg ''a'' ''error'')
     else if pl = [4] then Some (demo_phase_msg ''b'' ''ok'') else None)"

definition demo_world :: phase_world where
  "demo_world = \<lparr>w_start_ts = 100, w_start_mono = 10, w_end_ts = 400, w_end_mono = 310,
     w_serialize = demo_serialize, w_connects = True, w_root = float_sqrt, w_hangs = (\<lambda>_. False)\<rparr>"

definition demo_config :: "string \<Rightarrow> runner_config" where
  "demo_config host = \<lparr>rc_node_id = host, rc_default_sieve_limit = 500000\<rparr>"

definition demo_request :: "string \<Rightarrow> fault_spec option \<Rightarrow> phase_request" where
  "demo_request host f = \<lparr>pr_host = host, pr_job_id = ''j'', pr_phase_index = 0, pr_sieve_limit = Some 1, pr_fault = f\<rparr>"

definition demo_fault :: fault_spec where
  "demo_fault = \<lparr>fs_fault_type = ''disk'', fs_intensity = 2\<rparr>"

lemma demo_inverse: "demo_serialize m = Some pl \<Longrightarrow> demo_parse pl = Some m"
  by (auto simp: demo_serialize_def demo_parse_def split: if_splits)

lemma demo_encode: "encode_frame 2 [x] = Some [2, 0, 0, 0, 1, x]"
proof -
  have "be_bytes 4 1 = [0, 0, 0, 1]" by code_simp
  then show ?thesis by (simp add: encode_frame_def to_bytes_big_def)
qed

lemma demo_start_phase:
  "\<exists>resp ws. start_phase (demo_config ''a'') demo_world (demo_request ''a'' (Some demo_fault)) [] = (Inr resp, [2, 0, 0, 0, 1, 3], ws)"
  "\<exists>resp ws. start_phase (demo_config ''b'') demo_world (demo_request ''b'' None) [] = (Inr resp, [2, 0, 0, 0, 1, 4], ws)"
  by (simp_all add: start_phase_def run_phase_work_def apply_fault_def demo_request_def demo_fault_def Let_def
      sieve_limit_of_def run_prime_sieve_def report_phase_event_def demo_world_def demo_serialize_def
      demo_phase_msg_def phase_msg_def demo_config_def demo_encode)

section \<open>A report reaches the store\<close>

text \<open>
  From the runner to the store: when a phase ends with a response, the server that reads
  what the runner has written, in whatever chunks the network delivers it, adds exactly the
  event of that phase to the store, unless the node has reported the phase before, and ends the
  connection without an error; the status is that of the response, and it is \<open>error\<close> exactly when
  the fault type is unknown, since the sieve itself cannot fail.
\<close>

theorem phase_report_stored:
  assumes "start_phase cfg w r ws = (Inr resp, bs, ws')"
    and "\<And>x a. 0 < x \<Longrightarrow> 0 \<le> a \<Longrightarrow> rnd a = a \<Longrightarrow> a * a \<le> x \<Longrightarrow> a \<le> w_root w x"
    and "\<And>x a. 0 < x \<Longrightarrow> 0 \<le> a \<Longrightarrow> rnd a = a \<Longrightarrow> x \<le> a * a \<Longrightarrow> w_root w x \<le> a"
    and "sieve_limit_of cfg r < 2 ^ 53"
    and "\<And>m pl. w_serialize w m = Some pl \<Longrightarrow> pe pl = Some m"
    and "concat cs = bs" and "[] \<notin> set cs"
  shows "\<exists>s'. handle_connection pb pe clk peer (map Chunk cs) s = (s', None)
    \<and> srv_db s' = insert_phase_event \<lparr>er_job_id = pr_job_id r, er_node_id = rc_node_id cfg,
          er_phase_index = pr_phase_index r, er_start_ts_ns = w_start_ts w, er_start_mono_ns = w_start_mono w,
          er_end_ts_ns = w_end_ts w, er_end_mono_ns = w_end_mono w, er_status = ps_status resp\<rparr> (srv_db s)
    \<and> ps_status resp = (if known_fault (pr_fault r) then ''ok'' else ''error'')"
proof -
  let ?m = "phase_msg cfg w r (phase_status r)"
  have "faithful_root (w_root w)" by (rule faithful_root.intro [OF assms(2,3)])
  from start_phase_sends [OF this assms(4,1)]
  have rep: "report_phase_event (w_serialize w) (w_connects w) ?m = Inr bs" and st: "ps_status resp = phase_status r"
    by (auto split: sum.splits)
  obtain s' where "handle_connection pb pe clk peer (map Chunk cs) s = (s', None)"
    "srv_db s' = insert_phase_event (event_row_of ?m) (srv_db s)"
    using report_arrives [OF rep _ assms(6,7), where pe = pe and pb = pb] assms(5) by blast
  then show ?thesis using st by (simp add: event_row_of_def phase_msg_def phase_status_def)
qed

theorem phase_report_stored_witness:
  "\<exists>s'. handle_connection demo_pb demo_parse demo_clock ''p'' [Chunk [2, 0], Chunk [0, 0, 1, 3]] demo_server = (s', None)
     \<and> map er_status (phase_events (srv_db s')) = [''error'']"
proof -
  let ?r = "demo_request ''a'' (Some demo_fault)"
  obtain resp ws where run: "start_phase (demo_config ''a'') demo_world ?r [] = (Inr resp, [2, 0, 0, 0, 1, 3], ws)"
    using demo_start_phase(1) by blast
  have unknown: "\<not> known_fault (pr_fault ?r)" by (simp add: known_fault_def demo_request_def demo_fault_def)
  have limit: "sieve_limit_of (demo_config ''a'') ?r < 2 ^ 53" by (simp add: sieve_limit_of_def demo_request_def)
  have "\<exists>s'. handle_connection demo_pb demo_parse demo_clock ''p'' (map Chunk [[2, 0], [0, 0, 1, 3]]) demo_server = (s', None)
    \<and> srv_db s' = insert_phase_event \<lparr>er_job_id = pr_job_id ?r, er_node_id = rc_node_id (demo_config ''a''),
          er_phase_index = pr_phase_index ?r, er_start_ts_ns = w_start_ts demo_world, er_start_mono_ns = w_start_mono demo_world,
          er_end_ts_ns = w_end_ts demo_world, er_end_mono_ns = w_end_mono demo_world, er_status = ps_status resp\<rparr> (srv_db demo_server)
    \<and> ps_status resp = (if known_fault (pr_fault ?r) then ''ok'' else ''error'')"
    by (rule phase_report_stored [OF run _ _ limit])
      (simp_all add: demo_world_def libm.root_above libm.root_below demo_inverse)
  then show ?thesis using unknown
    by (auto simp: insert_phase_event_def insert_event_row_def insert_or_ignore_def demo_server_def empty_db_def)
qed

end
