(* ===== verification/Rack.thy ===== *)
theory Rack
  imports Workload
begin

text \<open>
  The rack: the job orchestrator, the workload runners of its hosts and the ingestion server
  together. While the requests of a phase are sent, every runner does the work of its request
  and reports over a connection of its own to the server, whose handler stores the event that
  the orchestrator then counts.
\<close>

record rack =
  rk_pb :: batch_parser
  rk_pe :: event_parser
  rk_clock :: clock
  rk_peer :: "string \<Rightarrow> string"
  rk_split :: "bytes \<Rightarrow> bytes list"
  rk_config :: "string \<Rightarrow> runner_config"
  rk_world :: "phase_request \<Rightarrow> phase_world"

section \<open>A runner and the server\<close>

text \<open>
  One request at its host: the runner runs the phase, and what it writes reaches the server in
  the chunks into which the network splits it. Without a connection the server sees nothing.
\<close>

definition serve_request :: "rack \<Rightarrow> phase_request \<Rightarrow> server \<Rightarrow> server" where
  "serve_request rk r s = (case start_phase (rk_config rk (pr_host r)) (rk_world rk r) r [] of
     (_, bs, _) \<Rightarrow> if bs = [] then s
       else fst (handle_connection (rk_pb rk) (rk_pe rk) (rk_clock rk) (rk_peer rk (pr_host r))
              (map Chunk (rk_split rk bs)) s))"

definition phase_requests :: "fault_manifest option \<Rightarrow> string \<Rightarrow> int option \<Rightarrow> string list \<Rightarrow> int \<Rightarrow> phase_request list" where
  "phase_requests manifest job sieve hosts k = map (request_to manifest job sieve k) hosts"

text \<open>What the reports of the \<open>k\<close>-th phase do to the server while its \<open>gather\<close> is awaited.\<close>

definition rack_phase :: "rack \<Rightarrow> fault_manifest option \<Rightarrow> string \<Rightarrow> int option \<Rightarrow> string list \<Rightarrow> nat \<Rightarrow> server \<Rightarrow> server" where
  "rack_phase rk manifest job sieve hosts k =
     fold (serve_request rk) (phase_requests manifest job sieve hosts (int k))"

text \<open>
  The other tasks of the process (agents that send samples, the rollup refresh) run during the
  same await: they may do anything to the samples, the rollups, the log and the clock.
\<close>

definition same_jobs :: "server \<Rightarrow> server \<Rightarrow> bool" where
  "same_jobs s s' \<longleftrightarrow> jobs (srv_db s) = jobs (srv_db s') \<and> phase_events (srv_db s) = phase_events (srv_db s')"

lemma same_jobs_refl [simp]: "same_jobs s s"
  by (simp add: same_jobs_def)

text \<open>The row of the event a request leads to.\<close>

definition report_row :: "rack \<Rightarrow> phase_request \<Rightarrow> phase_event_row" where
  "report_row rk r = event_row_of (phase_msg (rk_config rk (pr_host r)) (rk_world rk r) r (phase_status r))"

lemma report_row_key [simp]:
  "event_key (report_row rk (request_to manifest job sieve k h)) = (job, rc_node_id (rk_config rk h), k)"
  by (simp add: report_row_def event_key_def event_row_of_def phase_msg_def request_to_def)

lemma report_row_of_phase [simp]:
  "of_phase job j (report_row rk (request_to manifest job sieve k h)) \<longleftrightarrow> j = k"
  by (auto simp: report_row_def of_phase_def event_row_of_def phase_msg_def request_to_def)

text \<open>
  A rack that works for a request: the phase ends with a response, the power function and the
  limit are those of the sieve's theorem, the parser inverts the serialisation, and the network
  splits the stream into chunks.
\<close>

definition request_works :: "rack \<Rightarrow> phase_request \<Rightarrow> bool" where
  "request_works rk r \<longleftrightarrow>
     (\<exists>resp bs ws. start_phase (rk_config rk (pr_host r)) (rk_world rk r) r [] = (Inr resp, bs, ws))
   \<and> faithful_root (w_root (rk_world rk r)) \<and> sieve_limit_of (rk_config rk (pr_host r)) r < 2 ^ 53
   \<and> (\<forall>m pl. w_serialize (rk_world rk r) m = Some pl \<longrightarrow> rk_pe rk pl = Some m)
   \<and> (\<forall>bs. concat (rk_split rk bs) = bs \<and> [] \<notin> set (rk_split rk bs))"

lemma serve_request_stores:
  assumes "request_works rk r"
  shows "srv_db (serve_request rk r s) = insert_phase_event (report_row rk r) (srv_db s)"
proof -
  let ?cfg = "rk_config rk (pr_host r)" and ?w = "rk_world rk r"
  let ?m = "phase_msg ?cfg ?w r (phase_status r)"
  obtain resp bs ws where run: "start_phase ?cfg ?w r [] = (Inr resp, bs, ws)"
    using assms by (auto simp: request_works_def)
  have "faithful_root (w_root ?w)" "sieve_limit_of ?cfg r < 2 ^ 53" using assms by (simp_all add: request_works_def)
  from start_phase_sends [OF this run] have rep: "report_phase_event (w_serialize ?w) (w_connects ?w) ?m = Inr bs"
    by (auto split: sum.splits)
  then have "bs \<noteq> []" by (auto simp: report_phase_event_def encode_frame_Some split: option.splits if_splits)
  moreover have "\<exists>s'. handle_connection (rk_pb rk) (rk_pe rk) (rk_clock rk) (rk_peer rk (pr_host r)) (map Chunk (rk_split rk bs)) s = (s', None)
      \<and> srv_db s' = insert_phase_event (event_row_of ?m) (srv_db s)"
    by (rule report_arrives [OF rep]) (use assms in \<open>simp_all add: request_works_def\<close>)
  ultimately show ?thesis using run by (auto simp: serve_request_def report_row_def)
qed

lemma serve_requests_store:
  "\<forall>r\<in>set rs. request_works rk r \<Longrightarrow>
   srv_db (fold (serve_request rk) rs s) = (srv_db s)\<lparr>phase_events := fold insert_event_row (map (report_row rk) rs) (phase_events (srv_db s))\<rparr>"
  by (induction rs arbitrary: s) (simp_all add: serve_request_stores insert_phase_event_def)

section \<open>The phases of a job\<close>

lemma wait_immediate:
  assumes "n \<le> reports job k st"
  shows "wait_for_phase_reports env job k n st = Some (True, tick (tick st))"
  using assms by (simp add: wait_for_phase_reports_def wait_loop.simps)

definition job_rows :: "rack \<Rightarrow> fault_manifest option \<Rightarrow> string \<Rightarrow> int option \<Rightarrow> string list \<Rightarrow> int list \<Rightarrow> phase_event_row list" where
  "job_rows rk manifest job sieve hosts ks =
     concat (map (\<lambda>k. map (report_row rk) (phase_requests manifest job sieve hosts k)) ks)"

text \<open>One phase: its events are appended, and the wait returns at once.\<close>

lemma rack_one_phase:
  assumes "same_jobs (ev_other env (o_await st) (o_srv st)) (rack_phase rk manifest job sieve hosts (nat k) (o_srv st))" and "0 \<le> k"
    and "\<forall>r\<in>set (phase_requests manifest job sieve hosts k). request_works rk r \<and> ev_post env r \<noteq> OtherError"
    and "distinct (map (\<lambda>h. rc_node_id (rk_config rk h)) hosts)"
    and "\<forall>e\<in>set (phase_events (srv_db (o_srv st))). \<not> of_phase job k e"
  shows "\<exists>st1. gather_dispatches env (phase_requests manifest job sieve hosts k) st = (None, st1)
    \<and> o_await st1 = Suc (o_await st) \<and> length hosts \<le> reports job k st1
    \<and> jobs (srv_db (o_srv st1)) = jobs (srv_db (o_srv st))
    \<and> phase_events (srv_db (o_srv st1)) = phase_events (srv_db (o_srv st)) @ job_rows rk manifest job sieve hosts [k]"
proof -
  let ?rs = "phase_requests manifest job sieve hosts k" and ?E = "phase_events (srv_db (o_srv st))"
  let ?st1 = "snd (gather_dispatches env ?rs st)"
  have "fst (gather_dispatches env ?rs st) = None" using assms(3) by (auto simp: gather_dispatches_def Let_def)
  then have g: "gather_dispatches env ?rs st = (None, ?st1)" by (metis prod.collapse)
  have "fold insert_event_row (map (report_row rk) ?rs) ?E = ?E @ map (report_row rk) ?rs"
  proof (rule pe.fold_fresh)
    show "distinct (map event_key (map (report_row rk) ?rs))"
      using assms(4) by (auto simp: phase_requests_def comp_def distinct_map inj_on_def)
    show "event_key ` set ?E \<inter> event_key ` set (map (report_row rk) ?rs) = {}"
    proof (rule Int_emptyI)
      fix y
      assume y: "y \<in> event_key ` set ?E" and "y \<in> event_key ` set (map (report_row rk) ?rs)"
      then obtain h where "y = (job, rc_node_id (rk_config rk h), k)"
        unfolding phase_requests_def set_map by (elim imageE) simp
      with y show False using assms(5) by (auto simp: event_key_def of_phase_def)
    qed
  qed simp
  then have db: "jobs (srv_db (o_srv ?st1)) = jobs (srv_db (o_srv st))"
    "phase_events (srv_db (o_srv ?st1)) = ?E @ job_rows rk manifest job sieve hosts [k]"
    using assms(1,2,3)
    by (simp_all add: same_jobs_def gather_dispatches_def Let_def rack_phase_def serve_requests_store job_rows_def)
  then have "length hosts \<le> reports job k ?st1"
    by (simp add: reports_def count_phase_reports_def job_rows_def phase_requests_def filter_map comp_def)
  moreover have "o_await ?st1 = Suc (o_await st)" by (simp add: gather_dispatches_def Let_def await_def on_srv_def)
  ultimately show ?thesis using g db by blast
qed

lemma rack_run:
  assumes "\<forall>k\<in>{i..<n}. \<forall>s. same_jobs (ev_other env (nat k) s) (rack_phase rk manifest job sieve hosts (nat k) s)" and "0 \<le> i"
    and "\<forall>k\<in>{i..<n}. \<forall>r\<in>set (phase_requests manifest job sieve hosts k). request_works rk r \<and> ev_post env r \<noteq> OtherError"
    and "distinct (map (\<lambda>h. rc_node_id (rk_config rk h)) hosts)"
    and "\<forall>m. manifest = Some m \<longrightarrow> fm_fault_type m \<noteq> None"
    and "o_await st = nat i" and "\<forall>e\<in>set (phase_events (srv_db (o_srv st))). \<forall>k\<in>{i..<n}. \<not> of_phase job k e"
  shows "\<exists>st'. run_phases env job hosts sieve manifest [i..n - 1] st = Some (Inr (), st')
    \<and> jobs (srv_db (o_srv st')) = jobs (set_job_status job ''completed'' (srv_db (o_srv st)))
    \<and> phase_events (srv_db (o_srv st')) = phase_events (srv_db (o_srv st)) @ job_rows rk manifest job sieve hosts [i..n - 1]"
  using assms
proof (induction "nat (n - i)" arbitrary: i st)
  case 0
  then show ?case by (simp add: finish_job_def job_rows_def set_job_status_def)
next
  case (Suc x)
  then have i: "i < n" by simp
  then have split: "[i..n - 1] = i # [i + 1..n - 1]" by (simp add: upto_rec1)
  let ?E = "phase_events (srv_db (o_srv st))" and ?new = "job_rows rk manifest job sieve hosts [i]"
  obtain st1 where g: "gather_dispatches env (phase_requests manifest job sieve hosts i) st = (None, st1)"
    and aw: "o_await st1 = Suc (o_await st)" and reps: "length hosts \<le> reports job i st1"
    and db: "jobs (srv_db (o_srv st1)) = jobs (srv_db (o_srv st))" "phase_events (srv_db (o_srv st1)) = ?E @ ?new"
  proof -
    have "i \<in> {i..<n}" using i by simp
    from bspec [OF Suc.prems(1) this] bspec [OF Suc.prems(3) this] bspec [OF _ this] Suc.prems(2,4,6,7)
    have "same_jobs (ev_other env (o_await st) (o_srv st)) (rack_phase rk manifest job sieve hosts (nat i) (o_srv st))"
      "\<forall>e\<in>set ?E. \<not> of_phase job i e"
      "\<forall>r\<in>set (phase_requests manifest job sieve hosts i). request_works rk r \<and> ev_post env r \<noteq> OtherError"
      using \<open>i \<in> {i..<n}\<close> by auto
    from rack_one_phase [OF this(1) Suc.prems(2) this(3) Suc.prems(4) this(2)] that show thesis by blast
  qed
  obtain rs where rs: "build_dispatches manifest job sieve i hosts = Inr rs"
    using build_dispatches_Inl [of manifest job sieve i hosts] Suc.prems(5)
    by (cases "build_dispatches manifest job sieve i hosts") auto
  then have req: "rs = phase_requests manifest job sieve hosts i"
    using build_dispatches_Inr by (simp add: phase_requests_def)
  let ?st2 = "tick (tick st1)"
  have sub: "k \<in> {i..<n}" if "k \<in> {i + 1..<n}" for k using that by simp
  have events: "\<forall>e\<in>set (phase_events (srv_db (o_srv ?st2))). \<forall>k\<in>{i + 1..<n}. \<not> of_phase job k e"
    using Suc.prems(7) by (auto simp: db job_rows_def phase_requests_def)
  have "\<exists>st'. run_phases env job hosts sieve manifest [i + 1..n - 1] ?st2 = Some (Inr (), st')
    \<and> jobs (srv_db (o_srv st')) = jobs (set_job_status job ''completed'' (srv_db (o_srv ?st2)))
    \<and> phase_events (srv_db (o_srv st')) = phase_events (srv_db (o_srv ?st2)) @ job_rows rk manifest job sieve hosts [i + 1..n - 1]"
  proof (rule Suc.hyps(1) [OF _ _ _ _ Suc.prems(4,5) _ events])
    show "\<forall>k\<in>{i + 1..<n}. \<forall>s. same_jobs (ev_other env (nat k) s) (rack_phase rk manifest job sieve hosts (nat k) s)"
      using Suc.prems(1) sub by blast
    show "\<forall>k\<in>{i + 1..<n}. \<forall>r\<in>set (phase_requests manifest job sieve hosts k).
        request_works rk r \<and> ev_post env r \<noteq> OtherError" using Suc.prems(3) sub by blast
  qed (use Suc.hyps(2) Suc.prems(2,6) aw in \<open>simp_all add: tick_def\<close>)
  then obtain st' where st': "run_phases env job hosts sieve manifest [i + 1..n - 1] ?st2 = Some (Inr (), st')"
    "jobs (srv_db (o_srv st')) = jobs (set_job_status job ''completed'' (srv_db (o_srv ?st2)))"
    "phase_events (srv_db (o_srv st')) = phase_events (srv_db (o_srv ?st2)) @ job_rows rk manifest job sieve hosts [i + 1..n - 1]"
    by blast
  have "run_phases env job hosts sieve manifest [i..n - 1] st = Some (Inr (), st')"
    unfolding split using rs g wait_immediate [OF reps] st'(1) by (simp add: req)
  then show ?case using st'(2,3) unfolding split by (auto simp: db job_rows_def set_job_status_def)
qed

lemma store_get_job_cong: "jobs d = jobs d' \<Longrightarrow> store_get_job job d = store_get_job job d'"
  by (simp add: store_get_job_def)

section \<open>The property\<close>

text \<open>
  C18. A rack that works completes its jobs. When every runner answers and its report reaches
  the server while the phase's requests are sent, whatever the agents and the rollup refresh do
  meanwhile, the job ends, is stored as \<open>completed\<close>, and
  exactly one event per phase and host is added to the store, with the host's node and the
  readings of its clocks. The status of an event is \<open>error\<close> where the fault type is unknown to
  the runner, and the job is \<open>completed\<close> all the same.
\<close>

theorem rack_completes_job:
  assumes "\<forall>k\<in>{0..<phase_count}. \<forall>s. same_jobs (ev_other env (nat k) s) (rack_phase rk manifest job sieve hosts (nat k) s)"
    and "\<forall>k\<in>{0..<phase_count}. \<forall>r\<in>set (phase_requests manifest job sieve hosts k).
           request_works rk r \<and> ev_post env r \<noteq> OtherError"
    and "distinct (map (\<lambda>h. rc_node_id (rk_config rk h)) hosts)"
    and "\<forall>m. manifest = Some m \<longrightarrow> fm_fault_type m \<noteq> None"
    and "o_await st = 0" and "\<forall>e\<in>set (phase_events (srv_db (o_srv st))). er_job_id e \<noteq> job"
    and "store_get_job job (srv_db (o_srv st)) = Some row"
  shows "\<exists>st'. execute_job env job hosts phase_count sieve manifest st = Some (Inr (), st')
    \<and> store_get_job job (srv_db (o_srv st')) = Some (row\<lparr>jr_status := ''completed''\<rparr>)
    \<and> phase_events (srv_db (o_srv st')) = phase_events (srv_db (o_srv st))
        @ concat (map (\<lambda>k. map (\<lambda>h. event_row_of (phase_msg (rk_config rk h) (rk_world rk (request_to manifest job sieve k h))
             (request_to manifest job sieve k h)
             (if known_fault (fault_of manifest h k) then ''ok'' else ''error''))) hosts) [0..phase_count - 1])"
proof -
  have "\<forall>e\<in>set (phase_events (srv_db (o_srv st))). \<forall>k\<in>{0..<phase_count}. \<not> of_phase job k e"
    using assms(6) by (simp add: of_phase_def)
  from rack_run [OF assms(1) order_refl assms(2,3,4) _ this] assms(5)
  obtain st' where run: "run_phases env job hosts sieve manifest [0..phase_count - 1] st = Some (Inr (), st')"
    and db: "jobs (srv_db (o_srv st')) = jobs (set_job_status job ''completed'' (srv_db (o_srv st)))"
      "phase_events (srv_db (o_srv st')) = phase_events (srv_db (o_srv st)) @ job_rows rk manifest job sieve hosts [0..phase_count - 1]"
    by auto
  have "store_get_job job (srv_db (o_srv st')) = Some (row\<lparr>jr_status := ''completed''\<rparr>)"
    using assms(7) store_get_job_cong [OF db(1)] by (simp add: set_job_status_find)
  moreover have "report_row rk (request_to manifest job sieve k h) = event_row_of (phase_msg (rk_config rk h)
      (rk_world rk (request_to manifest job sieve k h)) (request_to manifest job sieve k h)
      (if known_fault (fault_of manifest h k) then ''ok'' else ''error''))" for k h
    by (simp add: report_row_def phase_status_def request_to_def)
  then have "phase_events (srv_db (o_srv st')) = phase_events (srv_db (o_srv st))
        @ concat (map (\<lambda>k. map (\<lambda>h. event_row_of (phase_msg (rk_config rk h) (rk_world rk (request_to manifest job sieve k h))
             (request_to manifest job sieve k h)
             (if known_fault (fault_of manifest h k) then ''ok'' else ''error''))) hosts) [0..phase_count - 1])"
    by (simp add: db(2) job_rows_def phase_requests_def comp_def)
  ultimately show ?thesis using run unfolding execute_job_def by blast
qed

text \<open>
  Two hosts, one of which gets a fault it does not know; the network delivers single bytes.
\<close>

definition demo_rack :: rack where
  "demo_rack = \<lparr>rk_pb = demo_pb, rk_pe = demo_parse, rk_clock = demo_clock, rk_peer = (\<lambda>h. h),
     rk_split = map (\<lambda>b. [b]), rk_config = demo_config, rk_world = (\<lambda>_. demo_world)\<rparr>"

definition demo_manifest :: fault_manifest where
  "demo_manifest = \<lparr>fm_target_host = Some ''a'', fm_phase_index = Some 0, fm_fault_type = Some ''disk'', fm_intensity = None\<rparr>"

definition demo_rack_env :: environment where
  "demo_rack_env = \<lparr>ev_mono = of_nat,
     ev_other = rack_phase demo_rack (Some demo_manifest) ''j'' (Some 1) [''a'', ''b''],
     ev_post = (\<lambda>_. PostOk), ev_finish = (\<lambda>rs. rs)\<rparr>"

lemma demo_requests:
  "phase_requests (Some demo_manifest) ''j'' (Some 1) [''a'', ''b''] 0 = [demo_request ''a'' (Some demo_fault), demo_request ''b'' None]"
  by (simp add: phase_requests_def request_to_def fault_of_def fault_for_host_def demo_manifest_def demo_request_def demo_fault_def)

lemma demo_works:
  assumes "r = demo_request ''a'' (Some demo_fault) \<or> r = demo_request ''b'' None"
  shows "request_works demo_rack r"
proof -
  have "concat (map (\<lambda>b. [b]) bs) = bs" for bs :: bytes by (induction bs) simp_all
  moreover have "sieve_limit_of (demo_config h) (demo_request h f) < 2 ^ 53" for h f
    by (simp add: sieve_limit_of_def demo_request_def)
  moreover have "pr_host (demo_request h f) = h" for h f by (simp add: demo_request_def)
  moreover have "rk_config demo_rack = demo_config" "rk_world demo_rack r = demo_world" "rk_pe demo_rack = demo_parse"
    "rk_split demo_rack = map (\<lambda>b. [b])" by (simp_all add: demo_rack_def)
  moreover have "w_root demo_world = float_sqrt" "w_serialize demo_world = demo_serialize" by (simp_all add: demo_world_def)
  ultimately show ?thesis using assms demo_start_phase demo_inverse libm.faithful_root_axioms
    unfolding request_works_def by fastforce
qed

theorem rack_completes_job_witness:
  "\<exists>st'. execute_job demo_rack_env ''j'' [''a'', ''b''] 1 (Some 1) (Some demo_manifest) demo_orchestrator = Some (Inr (), st')
     \<and> store_get_job ''j'' (srv_db (o_srv st')) = Some (demo_row\<lparr>jr_status := ''completed''\<rparr>)
     \<and> map er_status (phase_events (srv_db (o_srv st'))) = [''error'', ''ok'']"
proof -
  have phases: "{0..<1} = {0 :: int}" by auto
  have other: "\<forall>k\<in>{0..<1}. \<forall>s. same_jobs (ev_other demo_rack_env (nat k) s)
      (rack_phase demo_rack (Some demo_manifest) ''j'' (Some 1) [''a'', ''b''] (nat k) s)"
    by (simp add: demo_rack_env_def)
  have works: "\<forall>k\<in>{0..<1}. \<forall>r\<in>set (phase_requests (Some demo_manifest) ''j'' (Some 1) [''a'', ''b''] k).
      request_works demo_rack r \<and> ev_post demo_rack_env r \<noteq> OtherError"
    unfolding phases using demo_works by (simp add: demo_requests demo_rack_env_def)
  have nodes: "distinct (map (\<lambda>h. rc_node_id (rk_config demo_rack h)) [''a'', ''b''])"
    by (simp add: demo_rack_def demo_config_def)
  have job: "store_get_job ''j'' (srv_db (o_srv demo_orchestrator)) = Some demo_row"
    by (simp add: demo_orchestrator_def store_get_job_def demo_row_def)
  have "o_await demo_orchestrator = 0" "phase_events (srv_db (o_srv demo_orchestrator)) = []"
    by (simp_all add: demo_orchestrator_def empty_db_def)
  with rack_completes_job [OF other works nodes _ _ _ job]
  show ?thesis by (fastforce simp: demo_manifest_def event_row_of_def phase_msg_def fault_of_def fault_for_host_def known_fault_def)
qed

end
