(* ===== verification/Straggler.thy ===== *)
theory Straggler
  imports Py_Float "HOL-Library.Monad_Syntax"
begin

text \<open>
  \<open>ingestion/src/hpctel/analysis/straggler.py\<close>: the ranking of a phase's nodes by the
  modified z-score of their durations, and the root-cause tag. The dict of durations is an
  association list with distinct keys in insertion order. Durations are integers and the float
  arithmetic is that of \<open>Py_Numbers\<close>: the median of an even number of nodes is a float, so the
  differences, the MAD and the z-scores are rounded exactly where Python rounds them. \<open>None\<close>
  is an exception (no data for a median, a division by zero); \<open>rank_stragglers_status\<close> shows
  that none is ever raised.
\<close>

section \<open>The ranking\<close>

definition MAD_Z_THRESHOLD :: rat where "MAD_Z_THRESHOLD = 7/2"
definition MAD_CONSTANT :: rat where "MAD_CONSTANT = rnd (6745/10000)"
definition MAD_FLOOR_NS :: int where "MAD_FLOOR_NS = 1000000"
definition MIN_REPORTING_NODES :: nat where "MIN_REPORTING_NODES = 3"
definition ROOT_CAUSE_RELATIVE_THRESHOLD :: pyfloat where "ROOT_CAUSE_RELATIVE_THRESHOLD = Fin (1/4)"

record ranked_node =
  rn_node_id :: string
  rn_duration_ns :: int
  rn_z_score :: rat
  rn_flagged :: bool

datatype report_status = Ranked | InsufficientEvidence

record straggler_report =
  rep_job_id :: string
  rep_phase_index :: int
  rep_status :: report_status
  rep_ranked_nodes :: "ranked_node list"
  rep_top_candidate :: "string option"
  rep_naive_baseline_candidate :: "string option"
  rep_root_cause :: "string option"

text \<open>The median of the durations, and their median absolute deviation with its floor.\<close>

definition median_and_mad :: "int list \<Rightarrow> (pynum \<times> pynum) option" where
  "median_and_mad values = do {
     median \<leftarrow> statistics_median (map PInt values);
     mad \<leftarrow> statistics_median (map (\<lambda>v. num_abs (num_sub (PInt v) median)) values);
     Some (median, num_max mad (PInt MAD_FLOOR_NS)) }"

definition z_score :: "pynum \<Rightarrow> pynum \<Rightarrow> int \<Rightarrow> rat option" where
  "z_score median mad d =
     map_option num_val (num_div (num_mul (PFloat MAD_CONSTANT) (num_sub (PInt d) median)) mad)"

definition rank_stragglers :: "string \<Rightarrow> int \<Rightarrow> (string \<times> int) list \<Rightarrow> straggler_report option" where
  "rank_stragglers job phase durations =
     (if length durations < MIN_REPORTING_NODES
      then Some \<lparr>rep_job_id = job, rep_phase_index = phase, rep_status = InsufficientEvidence,
                 rep_ranked_nodes = [], rep_top_candidate = None,
                 rep_naive_baseline_candidate = None, rep_root_cause = None\<rparr>
      else do {
        (median, mad) \<leftarrow> median_and_mad (map snd durations);
        z_scores \<leftarrow> those (map (\<lambda>(n, d). map_option (\<lambda>z. (n, d, z)) (z_score median mad d)) durations);
        let ordered = sort_key (\<lambda>(n, d, z). (- z, n)) z_scores;
            ranked_nodes = map (\<lambda>(n, d, z). \<lparr>rn_node_id = n, rn_duration_ns = d, rn_z_score = z,
                                  rn_flagged = MAD_Z_THRESHOLD < z\<rparr>) ordered;
            flagged = filter rn_flagged ranked_nodes
         in do {
        naive \<leftarrow> py_max (<) (\<lambda>(n, d). (d, n)) durations;
        Some \<lparr>rep_job_id = job, rep_phase_index = phase, rep_status = Ranked,
              rep_ranked_nodes = ranked_nodes,
              rep_top_candidate = (case flagged of [] \<Rightarrow> None | rn # _ \<Rightarrow> Some (rn_node_id rn)),
              rep_naive_baseline_candidate = Some (fst naive), rep_root_cause = None\<rparr> }})"

section \<open>The root-cause tag\<close>

definition tag_root_cause :: "pyfloat option \<Rightarrow> pyfloat option \<Rightarrow> pyfloat option \<Rightarrow> string" where
  "tag_root_cause cpu_pct_delta iowait_pct_delta net_bytes_s_delta =
     (let candidates = [(''CPU_CONTENTION'', cpu_pct_delta), (''IO_STALL'', iowait_pct_delta),
                        (''NETWORK'', net_bytes_s_delta)];
          measurable = List.map_filter (\<lambda>(tag, delta). map_option (Pair tag) delta) candidates
      in case py_max fl_less snd measurable of
           None \<Rightarrow> ''UNKNOWN''
         | Some (best_tag, best_delta) \<Rightarrow>
             if fl_less ROOT_CAUSE_RELATIVE_THRESHOLD best_delta then best_tag else ''UNKNOWN'')"

section \<open>The z-score as a function of the duration\<close>

text \<open>The difference from the median that enters the float product.\<close>

definition deviation :: "pynum \<Rightarrow> int \<Rightarrow> rat" where
  "deviation median d = num_float (num_sub (PInt d) median)"

definition z_value :: "pynum \<Rightarrow> pynum \<Rightarrow> int \<Rightarrow> rat" where
  "z_value median mad d = rnd (rnd (MAD_CONSTANT * deviation median d) / num_float mad)"

lemma z_score_eq: "num_val mad \<noteq> 0 \<Longrightarrow> z_score median mad d = Some (z_value median mad d)"
  by (cases median; cases mad) (simp_all add: z_score_def z_value_def deviation_def)

lemma MAD_CONSTANT_bounds: "6744999/10000000 \<le> MAD_CONSTANT" "MAD_CONSTANT \<le> 6745001/10000000"
  unfolding MAD_CONSTANT_def by code_simp+

lemma MAD_CONSTANT_pos: "0 < MAD_CONSTANT"
  using MAD_CONSTANT_bounds by simp

lemma deviation_mono: "d \<le> d' \<Longrightarrow> deviation median d \<le> deviation median d'"
  by (cases median) (simp_all add: deviation_def rnd_mono)

lemma num_float_pos: "0 \<le> num_val x \<Longrightarrow> 0 \<le> num_float x"
  by (cases x) (simp_all add: b64.nonneg)

lemma z_value_mono:
  "0 \<le> num_val mad \<Longrightarrow> d \<le> d' \<Longrightarrow> z_value median mad d \<le> z_value median mad d'"
  unfolding z_value_def using MAD_CONSTANT_pos
  by (intro b64.div_mono b64.mult_mono deviation_mono num_float_pos) simp_all

lemma z_value_pos_dev:
  assumes "0 < z_value median mad d" and "0 \<le> num_val mad"
  shows "0 < deviation median d"
proof -
  have "0 < rnd (MAD_CONSTANT * deviation median d) / num_float mad"
    using assms(1) unfolding z_value_def by (rule b64.positive_arg)
  then have "0 < rnd (MAD_CONSTANT * deviation median d)"
    using num_float_pos [OF assms(2)] by (simp add: zero_less_divide_iff)
  then have "0 < MAD_CONSTANT * deviation median d" by (rule b64.positive_arg)
  then show ?thesis using MAD_CONSTANT_pos by (simp add: zero_less_mult_iff)
qed

text \<open>A flagged duration is above the median, so its z-score is positive.\<close>

lemma deviation_pos_iff: "0 < deviation (PInt m) d \<Longrightarrow> m < d"
  using b64.positive_arg [of "of_int (d - m)"] by (simp add: deviation_def)

lemma deviation_pos_float: "0 < deviation (PFloat (rnd q)) d \<Longrightarrow> q < of_int d"
proof (rule ccontr)
  assume "0 < deviation (PFloat (rnd q)) d" and "\<not> q < of_int d"
  moreover have "rnd (of_int d) \<le> rnd q" if "of_int d \<le> q" using that by (rule rnd_mono)
  moreover have "0 < rnd (of_int d) - rnd q" if "0 < rnd (rnd (of_int d) - rnd q)"
    using that by (rule b64.positive_arg)
  ultimately show False by (simp add: deviation_def not_less)
qed

section \<open>Medians of integers\<close>

lemma median_ints:
  assumes "vs \<noteq> []"
  shows "statistics_median (map PInt vs) = Some
    (let d = sort vs; n = length vs in
     if odd n then PInt (d ! (n div 2))
     else PFloat (rnd (of_int (d ! (n div 2 - 1) + d ! (n div 2)) / 2)))"
proof -
  have "sort_key num_val (map PInt vs) = map PInt (sort vs)"
    unfolding sort_key_map by (subst sort_key_order_eq) simp_all
  moreover have "n div 2 < n" "n div 2 - 1 < n" if "n \<noteq> 0" for n :: nat using that by auto
  ultimately show ?thesis using assms by (simp add: statistics_median_def Let_def)
qed

lemma median_and_mad_Some:
  assumes "vs \<noteq> []"
  obtains median mad where "median_and_mad vs = Some (median, mad)"
    and "statistics_median (map PInt vs) = Some median" and "of_int MAD_FLOOR_NS \<le> num_val mad"
proof -
  obtain median where m: "statistics_median (map PInt vs) = Some median"
    using statistics_median_Some [of "map PInt vs"] assms by auto
  obtain dev where "statistics_median (map (\<lambda>v. num_abs (num_sub (PInt v) median)) vs) = Some dev"
    using statistics_median_Some [of "map (\<lambda>v. num_abs (num_sub (PInt v) median)) vs"] assms by auto
  with m that show ?thesis by (simp add: median_and_mad_def)
qed

section \<open>The report\<close>

lemma those_map_Some: "those (map (\<lambda>x. Some (f x)) xs) = Some (map f xs)"
  by (induction xs) simp_all

definition node_of :: "pynum \<Rightarrow> pynum \<Rightarrow> string \<times> int \<Rightarrow> ranked_node" where
  "node_of median mad x = \<lparr>rn_node_id = fst x, rn_duration_ns = snd x,
     rn_z_score = z_value median mad (snd x), rn_flagged = MAD_Z_THRESHOLD < z_value median mad (snd x)\<rparr>"

definition rank_key :: "pynum \<Rightarrow> pynum \<Rightarrow> string \<times> int \<Rightarrow> rat \<times> string" where
  "rank_key median mad x = (- z_value median mad (snd x), fst x)"

definition ranking :: "pynum \<Rightarrow> pynum \<Rightarrow> (string \<times> int) list \<Rightarrow> ranked_node list" where
  "ranking median mad durations = map (node_of median mad) (sort_key (rank_key median mad) durations)"

definition first_flagged :: "ranked_node list \<Rightarrow> string option" where
  "first_flagged rns = map_option rn_node_id (find rn_flagged rns)"

lemma first_flagged_eq:
  "first_flagged rns = (case filter rn_flagged rns of [] \<Rightarrow> None | rn # _ \<Rightarrow> Some (rn_node_id rn))"
  by (induction rns) (auto simp: first_flagged_def)

lemma rank_ranked:
  assumes "3 \<le> length ds" and "median_and_mad (map snd ds) = Some (median, mad)" and "0 < num_val mad"
  obtains naive where "py_max (<) (\<lambda>(n, d). (d, n)) ds = Some naive"
    and "rank_stragglers job phase ds = Some \<lparr>rep_job_id = job, rep_phase_index = phase, rep_status = Ranked,
      rep_ranked_nodes = ranking median mad ds, rep_top_candidate = first_flagged (ranking median mad ds),
      rep_naive_baseline_candidate = Some (fst naive), rep_root_cause = None\<rparr>"
proof -
  obtain naive where naive: "py_max (<) (\<lambda>(n, d). (d, n)) ds = Some naive"
    using assms(1) by (cases ds) auto
  have zs: "those (map (\<lambda>(n, d). map_option (\<lambda>z. (n, d, z)) (z_score median mad d)) ds)
      = Some (map (\<lambda>(n, d). (n, d, z_value median mad d)) ds)"
    by (induction ds) (use assms(3) in \<open>auto simp: z_score_eq\<close>)
  have "map (\<lambda>(n, d, z). \<lparr>rn_node_id = n, rn_duration_ns = d, rn_z_score = z, rn_flagged = MAD_Z_THRESHOLD < z\<rparr>)
      (sort_key (\<lambda>(n, d, z). (- z, n)) (map (\<lambda>(n, d). (n, d, z_value median mad d)) ds)) = ranking median mad ds"
    by (simp add: ranking_def sort_key_map rank_key_def [abs_def] node_of_def [abs_def] comp_def case_prod_beta)
  then show ?thesis using that [OF naive] assms(1,2) naive zs
    by (simp add: rank_stragglers_def MIN_REPORTING_NODES_def first_flagged_eq Let_def)
qed

lemma rank_cases:
  assumes "3 \<le> length ds"
  obtains median mad naive r where "median_and_mad (map snd ds) = Some (median, mad)"
    and "statistics_median (map PInt (map snd ds)) = Some median"
    and "of_int MAD_FLOOR_NS \<le> num_val mad"
    and "py_max (<) (\<lambda>(n, d). (d, n)) ds = Some naive"
    and "rank_stragglers job phase ds = Some r" and "rep_status r = Ranked"
    and "rep_ranked_nodes r = ranking median mad ds"
    and "rep_top_candidate r = first_flagged (ranking median mad ds)"
    and "rep_naive_baseline_candidate r = Some (fst naive)"
proof -
  have "map snd ds \<noteq> []" using assms by auto
  then obtain median mad where m: "median_and_mad (map snd ds) = Some (median, mad)"
    "statistics_median (map PInt (map snd ds)) = Some median" and f: "of_int MAD_FLOOR_NS \<le> num_val mad"
    by (rule median_and_mad_Some)
  have "0 < num_val mad" using f by (simp add: MAD_FLOOR_NS_def)
  from rank_ranked [OF assms m(1) this] that [OF m f] show ?thesis by (metis straggler_report.select_convs)
qed

lemma ranking_mset:
  "mset (map (\<lambda>rn. (rn_node_id rn, rn_duration_ns rn)) (ranking median mad ds)) = mset ds"
proof -
  have "(\<lambda>rn. (rn_node_id rn, rn_duration_ns rn)) \<circ> node_of median mad = id"
    by (auto simp: node_of_def fun_eq_iff)
  then show ?thesis by (simp add: ranking_def)
qed

lemma set_ranking: "set (ranking median mad ds) = node_of median mad ` set ds"
  by (simp add: ranking_def)

lemma ranking_sorted:
  "sorted_wrt (\<lambda>a b. rn_z_score b < rn_z_score a \<or> rn_z_score a = rn_z_score b \<and> rn_node_id a \<le> rn_node_id b)
     (ranking median mad ds)"
proof -
  have "sorted_wrt (\<lambda>a b. rank_key median mad a \<le> rank_key median mad b) (sort_key (rank_key median mad) ds)"
    using sorted_sort_key [of "rank_key median mad" ds] by (simp add: sorted_wrt_map)
  then show ?thesis unfolding ranking_def sorted_wrt_map
    by (rule sorted_wrt_mono_rel [rotated]) (auto simp: rank_key_def node_of_def less_eq_prod_simp)
qed

text \<open>The first flagged node of a ranking has the greatest z-score.\<close>

lemma first_flagged_max:
  "first_flagged (ranking median mad ds) = (case ranking median mad ds of [] \<Rightarrow> None
     | rn # _ \<Rightarrow> if rn_flagged rn then Some (rn_node_id rn) else None)"
proof (cases "ranking median mad ds")
  case (Cons rn rns)
  have f: "rn_flagged x \<longleftrightarrow> MAD_Z_THRESHOLD < rn_z_score x" if "x \<in> set (ranking median mad ds)" for x
    using that by (auto simp: set_ranking node_of_def)
  have "\<not> rn_flagged x" if "\<not> rn_flagged rn" and "x \<in> set rns" for x
    using ranking_sorted [of median mad ds] that f [of x] f [of rn] Cons by auto
  then show ?thesis using Cons by (auto simp: first_flagged_def find_None_iff)
qed (simp add: first_flagged_def)

section \<open>Order and extreme values\<close>

lemma statistics_median_perm:
  assumes "mset data = mset data'" and "inj_on num_val (set data)"
  shows "statistics_median data = statistics_median data'"
  using sort_key_perm_eq [OF assms] by (simp add: statistics_median_def)

lemma inj_deviation: "inj_on num_val (set (map (\<lambda>v. num_abs (num_sub (PInt v) median)) vs))"
  by (cases median) (auto intro!: inj_onI)

lemma median_and_mad_perm:
  assumes "mset vs = mset vs'"
  shows "median_and_mad vs = median_and_mad vs'"
proof -
  have 1: "statistics_median (map PInt vs) = statistics_median (map PInt vs')"
    by (rule statistics_median_perm) (use assms in \<open>auto intro!: inj_onI\<close>)
  have 2: "statistics_median (map (\<lambda>v. num_abs (num_sub (PInt v) median)) vs)
      = statistics_median (map (\<lambda>v. num_abs (num_sub (PInt v) median)) vs')" for median
    by (rule statistics_median_perm [OF _ inj_deviation]) (use assms in simp)
  show ?thesis unfolding median_and_mad_def 1 2 ..
qed

text \<open>A position of the sorted durations at or below the median, with at most half the nodes above it.\<close>

lemma median_lower:
  assumes "statistics_median (map PInt vs) = Some median" and "vs \<noteq> []"
  obtains k where "k < length vs" and "length vs - Suc k \<le> length vs div 2"
    and "\<And>d. 0 < deviation median d \<Longrightarrow> sort vs ! k < d"
    and "of_int (sort vs ! k) \<le> num_val median \<or> 2 ^ 53 < \<bar>sort vs ! k\<bar>"
proof (cases "odd (length vs)")
  case True
  let ?k = "length vs div 2"
  have m: "median = PInt (sort vs ! ?k)" using median_ints [OF assms(2)] assms(1) True by (simp add: Let_def)
  have "?k < length vs" "length vs - Suc ?k \<le> length vs div 2" using True assms(2) by presburger+
  then show ?thesis by (rule that) (simp_all add: m deviation_pos_iff)
next
  case False
  let ?n = "length vs div 2" and ?k = "length vs div 2 - 1"
  have m: "median = PFloat (rnd (of_int (sort vs ! ?k + sort vs ! ?n) / 2))"
    using median_ints [OF assms(2)] assms(1) False by (simp add: Let_def)
  have pos: "0 < length vs" using assms(2) by simp
  have k: "?k < length vs" and half: "length vs - Suc ?k \<le> length vs div 2" and n: "?n < length vs"
    using False pos by presburger+
  have "sort vs ! ?k \<le> sort vs ! ?n" using n by (intro sorted_nth_mono) auto
  then have "(of_int (sort vs ! ?k) :: rat) \<le> of_int (sort vs ! ?n)" by simp
  then have below: "of_int (sort vs ! ?k) \<le> (of_int (sort vs ! ?k + sort vs ! ?n) / 2 :: rat)" by simp
  have "sort vs ! ?k < d" if "0 < deviation median d" for d
    using deviation_pos_float [OF that [unfolded m]] below by linarith
  moreover have "of_int (sort vs ! ?k) \<le> num_val median" if "\<bar>sort vs ! ?k\<bar> \<le> 2 ^ 53"
    unfolding m using b64.above [OF b64.small_int [OF that] below] by simp
  ultimately show ?thesis using that [OF k half] by force
qed

lemma num_float_floor:
  assumes "of_int MAD_FLOOR_NS \<le> num_val mad"
  shows "1000000 \<le> num_float mad"
proof (cases mad)
  case (PInt i)
  have "rnd 1000000 = 1000000" using rnd_of_int [of 1000000] by simp
  from b64.above [OF this] show ?thesis using assms PInt by (simp add: MAD_FLOOR_NS_def)
qed (use assms in \<open>simp add: MAD_FLOOR_NS_def\<close>)

lemma rnd_threshold: "rnd (7/2) = 7/2"
  by (rule rnd_exact [of _ 7 "-1"]) simp_all

text \<open>Five milliseconds above the median are not enough to be flagged.\<close>

lemma small_deviation:
  assumes "deviation median d \<le> 5189000" and "of_int MAD_FLOOR_NS \<le> num_val mad"
  shows "z_value median mad d \<le> MAD_Z_THRESHOLD"
proof -
  have mad: "1000000 \<le> num_float mad" using assms(2) by (rule num_float_floor)
  have "MAD_CONSTANT * deviation median d \<le> MAD_CONSTANT * 5189000"
    using assms(1) MAD_CONSTANT_pos by (intro mult_left_mono) simp_all
  also have "\<dots> \<le> 3500000" using MAD_CONSTANT_bounds by simp
  finally have "rnd (MAD_CONSTANT * deviation median d) \<le> 3500000"
    using rnd_of_int [of 3500000] by (intro b64.below) simp_all
  also have "3500000 \<le> 7/2 * num_float mad" using mad by simp
  finally have "rnd (MAD_CONSTANT * deviation median d) / num_float mad \<le> 7/2"
    using mad by (simp add: pos_divide_le_eq)
  then show ?thesis unfolding z_value_def MAD_Z_THRESHOLD_def by (intro b64.below rnd_threshold)
qed

text \<open>A value of which at most one element of a list is greater bounds its median from above.\<close>

lemma middle_bounds:
  fixes f :: "'a \<Rightarrow> 'b :: linorder"
  assumes "3 \<le> length xs" and "length (filter (\<lambda>x. b < f x) xs) \<le> 1" and "i = length xs div 2 \<or> i = length xs div 2 - 1"
  shows "f (sort_key f xs ! i) \<le> b" and "sort_key f xs ! i \<in> set xs"
proof -
  have "length xs div 2 < length xs - 1" "length xs div 2 - 1 < length xs - 1" using assms(1) by presburger+
  then have i: "i < length xs - 1" using assms(3) by blast
  have "length (filter (\<lambda>x. b < f x) (sort_key f xs)) \<le> 1"
    using assms(2) length_filter_mset_eq [of "sort_key f xs" xs] by simp
  then show "f (sort_key f xs ! i) \<le> b" by (intro sorted_below_nth) (use i in auto)
  have "sort_key f xs ! i \<in> set (sort_key f xs)" by (rule nth_mem) (use i in simp)
  then show "sort_key f xs ! i \<in> set xs" by simp
qed

lemma num_float_between:
  assumes "rnd a = a" and "rnd b = b" and "a \<le> num_val x \<and> num_val x \<le> b"
  shows "a \<le> num_float x \<and> num_float x \<le> b"
  using assms by (cases x) (auto intro: b64.above b64.below)

lemma float_mean_between:
  assumes "rnd a = a" and "rnd b = b" and "rnd (2 * a) = 2 * a" and "rnd (2 * b) = 2 * b"
    and "a \<le> num_val x \<and> num_val x \<le> b" and "a \<le> num_val y \<and> num_val y \<le> b"
    and "num_div (num_add x y) (PInt 2) = Some q"
  shows "a \<le> num_val q \<and> num_val q \<le> b"
proof -
  have two: "rnd 2 = 2" using rnd_of_int [of 2] by simp
  have sum: "2 * a \<le> num_float x + num_float y \<and> num_float x + num_float y \<le> 2 * b"
    using num_float_between [OF assms(1,2,5)] num_float_between [OF assms(1,2,6)] by simp
  have half: "a \<le> rnd (s / 2) \<and> rnd (s / 2) \<le> b" if "2 * a \<le> s \<and> s \<le> 2 * b" for s
    using that by (intro conjI b64.above [OF assms(1)] b64.below [OF assms(2)]) simp_all
  have mean: "a \<le> rnd (rnd (num_float x + num_float y) / 2) \<and> rnd (rnd (num_float x + num_float y) / 2) \<le> b"
    using sum by (intro half conjI b64.above [OF assms(3)] b64.below [OF assms(4)]) simp_all
  show ?thesis
  proof (cases "\<exists>i j. x = PInt i \<and> y = PInt j")
    case True
    then obtain i j where xy: "x = PInt i" "y = PInt j" by blast
    then show ?thesis using assms(5,6,7) half [of "of_int (i + j)"] by auto
  next
    case False
    then show ?thesis using assms(7) mean by (cases x; cases y) (auto simp: two)
  qed
qed

text \<open>
  The median of three or more values that are at least \<open>a\<close>, at most one of which is above \<open>b\<close>,
  lies between the two.
\<close>

lemma median_between:
  assumes "statistics_median data = Some m" and "3 \<le> length data" and "\<forall>x\<in>set data. a \<le> num_val x"
    and "length (filter (\<lambda>x. b < num_val x) data) \<le> 1"
    and "rnd a = a" and "rnd b = b" and "rnd (2 * a) = 2 * a" and "rnd (2 * b) = 2 * b"
  shows "a \<le> num_val m \<and> num_val m \<le> b"
proof -
  let ?d = "sort_key num_val data" and ?n = "length data"
  have mid: "a \<le> num_val (?d ! i) \<and> num_val (?d ! i) \<le> b" if "i = ?n div 2 \<or> i = ?n div 2 - 1" for i
    using middle_bounds [OF assms(2,4) that] assms(3) by blast
  show ?thesis
  proof (cases "odd ?n")
    case True
    moreover have "?n \<noteq> 0" using assms(2) by linarith
    ultimately have "?d ! (?n div 2) = m" using assms(1) unfolding statistics_median_def Let_def by simp
    then show ?thesis using mid by blast
  next
    case False
    moreover have "?n \<noteq> 0" using assms(2) by linarith
    ultimately have "num_div (num_add (?d ! (?n div 2 - 1)) (?d ! (?n div 2))) (PInt 2) = Some m"
      using assms(1) unfolding statistics_median_def Let_def by (simp del: num_div.simps)
    then show ?thesis by (rule float_mean_between [OF assms(5-8) mid mid, rotated -1]) simp_all
  qed
qed

text \<open>The difference from a median in the range of the data.\<close>

lemma deviation_bounds:
  assumes "\<bar>d\<bar> \<le> 2 ^ 53" and "of_int m \<le> num_val median \<and> num_val median \<le> of_int m'"
  shows "e \<le> d - m' \<Longrightarrow> \<bar>e\<bar> \<le> 2 ^ 53 \<Longrightarrow> of_int e \<le> deviation median d"
    and "d - m \<le> e \<Longrightarrow> \<bar>e\<bar> \<le> 2 ^ 53 \<Longrightarrow> deviation median d \<le> of_int e"
    and "d - m \<le> e \<Longrightarrow> m' - d \<le> e \<Longrightarrow> \<bar>e\<bar> \<le> 2 ^ 53 \<Longrightarrow> num_val (num_abs (num_sub (PInt d) median)) \<le> of_int e"
proof -
  have r: "rnd (of_int e) = of_int e" if "\<bar>e\<bar> \<le> 2 ^ 53" for e using that by simp
  have dev: "deviation median d = rnd (of_int d - num_val median)"
    using r [OF assms(1)] by (cases median) (simp_all add: deviation_def)
  show "of_int e \<le> deviation median d" if "e \<le> d - m'" "\<bar>e\<bar> \<le> 2 ^ 53"
    unfolding dev using that assms(2) by (intro b64.above [OF r]) linarith+
  show up: "deviation median d \<le> of_int e" if "d - m \<le> e" "\<bar>e\<bar> \<le> 2 ^ 53" for e
    unfolding dev using that assms(2) by (intro b64.below [OF r]) linarith+
  show "num_val (num_abs (num_sub (PInt d) median)) \<le> of_int e" if "d - m \<le> e" "m' - d \<le> e" "\<bar>e\<bar> \<le> 2 ^ 53"
  proof -
    have neg: "of_int (- e) \<le> deviation median d" unfolding dev
      using that assms(2) by (intro b64.above [OF r]) linarith+
    show ?thesis
    proof (cases median)
      case (PInt i)
      have "i \<le> m'" "m \<le> i" using assms(2) PInt by simp_all
      then have "\<bar>d - i\<bar> \<le> e" using that(1,2) by linarith
      then show ?thesis using PInt by (metis num_abs.simps(1) num_sub.simps(1) num_val.simps(1) of_int_le_iff)
    next
      case (PFloat q)
      then show ?thesis using up [OF that(1,3)] neg by (auto simp: deviation_def)
    qed
  qed
qed

text \<open>With a MAD at its floor, a node 5.19 ms above the median is flagged.\<close>

lemma large_deviation:
  assumes "5190000 \<le> deviation median d" and "num_float mad = 1000000"
  shows "MAD_Z_THRESHOLD < z_value median mad d"
proof -
  have "3500654 \<le> MAD_CONSTANT * 5190000" using MAD_CONSTANT_bounds by simp
  also have "\<dots> \<le> MAD_CONSTANT * deviation median d"
    using assms(1) MAD_CONSTANT_pos by (intro mult_left_mono) simp_all
  finally have "3500654 \<le> rnd (MAD_CONSTANT * deviation median d)"
    using rnd_of_int [of 3500654] by (intro b64.above) simp_all
  then have "7169/2048 \<le> rnd (MAD_CONSTANT * deviation median d) / num_float mad" by (simp add: assms(2))
  moreover have "rnd (7169/2048) = 7169/2048" by (rule rnd_exact [of _ 7169 "-11"]) simp_all
  ultimately have "7169/2048 \<le> z_value median mad d" unfolding z_value_def by (intro b64.above)
  then show ?thesis by (simp add: MAD_Z_THRESHOLD_def)
qed

lemma num_float_of_int: "num_val x = of_int i \<Longrightarrow> \<bar>i\<bar> \<le> 2 ^ 53 \<Longrightarrow> num_float x = of_int i"
  by (cases x) simp_all

text \<open>
  A phase in which all nodes but one take about the same time, up to a millisecond, and the
  remaining one at least 5.19 ms more than the slowest of them: only the remaining one is flagged.
\<close>

lemma straggler_flagged:
  assumes "3 \<le> length ds" and "distinct (map fst ds)" and "(n, d) \<in> set ds"
    and "\<forall>(n', d')\<in>set ds. n' \<noteq> n \<longrightarrow> m \<le> d' \<and> d' \<le> M" and "M \<le> m + 1000000" and "M + 5190000 \<le> d"
    and "\<bar>m\<bar> \<le> 2 ^ 53" and "\<bar>d\<bar> \<le> 2 ^ 53"
  shows "\<exists>r. rank_stragglers job phase ds = Some r \<and> rep_status r = Ranked \<and> rep_top_candidate r = Some n
     \<and> (\<forall>rn\<in>set (rep_ranked_nodes r). rn_flagged rn \<longleftrightarrow> rn_node_id rn = n)"
proof -
  let ?vs = "map snd ds"
  obtain median mad r where mm: "median_and_mad ?vs = Some (median, mad)"
    and med: "statistics_median (map PInt ?vs) = Some median"
    and f: "of_int MAD_FLOOR_NS \<le> num_val mad" and r: "rank_stragglers job phase ds = Some r" "rep_status r = Ranked"
    and nodes: "rep_ranked_nodes r = ranking median mad ds"
    and top: "rep_top_candidate r = first_flagged (ranking median mad ds)"
    by (rule rank_cases [OF assms(1)])
  have durs: "if n' = n then d' = d else m \<le> d' \<and> d' \<le> M" if "(n', d') \<in> set ds" for n' d'
    using that assms(2,3,4) by (auto dest: eq_key_imp_eq_value)
  have few: "length (filter P ?vs) \<le> 1" if "\<And>v. P v \<Longrightarrow> v < m \<or> M < v" for P
  proof -
    have "distinct (filter (\<lambda>x. P (snd x)) ds)" using assms(2) by (simp add: distinct_map)
    moreover have "set (filter (\<lambda>x. P (snd x)) ds) \<subseteq> {(n, d)}" using that by (force dest: durs split: if_splits)
    ultimately have "length (filter (\<lambda>x. P (snd x)) ds) \<le> card {(n, d)}" by (metis card_mono distinct_card finite.emptyI finite_insert)
    then show ?thesis by (simp add: filter_map comp_def)
  qed
  have "m \<le> M"
  proof -
    have "\<not> (\<forall>x\<in>set ds. fst x = n)"
    proof
      assume "\<forall>x\<in>set ds. fst x = n"
      then have "set (map fst ds) \<subseteq> {n}" by auto
      then have "length (map fst ds) \<le> card {n}" using assms(2) by (metis card_mono distinct_card finite.emptyI finite_insert)
      then show False using assms(1) by simp
    qed
    then show ?thesis using assms(4) by force
  qed
  then have bounds: "\<bar>m\<bar> \<le> 2 ^ 53" "\<bar>M\<bar> \<le> 2 ^ 53" using assms(6,7,8) by simp_all
  have exact: "rnd (of_int i) = of_int i" if "\<bar>i\<bar> \<le> 2 ^ 53" for i using that by simp
  have double: "rnd (2 * of_int i) = 2 * of_int i" if "\<bar>i\<bar> \<le> 2 ^ 53" for i :: int
    by (rule rnd_exact [of _ i 1]) (use that in simp_all)
  have m: "of_int m \<le> num_val median \<and> num_val median \<le> of_int M"
  proof (rule median_between [OF med])
    show "\<forall>x\<in>set (map PInt ?vs). of_int m \<le> num_val x" using durs assms(6) \<open>m \<le> M\<close> by (force split: if_splits)
    show "length (filter (\<lambda>x. of_int M < num_val x) (map PInt ?vs)) \<le> 1"
      using few [of "\<lambda>v. M < v"] by (simp add: filter_map comp_def del: of_int_add)
    show "rnd (2 * of_int m) = 2 * of_int m" "rnd (2 * of_int M) = 2 * of_int M"
      by (rule double, rule bounds)+
    show "3 \<le> length (map PInt ?vs)" using assms(1) by simp
    show "rnd (of_int m) = of_int m" "rnd (of_int M) = of_int M"
      using exact [of m] exact [of M] bounds by simp_all
  qed
  have dev: "deviation median d' \<le> 1000000" "num_val (num_abs (num_sub (PInt d') median)) \<le> 1000000"
    if "m \<le> d' \<and> d' \<le> M" for d'
  proof -
    have "\<bar>d'\<bar> \<le> 2 ^ 53" using that bounds by linarith
    from deviation_bounds(2,3) [OF this m, of 1000000] that assms(5)
    show "deviation median d' \<le> 1000000" "num_val (num_abs (num_sub (PInt d') median)) \<le> 1000000" by simp_all
  qed
  have "num_val mad = 1000000"
  proof -
    let ?devs = "map (\<lambda>v. num_abs (num_sub (PInt v) median)) ?vs"
    obtain x where x: "statistics_median ?devs = Some x" and mad: "mad = num_max x (PInt MAD_FLOOR_NS)"
      using mm med by (auto simp: median_and_mad_def comp_def bind_eq_Some_conv)
    have "v < m \<or> M < v" if "1000000 < num_val (num_abs (num_sub (PInt v) median))" for v
      using dev(2) [of v] that by linarith
    from few [OF this] have "length (filter (\<lambda>x. 1000000 < num_val x) ?devs) \<le> 1"
      by (simp add: filter_map comp_def del: num_val_abs)
    then have "0 \<le> num_val x \<and> num_val x \<le> 1000000"
      using exact [of 0] exact [of 1000000] exact [of 2000000] assms(1)
      by (intro median_between [OF x]) auto
    then show ?thesis by (simp add: mad MAD_FLOOR_NS_def)
  qed
  then have "num_float mad = 1000000" using num_float_of_int [of mad 1000000] by simp
  moreover have "5190000 \<le> deviation median d"
    using deviation_bounds(1) [OF assms(8) m, of 5190000] assms(6) by simp
  ultimately have flagged: "MAD_Z_THRESHOLD < z_value median mad d" by (intro large_deviation)
  have calm: "\<not> MAD_Z_THRESHOLD < z_value median mad d'" if "m \<le> d' \<and> d' \<le> M" for d'
    using small_deviation [OF _ f, of median d'] dev(1) [OF that] by simp
  have "MAD_Z_THRESHOLD < z_value median mad d' \<longleftrightarrow> n' = n" if "(n', d') \<in> set ds" for n' d'
    using durs [OF that] flagged calm by (cases "n' = n") simp_all
  then have flags: "\<forall>rn\<in>set (ranking median mad ds). rn_flagged rn \<longleftrightarrow> rn_node_id rn = n"
    by (auto simp: set_ranking node_of_def)
  have "node_of median mad (n, d) \<in> set (ranking median mad ds)" using assms(3) by (simp add: set_ranking)
  then have "first_flagged (ranking median mad ds) \<noteq> None"
    using flags by (auto simp: first_flagged_def find_None_iff node_of_def)
  then have "first_flagged (ranking median mad ds) = Some n"
    using flags by (auto simp: first_flagged_def find_Some_iff)
  then show ?thesis using r nodes top flags by auto
qed

section \<open>Properties of the ranking\<close>

text \<open>
  C37. The ranking never fails. Fewer than three nodes give \<open>insufficient_evidence\<close> and nothing
  else; otherwise every node appears exactly once, with its duration, ordered by descending
  z-score and then by name, so that a node with a greater z-score was slower; exactly the nodes
  above the threshold are flagged, and the top candidate is the first of them.
\<close>

theorem rank_stragglers_report:
  "\<exists>r. rank_stragglers job phase ds = Some r
    \<and> (rep_status r = InsufficientEvidence \<longleftrightarrow> length ds < 3)
    \<and> mset (map (\<lambda>rn. (rn_node_id rn, rn_duration_ns rn)) (rep_ranked_nodes r)) = (if length ds < 3 then {#} else mset ds)
    \<and> sorted_wrt (\<lambda>a b. rn_z_score b < rn_z_score a \<and> rn_duration_ns b < rn_duration_ns a
          \<or> rn_z_score a = rn_z_score b \<and> rn_node_id a \<le> rn_node_id b) (rep_ranked_nodes r)
    \<and> filter rn_flagged (rep_ranked_nodes r) = filter (\<lambda>rn. 7/2 < rn_z_score rn) (rep_ranked_nodes r)
    \<and> rep_top_candidate r = map_option rn_node_id (find rn_flagged (rep_ranked_nodes r))"
proof (cases "length ds < 3")
  case True
  then show ?thesis by (simp add: rank_stragglers_def MIN_REPORTING_NODES_def)
next
  case False
  then have "3 \<le> length ds" by simp
  then obtain median mad naive r where r: "rank_stragglers job phase ds = Some r" "rep_status r = Ranked"
    and f: "of_int MAD_FLOOR_NS \<le> num_val mad"
    and nodes: "rep_ranked_nodes r = ranking median mad ds"
    and top: "rep_top_candidate r = first_flagged (ranking median mad ds)"
    by (rule rank_cases)
  let ?ranked = "ranking median mad ds"
  have mad: "0 \<le> num_val mad" using f by (simp add: MAD_FLOOR_NS_def)
  have slower: "rn_duration_ns b < rn_duration_ns a"
    if "a \<in> set ?ranked" "b \<in> set ?ranked" "rn_z_score b < rn_z_score a" for a b
    using that z_value_mono [OF mad, of "rn_duration_ns a" "rn_duration_ns b" median]
    by (fastforce simp: set_ranking node_of_def)
  have "sorted_wrt (\<lambda>a b. rn_z_score b < rn_z_score a \<and> rn_duration_ns b < rn_duration_ns a
      \<or> rn_z_score a = rn_z_score b \<and> rn_node_id a \<le> rn_node_id b) ?ranked"
    by (rule sorted_wrt_mono_rel [OF _ ranking_sorted]) (use slower in auto)
  moreover have "filter rn_flagged ?ranked = filter (\<lambda>rn. 7/2 < rn_z_score rn) ?ranked"
    by (rule filter_cong) (auto simp: set_ranking node_of_def MAD_Z_THRESHOLD_def)
  ultimately show ?thesis using False r by (simp add: nodes top ranking_mset first_flagged_def del: mset_map)
qed

text \<open>
  The report depends on the durations only, not on the order in which the dict lists the
  nodes (the order of the rows the database returned).
\<close>

theorem rank_stragglers_order_irrelevant:
  assumes "mset ds = mset ds'" and "distinct (map fst ds)"
  shows "rank_stragglers job phase ds = rank_stragglers job phase ds'"
proof (cases "length ds < 3")
  case True
  moreover have "length ds = length ds'" using assms(1) by (rule mset_eq_length)
  ultimately show ?thesis by (simp add: rank_stragglers_def MIN_REPORTING_NODES_def)
next
  case False
  then have len: "3 \<le> length ds" "3 \<le> length ds'" using mset_eq_length [OF assms(1)] by simp_all
  have "mset (map snd ds) = mset (map snd ds')" using assms(1) by simp
  then have mm: "median_and_mad (map snd ds) = median_and_mad (map snd ds')" by (rule median_and_mad_perm)
  obtain median mad where m: "median_and_mad (map snd ds) = Some (median, mad)" and f: "of_int MAD_FLOOR_NS \<le> num_val mad"
    using len(1) by (rule rank_cases)
  have inj: "inj_on fst (set ds)" using assms(2) by (simp add: distinct_map)
  have "inj_on (rank_key median mad) (set ds)" "inj_on (\<lambda>(n, d). (d, n)) (set ds)"
    using inj by (auto simp: inj_on_def rank_key_def)
  then have "ranking median mad ds = ranking median mad ds'"
    and "py_max (<) (\<lambda>(n, d). (d, n)) ds = py_max (<) (\<lambda>(n, d). (d, n)) ds'"
    using assms(1) by (simp_all add: ranking_def sort_key_perm_eq py_max_perm)
  moreover have "0 < num_val mad" using f by (simp add: MAD_FLOOR_NS_def)
  ultimately show ?thesis
    using rank_ranked [OF len(1) m, of job phase] rank_ranked [OF len(2) m [unfolded mm], of job phase]
    by (metis option.inject)
qed

theorem rank_stragglers_order_irrelevant_witness:
  "rank_stragglers ''j'' 0 [(''a'', 10), (''b'', 20), (''c'', 10)] =
   rank_stragglers ''j'' 0 [(''c'', 10), (''b'', 20), (''a'', 10)]"
  by (rule rank_stragglers_order_irrelevant) simp_all

text \<open>A phase with one straggler, for the examples.\<close>

definition demo_durations :: "(string \<times> int) list" where
  "demo_durations = [(''a'', 10000000), (''b'', 900000000), (''c'', 10000000)]"

definition demo_report :: straggler_report where
  "demo_report = \<lparr>rep_job_id = ''j'', rep_phase_index = 0, rep_status = Ranked,
     rep_ranked_nodes =
       [\<lparr>rn_node_id = ''b'', rn_duration_ns = 900000000, rn_z_score = 5280338621696573 / 8796093022208,
          rn_flagged = True\<rparr>,
        \<lparr>rn_node_id = ''a'', rn_duration_ns = 10000000, rn_z_score = 0, rn_flagged = False\<rparr>,
        \<lparr>rn_node_id = ''c'', rn_duration_ns = 10000000, rn_z_score = 0, rn_flagged = False\<rparr>],
     rep_top_candidate = Some ''b'', rep_naive_baseline_candidate = Some ''b'', rep_root_cause = None\<rparr>"

lemma demo_rank: "rank_stragglers ''j'' 0 demo_durations = Some demo_report"
  by code_simp

text \<open>
  The naive baseline (the longest duration, ties to the greatest name) has the greatest
  z-score of the report. So a top candidate is named exactly when the naive candidate is
  flagged, and then both have the same z-score.
\<close>

theorem naive_baseline_agrees:
  assumes "rank_stragglers job phase ds = Some r" and "distinct (map fst ds)"
    and "rn \<in> set (rep_ranked_nodes r)" and "rep_naive_baseline_candidate r = Some (rn_node_id rn)"
  shows "(\<forall>x\<in>set (rep_ranked_nodes r). rn_z_score x \<le> rn_z_score rn)
    \<and> (rep_top_candidate r \<noteq> None \<longleftrightarrow> rn_flagged rn)
    \<and> (\<forall>x\<in>set (rep_ranked_nodes r). rep_top_candidate r = Some (rn_node_id x) \<longrightarrow> rn_z_score x = rn_z_score rn)"
proof -
  have len: "3 \<le> length ds"
    using assms(1,4) by (auto simp: rank_stragglers_def MIN_REPORTING_NODES_def split: if_splits)
  obtain median mad naive r' where r': "rank_stragglers job phase ds = Some r'"
    and f: "of_int MAD_FLOOR_NS \<le> num_val mad" and naive: "py_max (<) (\<lambda>(n, d). (d, n)) ds = Some naive"
    and nodes: "rep_ranked_nodes r' = ranking median mad ds"
    and top: "rep_top_candidate r' = first_flagged (ranking median mad ds)"
    and n: "rep_naive_baseline_candidate r' = Some (fst naive)"
    by (rule rank_cases [OF len])
  have r: "r' = r" using assms(1) r' by simp
  let ?ranked = "ranking median mad ds"
  have mad: "0 \<le> num_val mad" using f by (simp add: MAD_FLOOR_NS_def)
  have dur: "snd x \<le> snd naive" if "x \<in> set ds" for x
    using bspec [OF py_max_Some(2) [OF naive] that]
    by (cases x; cases naive) auto
  obtain x0 where x0: "x0 \<in> set ds" "rn = node_of median mad x0"
    using assms(3) unfolding r [symmetric] nodes set_ranking by blast
  have "fst x0 = fst naive" using x0(2) assms(4) n r by (simp add: node_of_def)
  moreover have "inj_on fst (set ds)" using assms(2) by (simp add: distinct_map)
  ultimately have "x0 = naive" using py_max_Some(1) [OF naive] x0(1) by (meson inj_onD)
  with x0 have rn: "rn = node_of median mad naive" by simp
  have max: "rn_z_score x \<le> rn_z_score rn" if "x \<in> set ?ranked" for x
    using that dur z_value_mono [OF mad] by (auto simp: set_ranking node_of_def rn)
  have head: "rn_z_score x = rn_z_score rn" if "?ranked = x # xs" for x xs
    using ranking_sorted [of median mad ds] max [of x] assms(3) that unfolding r [symmetric] nodes by auto
  have flag: "rn_flagged x \<longleftrightarrow> MAD_Z_THRESHOLD < rn_z_score x" if "x \<in> set ?ranked" for x
    using that by (auto simp: set_ranking node_of_def)
  obtain x xs where x: "?ranked = x # xs" using assms(3) unfolding r [symmetric] nodes by (cases ?ranked) auto
  have "rn_z_score y = rn_z_score rn" if "y \<in> set ?ranked" "rn_node_id y = rn_node_id x" for y
  proof -
    have "x \<in> set ?ranked" using x by simp
    then show ?thesis using that assms(2) head [OF x] by (auto simp: set_ranking node_of_def dest: eq_key_imp_eq_value)
  qed
  moreover have "first_flagged ?ranked = (if rn_flagged x then Some (rn_node_id x) else None)"
    by (subst first_flagged_max) (simp add: x)
  then have "rep_top_candidate r = (if rn_flagged rn then Some (rn_node_id x) else None)"
    using x head [OF x] flag [of x] flag [of rn] assms(3) top unfolding r [symmetric] nodes by simp
  ultimately show ?thesis using max unfolding r [symmetric] nodes by auto
qed

theorem naive_baseline_agrees_witness:
  "rank_stragglers ''j'' 0 demo_durations = Some demo_report \<and> rep_top_candidate demo_report \<noteq> None"
  using demo_rank naive_baseline_agrees [OF demo_rank, of "hd (rep_ranked_nodes demo_report)"]
  by (simp add: demo_durations_def demo_report_def)

text \<open>
  At most half of the nodes are flagged, whatever the durations: a flagged node is above the
  median even after the rounding of the float arithmetic.
\<close>

theorem at_most_half_flagged:
  assumes "rank_stragglers job phase ds = Some r"
  shows "2 * length (filter rn_flagged (rep_ranked_nodes r)) \<le> length ds"
proof (cases "length ds < 3")
  case True
  then show ?thesis using assms by (auto simp: rank_stragglers_def MIN_REPORTING_NODES_def)
next
  case False
  then have len: "3 \<le> length ds" by simp
  obtain median mad r' where med: "statistics_median (map PInt (map snd ds)) = Some median"
    and f: "of_int MAD_FLOOR_NS \<le> num_val mad" and r': "rank_stragglers job phase ds = Some r'"
    and nodes: "rep_ranked_nodes r' = ranking median mad ds"
    by (rule rank_cases [OF len])
  let ?vs = "map snd ds"
  have ne: "?vs \<noteq> []" using len by auto
  from median_lower [OF med ne] obtain k where k: "k < length ?vs" "length ?vs - Suc k \<le> length ?vs div 2"
    and above: "\<And>d. 0 < deviation median d \<Longrightarrow> sort ?vs ! k < d"
    by blast
  have mad: "0 \<le> num_val mad" using f by (simp add: MAD_FLOOR_NS_def)
  have slow: "sort ?vs ! k < d" if "MAD_Z_THRESHOLD < z_value median mad d" for d
  proof -
    have "0 < z_value median mad d" using that by (simp add: MAD_Z_THRESHOLD_def)
    then show ?thesis using z_value_pos_dev [OF _ mad] above by blast
  qed
  have "length (filter rn_flagged (ranking median mad ds)) = length (filter (rn_flagged \<circ> node_of median mad) ds)"
    using length_filter_mset_eq [of "sort_key (rank_key median mad) ds" ds] by (simp add: ranking_def filter_map)
  also have "\<dots> \<le> length (filter (\<lambda>x. sort ?vs ! k < snd x) ds)"
    unfolding length_filter_conv_card using slow by (intro card_mono) (auto simp: node_of_def)
  also have "\<dots> = length (filter (\<lambda>d. sort ?vs ! k < d) (sort ?vs))"
    using length_filter_mset_eq [of "sort ?vs" ?vs] by (simp add: filter_map comp_def)
  also have "\<dots> \<le> length ?vs - Suc k"
    using sorted_above_nth [of "\<lambda>x. x" "sort ?vs" k] k by simp
  finally show ?thesis using k assms r' nodes by simp
qed

theorem at_most_half_flagged_witness:
  "rank_stragglers ''j'' 0 demo_durations = Some demo_report
   \<and> 2 * length (filter rn_flagged (rep_ranked_nodes demo_report)) \<le> length demo_durations"
  using demo_rank at_most_half_flagged [OF demo_rank] by blast

text \<open>
  No false alarm on jitter: when the durations of a phase (below 2 to the 53 ns) lie within
  5.189 ms of each other, no node is flagged and there is no top candidate.
\<close>

theorem jitter_not_flagged:
  assumes "rank_stragglers job phase ds = Some r"
    and "\<forall>d\<in>snd ` set ds. \<bar>d\<bar> \<le> 2 ^ 53" and "\<forall>d\<in>snd ` set ds. \<forall>d'\<in>snd ` set ds. d - d' \<le> 5189000"
  shows "rep_top_candidate r = None \<and> (\<forall>rn\<in>set (rep_ranked_nodes r). \<not> rn_flagged rn)"
proof (cases "length ds < 3")
  case True
  then show ?thesis using assms by (auto simp: rank_stragglers_def MIN_REPORTING_NODES_def)
next
  case False
  then have len: "3 \<le> length ds" by simp
  obtain median mad r' where med: "statistics_median (map PInt (map snd ds)) = Some median"
    and f: "of_int MAD_FLOOR_NS \<le> num_val mad" and r': "rank_stragglers job phase ds = Some r'"
    and nodes: "rep_ranked_nodes r' = ranking median mad ds"
    and top: "rep_top_candidate r' = first_flagged (ranking median mad ds)"
    by (rule rank_cases [OF len])
  let ?vs = "map snd ds"
  have ne: "?vs \<noteq> []" using len by auto
  from median_lower [OF med ne] obtain k where k: "k < length ?vs"
    and below: "of_int (sort ?vs ! k) \<le> num_val median \<or> 2 ^ 53 < \<bar>sort ?vs ! k\<bar>" by blast
  have "sort ?vs ! k \<in> set (sort ?vs)" by (rule nth_mem) (use k in simp)
  then have e: "sort ?vs ! k \<in> snd ` set ds" by simp
  have m: "of_int (sort ?vs ! k) \<le> num_val median" using below bspec [OF assms(2) e] by linarith
  have "deviation median d \<le> 5189000" if "d \<in> snd ` set ds" for d
  proof -
    have "d - sort ?vs ! k \<le> 5189000" using assms(3) that e by blast
    then have "of_int d - num_val median \<le> 5189000" using m by linarith
    then have "rnd (of_int d - num_val median) \<le> 5189000"
      using rnd_of_int [of 5189000] by (intro b64.below) simp_all
    then show ?thesis using rnd_of_int [of d] bspec [OF assms(2) that] by (cases median) (simp_all add: deviation_def)
  qed
  then have "\<not> MAD_Z_THRESHOLD < z_value median mad d" if "d \<in> snd ` set ds" for d
    using small_deviation [OF _ f] that by (simp add: not_less)
  then have none: "\<forall>rn\<in>set (ranking median mad ds). \<not> rn_flagged rn" by (simp add: set_ranking node_of_def)
  then have "first_flagged (ranking median mad ds) = None" by (simp add: first_flagged_def find_None_iff)
  then show ?thesis using none assms(1) r' top nodes by simp
qed

theorem jitter_not_flagged_witness:
  "\<exists>r. rank_stragglers ''j'' 0 [(''a'', 10000000), (''b'', 15000000), (''c'', 10000000), (''d'', 12000000)] = Some r
     \<and> rep_top_candidate r = None"
proof -
  let ?ds = "[(''a'', 10000000), (''b'', 15000000), (''c'', 10000000), (''d'', 12000000)]"
  obtain r where r: "rank_stragglers ''j'' 0 ?ds = Some r" by (rule rank_cases [of ?ds]) simp_all
  from jitter_not_flagged [OF r] r show ?thesis by simp
qed

text \<open>
  C16. A lone straggler is found: when the other nodes of the phase take the same time up to a
  millisecond and one takes at least 5.19 ms more than the slowest of them, exactly that node is
  flagged, and it is the top candidate.
\<close>

theorem lone_straggler_found:
  assumes "3 \<le> length ds" and "distinct (map fst ds)" and "(n, d) \<in> set ds"
    and "\<forall>(n', d')\<in>set ds. n' \<noteq> n \<longrightarrow> m \<le> d' \<and> d' \<le> M" and "M \<le> m + 1000000" and "M + 5190000 \<le> d"
    and "\<bar>m\<bar> \<le> 2 ^ 53" and "\<bar>d\<bar> \<le> 2 ^ 53"
  shows "\<exists>r. rank_stragglers job phase ds = Some r \<and> rep_top_candidate r = Some n
     \<and> (\<forall>rn\<in>set (rep_ranked_nodes r). rn_flagged rn \<longleftrightarrow> rn_node_id rn = n)"
  using straggler_flagged [OF assms] by blast

theorem lone_straggler_found_witness:
  "\<exists>r. rank_stragglers ''j'' 0 [(''a'', 10000000), (''b'', 16190000), (''c'', 11000000)] = Some r
     \<and> rep_top_candidate r = Some ''b''"
  using lone_straggler_found [of "[(''a'', 10000000), (''b'', 16190000), (''c'', 11000000)]" "''b''" 16190000 10000000 11000000 "''j''" 0]
  by auto

section \<open>Properties of the root-cause tag\<close>

text \<open>
  The tag, for deltas that are numbers: UNKNOWN when no measured delta exceeds 25 %;
  otherwise the metric with the greatest measured delta, the first of them in the order CPU,
  IO, network.
\<close>

theorem tag_root_cause_spec:
  assumes "cpu \<noteq> Some NaN" and "iowait \<noteq> Some NaN" and "net \<noteq> Some NaN"
  shows "tag_root_cause cpu iowait net =
    (let measured = [d. Some d \<leftarrow> [cpu, iowait, net]]
     in if \<forall>d\<in>set measured. d \<le> Fin (1/4) then ''UNKNOWN''
        else if cpu = Some (Max (set measured)) then ''CPU_CONTENTION''
        else if iowait = Some (Max (set measured)) then ''IO_STALL''
        else ''NETWORK'')"
  using assms
  by (cases cpu; cases iowait; cases net)
    (simp_all add: tag_root_cause_def ROOT_CAUSE_RELATIVE_THRESHOLD_def fl_less_iff List.map_filter_def Let_def not_le,
      (intro conjI impI; order)+)

theorem tag_root_cause_spec_witness:
  "tag_root_cause (Some (Fin (1/2))) None (Some (Fin 3)) = ''NETWORK''"
  using tag_root_cause_spec [of "Some (Fin (1/2))" None "Some (Fin 3)"]
  by (simp add: less_eq_pyfloat_def max_def)

end
