(* ===== verification/Py_Text.thy ===== *)
theory Py_Text
  imports Prelude
begin

text \<open>
  Text: the decimal numerals of \<open>str\<close> and \<open>int\<close>, \<open>str.strip\<close> and \<open>str.split\<close>, and the
  UTF-8 encoding that ties the strings of the model to lists of code points.
\<close>

section \<open>Numerals\<close>

fun decimal :: "nat \<Rightarrow> string" where
  "decimal n = (if n < 10 then [char_of (48 + n)] else decimal (n div 10) @ [char_of (48 + n mod 10)])"

declare decimal.simps [simp del]

text \<open>\<open>str(i)\<close> and \<open>int(s)\<close>: white space around, a sign, digits with single underscores between them.\<close>

definition int_text :: "int \<Rightarrow> string" where
  "int_text i = (if i < 0 then CHR ''-'' # decimal (nat (- i)) else decimal (nat i))"

definition digit_of :: "char \<Rightarrow> int option" where
  "digit_of c = (if 48 \<le> (of_char c :: nat) \<and> (of_char c :: nat) < 58 then Some (int (of_char c) - 48) else None)"

fun read_digits :: "int \<Rightarrow> bool \<Rightarrow> string \<Rightarrow> int option" where
  "read_digits acc after_digit [] = (if after_digit then Some acc else None)"
| "read_digits acc after_digit (c # cs) = (case digit_of c of
     Some d \<Rightarrow> read_digits (10 * acc + d) True cs
   | None \<Rightarrow> if c = CHR ''_'' \<and> after_digit then read_digits acc False cs else None)"

definition py_space :: "char \<Rightarrow> bool" where
  "py_space c \<longleftrightarrow> c \<in> set (map char_of [9, 10, 11, 12, 13, 28, 29, 30, 31, 32 :: nat])"

definition py_strip :: "string \<Rightarrow> string" where
  "py_strip s = rev (dropWhile py_space (rev (dropWhile py_space s)))"

definition read_int :: "string \<Rightarrow> int option" where
  "read_int s = (case py_strip s of [] \<Rightarrow> None
   | c # cs \<Rightarrow> if c = CHR ''-'' then map_option uminus (read_digits 0 False cs)
       else if c = CHR ''+'' then read_digits 0 False cs else read_digits 0 False (c # cs))"

text \<open>\<open>s.split(",")\<close>.\<close>

fun split_comma :: "string \<Rightarrow> string list" where
  "split_comma [] = [[]]"
| "split_comma (c # s) = (if c = CHR '','' then [] # split_comma s
     else case split_comma s of [] \<Rightarrow> [[c]] | p # ps \<Rightarrow> (c # p) # ps)"

lemma decimal_value: "foldl (\<lambda>a c. 10 * a + (of_char c - 48)) 0 (decimal n) = n"
proof (induction n rule: decimal.induct)
  case (1 n)
  then show ?case by (simp add: decimal.simps [of n])
qed

lemma decimal_inj [simp]: "decimal m = decimal n \<longleftrightarrow> m = n"
  by (metis decimal_value)

lemma decimal_digits: "c \<in> set (decimal n) \<Longrightarrow> 48 \<le> (of_char c :: nat) \<and> (of_char c :: nat) < 58"
proof (induction n rule: decimal.induct)
  case (1 n)
  then show ?case by (auto simp: decimal.simps [of n] split: if_splits)
qed

lemma decimal_not_Nil [simp]: "decimal n \<noteq> []"
  by (simp add: decimal.simps [of n])

lemma read_digits_fold:
  "\<forall>c\<in>set cs. 48 \<le> (of_char c :: nat) \<and> (of_char c :: nat) < 58 \<Longrightarrow> cs \<noteq> [] \<or> b \<Longrightarrow>
    read_digits (int acc) b cs = Some (int (foldl (\<lambda>a c. 10 * a + (of_char c - 48)) acc cs))"
proof (induction cs arbitrary: acc b)
  case (Cons c cs)
  then have c: "48 \<le> (of_char c :: nat)" "(of_char c :: nat) < 58" by simp_all
  then have step: "10 * int acc + (int (of_char c) - 48) = int (10 * acc + (of_char c - 48))" by (simp add: of_nat_diff)
  have "digit_of c = Some (int (of_char c) - 48)" using c by (simp add: digit_of_def)
  then have "read_digits (int acc) b (c # cs) = read_digits (int (10 * acc + (of_char c - 48))) True cs"
    by (simp only: read_digits.simps option.case step)
  also have "\<dots> = Some (int (foldl (\<lambda>a c. 10 * a + (of_char c - 48)) (10 * acc + (of_char c - 48)) cs))"
    by (rule Cons.IH) (use Cons.prems in simp_all)
  finally show ?case by simp
qed simp

lemma read_digits_decimal: "read_digits 0 False (decimal n) = Some (int n)"
proof -
  have "\<forall>c\<in>set (decimal n). 48 \<le> (of_char c :: nat) \<and> (of_char c :: nat) < 58" using decimal_digits by blast
  from read_digits_fold [OF this, of False 0] show ?thesis by (simp add: decimal_value)
qed

lemma strip_no_space:
  assumes "\<not> py_space (hd s)" and "\<not> py_space (last s)"
  shows "py_strip s = s"
proof (cases s)
  case (Cons c cs)
  then have "dropWhile py_space s = s" using assms(1) by simp
  moreover have "dropWhile py_space (rev s) = rev s" using assms(2) Cons by (cases "rev s") (auto simp: last_rev hd_rev [symmetric])
  ultimately show ?thesis by (simp add: py_strip_def)
qed (simp add: py_strip_def)

lemma digit_not_space: "48 \<le> (of_char c :: nat) \<Longrightarrow> \<not> py_space c"
  by (auto simp: py_space_def)

lemma read_int_text: "read_int (int_text i) = Some i"
proof -
  have ends: "\<not> py_space (last (decimal n))" "\<not> py_space (hd (decimal n))" "(of_char (hd (decimal n)) :: nat) \<ge> 48" for n
    using decimal_digits [of "last (decimal n)" n] decimal_digits [of "hd (decimal n)" n] by (simp_all add: digit_not_space)
  have minus: "\<not> py_space (CHR ''-'')" by code_simp
  have strip: "py_strip (int_text i) = int_text i"
    by (rule strip_no_space) (simp_all add: int_text_def ends minus)
  show ?thesis
  proof (cases "i < 0")
    case True
    then show ?thesis unfolding read_int_def strip by (simp add: int_text_def read_digits_decimal)
  next
    case False
    obtain c cs where d: "decimal (nat i) = c # cs" by (cases "decimal (nat i)") auto
    then have "c \<noteq> CHR ''-''" "c \<noteq> CHR ''+''" using ends(3) [of "nat i"] by auto
    then show ?thesis unfolding read_int_def strip using False d read_digits_decimal [of "nat i"] by (simp add: int_text_def)
  qed
qed

section \<open>Stripping and splitting\<close>

lemma strip_ends: "py_strip s \<noteq> [] \<Longrightarrow> \<not> py_space (hd (py_strip s)) \<and> \<not> py_space (last (py_strip s))"
proof -
  let ?t = "dropWhile py_space s"
  assume ne: "py_strip s \<noteq> []"
  have "?t \<noteq> []"
  proof
    assume "?t = []"
    then have "py_strip s = []" unfolding py_strip_def by (simp only: rev.simps dropWhile.simps)
    with ne show False by simp
  qed
  then have hd: "\<not> py_space (hd ?t)" by (rule hd_dropWhile)
  obtain u where u: "py_strip s @ u = ?t" unfolding py_strip_def
    by (metis rev_append rev_rev_ident takeWhile_dropWhile_id)
  then have "hd (py_strip s) = hd ?t" using ne by (metis hd_append2)
  moreover have "\<not> py_space (last (py_strip s))" using ne hd_dropWhile [of py_space "rev ?t"] by (simp add: py_strip_def last_rev)
  ultimately show ?thesis using hd by simp
qed

lemma strip_strip: "py_strip (py_strip s) = py_strip s"
proof (cases "py_strip s = []")
  case True
  show ?thesis unfolding True by (simp add: py_strip_def)
next
  case False
  with strip_ends [OF this] show ?thesis by (intro strip_no_space) simp_all
qed

lemma strip_subset: "set (py_strip s) \<subseteq> set s"
  unfolding py_strip_def by (auto dest!: set_dropWhileD)

lemma split_comma_not_Nil [simp]: "split_comma s \<noteq> []"
  by (cases s) (auto split: list.split)

lemma split_comma_parts: "p \<in> set (split_comma s) \<Longrightarrow> CHR '','' \<notin> set p"
  by (induction s arbitrary: p) (auto split: if_splits list.splits)

fun join_comma :: "string list \<Rightarrow> string" where
  "join_comma [] = []"
| "join_comma [p] = p"
| "join_comma (p # q # ps) = p @ CHR '','' # join_comma (q # ps)"

lemma split_comma_append: "CHR '','' \<notin> set p \<Longrightarrow> split_comma (p @ CHR '','' # s) = p # split_comma s"
  by (induction p) auto

lemma split_comma_single: "CHR '','' \<notin> set p \<Longrightarrow> split_comma p = [p]"
  by (induction p) auto

lemma split_join: "ps \<noteq> [] \<Longrightarrow> \<forall>p\<in>set ps. CHR '','' \<notin> set p \<Longrightarrow> split_comma (join_comma ps) = ps"
  by (induction ps rule: join_comma.induct) (simp_all add: split_comma_single split_comma_append)

section \<open>UTF-8\<close>

text \<open>A Unicode scalar value: a code point that is not a surrogate.\<close>

definition scalar :: "nat \<Rightarrow> bool" where
  "scalar c \<longleftrightarrow> c < 0x110000 \<and> \<not> (0xD800 \<le> c \<and> c < 0xE000)"

definition utf8_char :: "nat \<Rightarrow> string" where
  "utf8_char c = map char_of (
     if c < 0x80 then [c]
     else if c < 0x800 then [0xC0 + c div 64, 0x80 + c mod 64]
     else if c < 0x10000 then [0xE0 + c div 4096, 0x80 + c div 64 mod 64, 0x80 + c mod 64]
     else [0xF0 + c div 262144, 0x80 + c div 4096 mod 64, 0x80 + c div 64 mod 64, 0x80 + c mod 64])"

definition utf8 :: "nat list \<Rightarrow> string" where
  "utf8 cs = concat (map utf8_char cs)"

text \<open>The code points of a string of the model, which is the UTF-8 encoding of Python's.\<close>

fun code_points :: "string \<Rightarrow> nat list" where
  "code_points [] = []"
| "code_points (a # s) = (let x = of_char a :: nat in
     if x < 0x80 then x # code_points s
     else case s of [] \<Rightarrow> [x] | b # s \<Rightarrow> (let y = of_char b - 0x80 in
       if x < 0xE0 then ((x - 0xC0) * 64 + y) # code_points s
       else case s of [] \<Rightarrow> [x] | c # s \<Rightarrow> (let z = of_char c - 0x80 in
         if x < 0xF0 then ((x - 0xE0) * 4096 + y * 64 + z) # code_points s
         else case s of [] \<Rightarrow> [x] | d # s \<Rightarrow>
           ((x - 0xF0) * 262144 + y * 4096 + z * 64 + (of_char d - 0x80)) # code_points s)))"

definition unicode :: "string \<Rightarrow> bool" where
  "unicode s \<longleftrightarrow> (\<exists>cs. s = utf8 cs \<and> (\<forall>c\<in>set cs. scalar c))"

lemma div64: "(c :: nat) div 4096 = c div 64 div 64" "c div 262144 = c div 64 div 64 div 64"
  by (simp_all add: div_mult2_eq [symmetric])

text \<open>A sequence of two, three and four bytes.\<close>

lemma code_points_bytes:
  "x < 128 \<Longrightarrow> code_points (char_of x # s) = x # code_points s"
  "x < 32 \<Longrightarrow> y < 64 \<Longrightarrow> code_points (char_of (192 + x) # char_of (128 + y) # s) = (x * 64 + y) # code_points s"
  "x < 16 \<Longrightarrow> y < 64 \<Longrightarrow> z < 64 \<Longrightarrow> code_points (char_of (224 + x) # char_of (128 + y) # char_of (128 + z) # s) =
     (x * 4096 + y * 64 + z) # code_points s"
  "x < 8 \<Longrightarrow> y < 64 \<Longrightarrow> z < 64 \<Longrightarrow> w < 64 \<Longrightarrow>
     code_points (char_of (240 + x) # char_of (128 + y) # char_of (128 + z) # char_of (128 + w) # s) =
     (x * 262144 + y * 4096 + z * 64 + w) # code_points s"
  by simp_all

lemma code_points_char: "c < 0x110000 \<Longrightarrow> code_points (utf8_char c @ s) = c # code_points s"
proof -
  assume c: "c < 0x110000"
  have split: "m div 64 * 64 + m mod 64 = m" for m :: nat by simp
  consider "c < 0x80" | "0x80 \<le> c" "c < 0x800" | "0x800 \<le> c" "c < 0x10000" | "0x10000 \<le> c" by linarith
  then show ?thesis
  proof cases
    case 1
    then have "utf8_char c = [char_of c]" by (simp add: utf8_char_def)
    with 1 show ?thesis using code_points_bytes(1) [of c s] by simp
  next
    case 2
    then have "utf8_char c = [char_of (192 + c div 64), char_of (128 + c mod 64)]" by (simp add: utf8_char_def)
    moreover have "c div 64 < 32" using 2 by (intro less_mult_imp_div_less) simp
    ultimately show ?thesis using code_points_bytes(2) [of "c div 64" "c mod 64" s] split [of c] by simp
  next
    case 3
    then have "utf8_char c = [char_of (224 + c div 4096), char_of (128 + c div 64 mod 64), char_of (128 + c mod 64)]"
      by (simp add: utf8_char_def)
    moreover have "c div 4096 < 16" using 3 by (intro less_mult_imp_div_less) simp
    moreover have "c div 4096 * 4096 + c div 64 mod 64 * 64 + c mod 64 = c"
      using split [of c] split [of "c div 64"] unfolding div64 by linarith
    ultimately show ?thesis using code_points_bytes(3) [of "c div 4096" "c div 64 mod 64" "c mod 64" s] by simp
  next
    case 4
    then have "utf8_char c = [char_of (240 + c div 262144), char_of (128 + c div 4096 mod 64), char_of (128 + c div 64 mod 64), char_of (128 + c mod 64)]"
      by (simp add: utf8_char_def)
    moreover have "c div 262144 < 8" using c by (intro less_mult_imp_div_less) simp
    moreover have "c div 262144 * 262144 + c div 4096 mod 64 * 4096 + c div 64 mod 64 * 64 + c mod 64 = c"
      using split [of c] split [of "c div 64"] split [of "c div 64 div 64"] unfolding div64 by linarith
    ultimately show ?thesis
      using code_points_bytes(4) [of "c div 262144" "c div 4096 mod 64" "c div 64 mod 64" "c mod 64" s] by simp
  qed
qed

lemma code_points_utf8: "\<forall>c\<in>set cs. scalar c \<Longrightarrow> code_points (utf8 cs) = cs"
  by (induction cs) (simp_all add: utf8_def code_points_char scalar_def)

lemma unicode_code_points: "unicode s \<Longrightarrow> utf8 (code_points s) = s \<and> (\<forall>c\<in>set (code_points s). scalar c)"
  by (auto simp: unicode_def code_points_utf8)

text \<open>ASCII text is its own encoding.\<close>

definition ascii :: "string \<Rightarrow> bool" where
  "ascii s \<longleftrightarrow> (\<forall>c\<in>set s. (of_char c :: nat) < 0x80)"

lemma ascii_code_points: "ascii s \<Longrightarrow> code_points s = map of_char s"
  by (induction s) (simp_all add: ascii_def)

lemma ascii_unicode: "ascii s \<Longrightarrow> unicode s"
  unfolding unicode_def
proof (intro exI conjI)
  assume a: "ascii s"
  then show "s = utf8 (map of_char s)" by (induction s) (simp_all add: ascii_def utf8_def utf8_char_def)
  show "\<forall>c\<in>set (map of_char s). scalar c" using a by (auto simp: ascii_def scalar_def)
qed

end
