(* ===== verification/Trials.thy ===== *)
theory Trials
  imports Straggler Stats Py_Text
begin

text \<open>
  \<open>eval/generate_trial_seeds.py\<close> and \<open>eval/run_trials.py\<close>: the frozen manifest of trials, the
  run of the trials that have no result file yet, and the statistical decisions over the result
  files. The HTTP calls, the monotonic clock and the sleep act on a world of an arbitrary type;
  the result files are a map from trial ids to results. An exception that ends the script is a
  value, and a wait that never ends is \<open>None\<close>.
\<close>

section \<open>The manifest\<close>

record trial =
  tr_trial_id :: string
  tr_fault_type :: "string option"
  tr_target_host :: "string option"
  tr_intensity :: "int option"
  tr_phase_index :: int
  tr_sieve_limit :: int
  tr_seed :: int

record manifest =
  mf_fault_trials :: "trial list"
  mf_no_fault_trials :: "trial list"

definition FAULT_TRIALS_PER_TYPE :: nat where "FAULT_TRIALS_PER_TYPE = 40"
definition NO_FAULT_TRIALS :: nat where "NO_FAULT_TRIALS = 16"
definition SIEVE_LIMIT :: int where "SIEVE_LIMIT = 2000000"
definition NODE_COUNT :: nat where "NODE_COUNT = 8"
definition CPU_CONTENTION_INTENSITY :: int where "CPU_CONTENTION_INTENSITY = 2"
definition IO_STALL_INTENSITY :: int where "IO_STALL_INTENSITY = 4"

text \<open>\<open>f"{n}"\<close> and \<open>f"{n:04d}"\<close> for a number that is not negative.\<close>

definition decimal04 :: "nat \<Rightarrow> string" where
  "decimal04 n = (let s = decimal n in replicate (4 - length s) (CHR ''0'') @ s)"

definition fault_trials :: "string \<Rightarrow> int \<Rightarrow> int \<Rightarrow> trial list" where
  "fault_trials fault_type intensity seed_base =
     map (\<lambda>i. \<lparr>tr_trial_id = fault_type @ ''-'' @ decimal04 i, tr_fault_type = Some fault_type,
       tr_target_host = Some (''workload-'' @ decimal (i mod NODE_COUNT + 1)), tr_intensity = Some intensity,
       tr_phase_index = 0, tr_sieve_limit = SIEVE_LIMIT, tr_seed = seed_base + int i\<rparr>) [0..<FAULT_TRIALS_PER_TYPE]"

definition no_fault_trials :: "int \<Rightarrow> trial list" where
  "no_fault_trials seed_base =
     map (\<lambda>i. \<lparr>tr_trial_id = ''no-fault-'' @ decimal04 i, tr_fault_type = None, tr_target_host = None,
       tr_intensity = None, tr_phase_index = 0, tr_sieve_limit = SIEVE_LIMIT, tr_seed = seed_base + int i\<rparr>) [0..<NO_FAULT_TRIALS]"

definition frozen_manifest :: manifest where
  "frozen_manifest = \<lparr>mf_fault_trials = fault_trials ''cpu_contention'' CPU_CONTENTION_INTENSITY 10000
       @ fault_trials ''io_stall'' IO_STALL_INTENSITY 20000,
     mf_no_fault_trials = no_fault_trials 30000\<rparr>"

section \<open>One trial\<close>

text \<open>\<open>s.replace(old, new)\<close> for an \<open>old\<close> that is not empty.\<close>

function py_replace :: "string \<Rightarrow> string \<Rightarrow> string \<Rightarrow> string" where
  "py_replace old new s = (case s of
     [] \<Rightarrow> []
   | c # cs \<Rightarrow> if old \<noteq> [] \<and> take (length old) s = old then new @ py_replace old new (drop (length old) s)
       else c # py_replace old new cs)"
  by pat_completeness auto
termination
  by (relation "measure (\<lambda>(_, _, s). length s)") auto

declare py_replace.simps [simp del]

text \<open>The JSON body of a start request: the fault is target host, phase, type and intensity.\<close>

record trial_body =
  tb_phase_count :: int
  tb_sieve_limit :: int
  tb_fault :: "(string \<times> int \<times> string \<times> int option) option"

text \<open>
  \<open>Unreachable\<close> is a URLError or OSError (an error status is one), \<open>BadReply\<close> any other exception
  of a call.
\<close>

datatype http_error = Unreachable string | BadReply

record 'w service =
  sv_post_job :: "trial_body \<Rightarrow> 'w \<Rightarrow> (http_error + string) \<times> 'w"
  sv_job_status :: "string \<Rightarrow> 'w \<Rightarrow> (http_error + string) \<times> 'w"
  sv_report :: "string \<Rightarrow> int \<Rightarrow> 'w \<Rightarrow> (http_error + straggler_report) \<times> 'w"
  sv_monotonic :: "'w \<Rightarrow> rat \<times> 'w"
  sv_sleep :: "'w \<Rightarrow> 'w"

record completed_trial =
  ct_job_id :: string
  ct_fault_type :: "string option"
  ct_target_host :: "string option"
  ct_expected :: "string option"
  ct_status :: report_status
  ct_top_candidate :: "string option"
  ct_naive_candidate :: "string option"
  ct_root_cause :: "string option"
  ct_ranked_nodes :: "ranked_node list"

datatype trial_outcome = Aborted string | Completed completed_trial

datatype trial_error = CallFailed http_error | TargetAttributeError

type_synonym trial_results = "string \<rightharpoonup> trial_outcome"

definition JOB_POLL_TIMEOUT_S :: rat where "JOB_POLL_TIMEOUT_S = 30"

partial_function (option) wait_until :: "'w service \<Rightarrow> string \<Rightarrow> rat \<Rightarrow> 'w
    \<Rightarrow> ((trial_error + string option) \<times> 'w) option" where
  "wait_until sv job deadline w = (case sv_monotonic sv w of (now, w1) \<Rightarrow>
     if now < deadline then (case sv_job_status sv job w1 of
         (Inl e, w2) \<Rightarrow> Some (Inl (CallFailed e), w2)
       | (Inr status, w2) \<Rightarrow> if status = ''completed'' \<or> status = ''timed_out'' then Some (Inr (Some status), w2)
           else wait_until sv job deadline (sv_sleep sv w2))
     else Some (Inr None, w1))"

definition wait_for_job :: "'w service \<Rightarrow> string \<Rightarrow> 'w \<Rightarrow> ((trial_error + string option) \<times> 'w) option" where
  "wait_for_job sv job w = (case sv_monotonic sv w of (now, w1) \<Rightarrow>
     wait_until sv job (rnd (now + JOB_POLL_TIMEOUT_S)) w1)"

text \<open>The body and the expected node; \<open>None\<close> is the AttributeError of a fault without a target.\<close>

definition trial_request :: "trial \<Rightarrow> (trial_body \<times> string option) option" where
  "trial_request t = (case tr_fault_type t of
     None \<Rightarrow> Some (\<lparr>tb_phase_count = 1, tb_sieve_limit = tr_sieve_limit t, tb_fault = None\<rparr>, None)
   | Some fault_type \<Rightarrow> (case tr_target_host t of
       None \<Rightarrow> None
     | Some host \<Rightarrow> Some (\<lparr>tb_phase_count = 1, tb_sieve_limit = tr_sieve_limit t,
         tb_fault = Some (host, tr_phase_index t, fault_type, tr_intensity t)\<rparr>,
         Some (py_replace ''workload-'' ''node-'' host))))"

definition run_trial :: "'w service \<Rightarrow> trial \<Rightarrow> 'w \<Rightarrow> ((trial_error + trial_outcome) \<times> 'w) option" where
  "run_trial sv t w = (case trial_request t of
     None \<Rightarrow> Some (Inl TargetAttributeError, w)
   | Some (body, expected) \<Rightarrow> (case sv_post_job sv body w of
       (Inl (Unreachable exc), w1) \<Rightarrow> Some (Inr (Aborted (''dispatch_error: '' @ exc)), w1)
     | (Inl BadReply, w1) \<Rightarrow> Some (Inl (CallFailed BadReply), w1)
     | (Inr job, w1) \<Rightarrow> (case wait_for_job sv job w1 of
         None \<Rightarrow> None
       | Some (Inl e, w2) \<Rightarrow> Some (Inl e, w2)
       | Some (Inr None, w2) \<Rightarrow> Some (Inr (Aborted ''job_poll_timeout''), w2)
       | Some (Inr (Some status), w2) \<Rightarrow>
           if status \<noteq> ''completed'' then Some (Inr (Aborted (''job_status='' @ status)), w2)
           else (case sv_report sv job (tr_phase_index t) w2 of
             (Inl e, w3) \<Rightarrow> Some (Inl (CallFailed e), w3)
           | (Inr rep, w3) \<Rightarrow> Some (Inr (Completed \<lparr>ct_job_id = job, ct_fault_type = tr_fault_type t,
               ct_target_host = tr_target_host t, ct_expected = expected, ct_status = rep_status rep,
               ct_top_candidate = rep_top_candidate rep, ct_naive_candidate = rep_naive_baseline_candidate rep,
               ct_root_cause = rep_root_cause rep, ct_ranked_nodes = rep_ranked_nodes rep\<rparr>), w3)))))"

text \<open>The loop over the trials that are left; the result files are written one by one.\<close>

fun run_missing_trials :: "'w service \<Rightarrow> trial list \<Rightarrow> trial_results \<Rightarrow> 'w
    \<Rightarrow> (trial_error option \<times> trial_results \<times> 'w) option" where
  "run_missing_trials sv [] results w = Some (None, results, w)"
| "run_missing_trials sv (t # ts) results w =
     (if tr_trial_id t \<in> dom results then run_missing_trials sv ts results w
      else case run_trial sv t w of
        None \<Rightarrow> None
      | Some (Inl e, w') \<Rightarrow> Some (Some e, results, w')
      | Some (Inr r, w') \<Rightarrow> run_missing_trials sv ts (results(tr_trial_id t \<mapsto> r)) w')"

definition all_trials :: "manifest \<Rightarrow> trial list" where
  "all_trials mf = mf_fault_trials mf @ mf_no_fault_trials mf"

section \<open>Decisions\<close>

definition DETECTION_LOWER_BOUND_THRESHOLD :: rat where "DETECTION_LOWER_BOUND_THRESHOLD = 3/4"
definition FP_UPPER_BOUND_THRESHOLD :: rat where "FP_UPPER_BOUND_THRESHOLD = rnd (15/100)"
definition NO_FAULT_FP_UPPER_BOUND_THRESHOLD :: rat where "NO_FAULT_FP_UPPER_BOUND_THRESHOLD = rnd (1/10)"

definition EXPECTED_TAG :: "string \<rightharpoonup> string" where
  "EXPECTED_TAG = map_of [(''cpu_contention'', ''CPU_CONTENTION''), (''io_stall'', ''IO_STALL'')]"

datatype decide_error = WilsonError stats_error | ZeroDivisionError

record verdict =
  vd_pass :: bool
  vd_successes :: int
  vd_n :: int
  vd_predeclared_n :: int
  vd_point_estimate :: rat
  vd_lower :: rat
  vd_upper :: rat
  vd_bound_used :: rat
  vd_threshold :: rat

datatype decision = InsufficientTrials int int | Decided verdict

definition decide :: "int \<Rightarrow> int \<Rightarrow> int \<Rightarrow> bool \<Rightarrow> rat \<Rightarrow> decide_error + decision" where
  "decide successes n predeclared_n upper_bound_rule threshold =
     (if n < predeclared_n then Inr (InsufficientTrials n predeclared_n)
      else case wilson_interval successes n Z_95 of
        Inl e \<Rightarrow> Inl (WilsonError e)
      | Inr (lower, upper) \<Rightarrow>
          if n = 0 then Inl ZeroDivisionError
          else Inr (Decided \<lparr>vd_pass = (if upper_bound_rule then upper \<le> threshold else threshold \<le> lower),
            vd_successes = successes, vd_n = n, vd_predeclared_n = predeclared_n,
            vd_point_estimate = rnd (of_int successes / of_int n), vd_lower = lower, vd_upper = upper,
            vd_bound_used = (if upper_bound_rule then upper else lower), vd_threshold = threshold\<rparr>))"

fun passes :: "decision \<Rightarrow> bool" where
  "passes (InsufficientTrials _ _) \<longleftrightarrow> False"
| "passes (Decided v) \<longleftrightarrow> vd_pass v"

section \<open>The summary\<close>

text \<open>The first exception ends a sequence of decisions.\<close>

fun and_then :: "'e + 'a \<Rightarrow> ('a \<Rightarrow> 'e + 'b) \<Rightarrow> 'e + 'b" where
  "and_then (Inl e) f = Inl e"
| "and_then (Inr x) f = f x"

definition load_results :: "trial_results \<Rightarrow> string list \<Rightarrow> trial_outcome list" where
  "load_results results trial_ids = List.map_filter results trial_ids"

fun completed :: "trial_outcome \<Rightarrow> completed_trial option" where
  "completed (Completed c) = Some c"
| "completed (Aborted _) = None"

definition detected :: "completed_trial \<Rightarrow> bool" where
  "detected c \<longleftrightarrow> ct_status c = Ranked \<and> ct_top_candidate c = ct_expected c"

definition fault_false_positive :: "completed_trial \<Rightarrow> bool" where
  "fault_false_positive c \<longleftrightarrow> ct_status c = Ranked
     \<and> (\<exists>n\<in>set (ct_ranked_nodes c). rn_flagged n \<and> Some (rn_node_id n) \<noteq> ct_expected c)"

definition no_fault_false_flag :: "completed_trial \<Rightarrow> bool" where
  "no_fault_false_flag c \<longleftrightarrow> ct_status c = Ranked \<and> (\<exists>n\<in>set (ct_ranked_nodes c). rn_flagged n)"

definition tag_matches :: "completed_trial \<Rightarrow> bool" where
  "tag_matches c \<longleftrightarrow> ct_root_cause c = (case ct_fault_type c of None \<Rightarrow> None | Some f \<Rightarrow> EXPECTED_TAG f)"

definition count_if :: "('a \<Rightarrow> bool) \<Rightarrow> 'a list \<Rightarrow> int" where
  "count_if P xs = int (length (filter P xs))"

record summary =
  sm_top1_detection :: decision
  sm_false_positive :: decision
  sm_no_fault_false_flag :: decision
  sm_tag_accuracy :: decision
  sm_naive_baseline :: decision
  sm_cpu_contention :: decision
  sm_io_stall :: decision
  sm_primary_claim_supported :: bool
  sm_fault_outcomes :: "int \<times> int \<times> int"
  sm_no_fault_outcomes :: "int \<times> int \<times> int"

definition summarize :: "manifest \<Rightarrow> trial_results \<Rightarrow> decide_error + summary" where
  "summarize mf results =
     (let fault_ids = map tr_trial_id (mf_fault_trials mf);
          no_fault_ids = map tr_trial_id (mf_no_fault_trials mf);
          fault_results = load_results results fault_ids;
          no_fault_results = load_results results no_fault_ids;
          completed_fault = List.map_filter completed fault_results;
          completed_no_fault = List.map_filter completed no_fault_results;
          n_fault = int (length completed_fault);
          n_no_fault = int (length completed_no_fault);
          true_positives = filter detected completed_fault;
          fault_type_decision = (\<lambda>f. let subset = filter (\<lambda>c. ct_fault_type c = Some f) completed_fault in
             decide (count_if (\<lambda>c. ct_top_candidate c = ct_expected c) subset) (int (length subset)) 40 False
               DETECTION_LOWER_BOUND_THRESHOLD)
      in and_then (decide (count_if detected completed_fault) n_fault (int (length fault_ids)) False
            DETECTION_LOWER_BOUND_THRESHOLD) (\<lambda>e1.
         and_then (decide (count_if fault_false_positive completed_fault) n_fault (int (length fault_ids)) True
            FP_UPPER_BOUND_THRESHOLD) (\<lambda>e2.
         and_then (decide (count_if no_fault_false_flag completed_no_fault) n_no_fault (int (length no_fault_ids)) True
            NO_FAULT_FP_UPPER_BOUND_THRESHOLD) (\<lambda>e3.
         and_then (decide (count_if tag_matches true_positives) (int (length true_positives)) (int (length true_positives))
            False 0) (\<lambda>e4.
         and_then (decide (count_if (\<lambda>c. ct_naive_candidate c = ct_expected c) completed_fault) n_fault
            (int (length fault_ids)) False DETECTION_LOWER_BOUND_THRESHOLD) (\<lambda>naive.
         and_then (fault_type_decision ''cpu_contention'') (\<lambda>cpu.
         and_then (fault_type_decision ''io_stall'') (\<lambda>io.
           Inr \<lparr>sm_top1_detection = e1, sm_false_positive = e2, sm_no_fault_false_flag = e3, sm_tag_accuracy = e4,
             sm_naive_baseline = naive, sm_cpu_contention = cpu, sm_io_stall = io,
             sm_primary_claim_supported = (passes e1 \<and> passes e2),
             sm_fault_outcomes = (n_fault, int (length fault_results) - n_fault, int (length fault_ids) - int (length fault_results)),
             sm_no_fault_outcomes = (n_no_fault, int (length no_fault_results) - n_no_fault,
               int (length no_fault_ids) - int (length no_fault_results))\<rparr>))))))))"

section \<open>When a decision raises\<close>

text \<open>A count of a part of \<open>n\<close> trials never makes the interval raise; only the empty estimate does.\<close>

lemma Z_95_nonneg: "0 \<le> Z_95"
  unfolding Z_95_def by (rule rnd_nonneg) simp

definition bound_met :: "int \<Rightarrow> int \<Rightarrow> bool \<Rightarrow> rat \<Rightarrow> bool" where
  "bound_met s n u t \<longleftrightarrow> (case wilson_interval s n Z_95 of Inl _ \<Rightarrow> False
     | Inr (lower, upper) \<Rightarrow> if u then upper \<le> t else t \<le> lower)"

lemma decide_cases:
  assumes "0 \<le> s" and "s \<le> n"
  shows "decide s n p u t = (if n < p then Inr (InsufficientTrials n p) else if n = 0 then Inl ZeroDivisionError
     else Inr (Decided \<lparr>vd_pass = bound_met s n u t, vd_successes = s, vd_n = n, vd_predeclared_n = p, vd_point_estimate = rnd (of_int s / of_int n),
       vd_lower = fst (projr (wilson_interval s n Z_95)), vd_upper = snd (projr (wilson_interval s n Z_95)),
       vd_bound_used = (if u then snd else fst) (projr (wilson_interval s n Z_95)), vd_threshold = t\<rparr>))"
  using wilson_interval_unit [OF Z_95_nonneg, where successes = s and n = n] assms
  by (cases "wilson_interval s n Z_95") (auto simp: decide_def bound_met_def)

lemma count_if_bounds: "0 \<le> count_if P xs" "count_if P xs \<le> int (length xs)"
  by (simp_all add: count_if_def)

lemma decide_count_error:
  "n = int (length xs) \<Longrightarrow> decide (count_if P xs) n p u t = Inl e \<longleftrightarrow> xs = [] \<and> p \<le> 0 \<and> e = ZeroDivisionError"
  by (auto simp: decide_cases [OF count_if_bounds])

lemma decide_count_passes:
  "decide (count_if P xs) (int (length xs)) p u t = Inr d \<Longrightarrow>
   passes d \<longleftrightarrow> p \<le> int (length xs) \<and> bound_met (count_if P xs) (int (length xs)) u t"
  by (subst (asm) decide_cases [OF count_if_bounds]) (auto simp only: passes.simps verdict.simps split: if_splits)

lemma and_then_Inl: "and_then x f = Inl e \<longleftrightarrow> x = Inl e \<or> (\<exists>y. x = Inr y \<and> f y = Inl e)"
  by (cases x) auto

lemma and_then_Inr: "and_then x f = Inr z \<longleftrightarrow> (\<exists>y. x = Inr y \<and> f y = Inr z)"
  by (cases x) auto

section \<open>Numerals and names\<close>

lemma decimal04_inj [simp]: "decimal04 m = decimal04 n \<longleftrightarrow> m = n"
proof -
  let ?f = "\<lambda>a c. 10 * a + (of_char c - 48) :: nat"
  have zeros: "foldl ?f 0 (replicate k (CHR ''0'')) = 0" for k
    by (induction k) simp_all
  have "foldl ?f 0 (decimal04 n) = n" for n
    by (simp add: decimal04_def Let_def zeros decimal_value)
  then show ?thesis by metis
qed

lemma py_replace_absent:
  assumes "hd old \<notin> set s"
  shows "py_replace old new s = s"
  using assms
proof (induction s)
  case (Cons c s)
  have "old \<noteq> [] \<Longrightarrow> take (length old) (c # s) \<noteq> old" using Cons.prems by (cases old) auto
  then show ?case using Cons by (auto simp: py_replace.simps [of old new "c # s"])
qed (simp add: py_replace.simps [of old new "[]"])

lemma py_replace_prefix: "old \<noteq> [] \<Longrightarrow> hd old \<notin> set s \<Longrightarrow> py_replace old new (old @ s) = new @ s"
  using py_replace.simps [of old new "old @ s"] by (cases old) (simp_all add: py_replace_absent)

lemma node_of_host: "py_replace ''workload-'' ''node-'' (''workload-'' @ decimal i) = ''node-'' @ decimal i"
proof (rule py_replace_prefix)
  show "hd ''workload-'' \<notin> set (decimal i)" using decimal_digits [of "hd ''workload-''" i] by auto
qed simp

text \<open>The trials of one fault type.\<close>

lemma fault_trials_balanced:
  assumes "i \<in> {1..<9}"
  shows "length (filter (\<lambda>t. tr_fault_type t = Some f \<and> tr_target_host t = Some (''workload-'' @ decimal i))
     (fault_trials g n b)) = (if f = g then 5 else 0)"
proof -
  have "list_all (\<lambda>i. length (filter (\<lambda>j. j mod 8 + 1 = i) [0..<40]) = 5) [1..<9]" by code_simp
  then have "length (filter (\<lambda>j. j mod 8 + 1 = i) [0..<40]) = 5" using assms by (simp add: list_all_iff)
  moreover have "filter (\<lambda>j. Suc (j mod 8) = i \<and> f = g) [0..<40] = (if f = g then filter (\<lambda>j. j mod 8 + 1 = i) [0..<40] else [])"
    by simp
  ultimately show ?thesis
    by (simp add: fault_trials_def filter_map comp_def NODE_COUNT_def FAULT_TRIALS_PER_TYPE_def conj_commute cong: conj_cong)
qed

lemma fault_trials_ids: "distinct (map tr_trial_id (fault_trials f n b))"
  by (simp add: fault_trials_def comp_def distinct_map inj_on_def)

lemma fault_trials_requests:
  assumes "t \<in> set (fault_trials f n b)"
  shows "\<exists>i\<in>set [1..<9]. trial_request t = Some (\<lparr>tb_phase_count = 1, tb_sieve_limit = SIEVE_LIMIT,
      tb_fault = Some (''workload-'' @ decimal i, 0, f, Some n)\<rparr>, Some (''node-'' @ decimal i))"
proof -
  obtain j where t: "t = \<lparr>tr_trial_id = f @ ''-'' @ decimal04 j, tr_fault_type = Some f,
       tr_target_host = Some (''workload-'' @ decimal (j mod NODE_COUNT + 1)), tr_intensity = Some n,
       tr_phase_index = 0, tr_sieve_limit = SIEVE_LIMIT, tr_seed = b + int j\<rparr>"
    using assms by (auto simp: fault_trials_def)
  have "j mod NODE_COUNT + 1 \<in> set [1..<9]" by (simp add: NODE_COUNT_def Suc_le_eq)
  then show ?thesis unfolding t trial_request_def trial.simps option.case node_of_host by blast
qed

lemma fault_trial_0: "\<exists>t\<in>set (fault_trials f n b). tr_trial_id t = f @ ''-0000''"
proof -
  have "decimal04 0 = ''0000''" by code_simp
  then show ?thesis by (force simp: fault_trials_def FAULT_TRIALS_PER_TYPE_def)
qed

section \<open>The trials that completed\<close>

definition completed_trials :: "trial_results \<Rightarrow> trial list \<Rightarrow> completed_trial list" where
  "completed_trials results ts = List.map_filter completed (load_results results (map tr_trial_id ts))"

lemma completed_Some [simp]: "completed r = Some c \<longleftrightarrow> r = Completed c"
  by (cases r) auto

lemma completed_trials_simps [simp]:
  "completed_trials results [] = []"
  "completed_trials results (t # ts) = (case results (tr_trial_id t) of
     Some (Completed c) \<Rightarrow> c # completed_trials results ts | _ \<Rightarrow> completed_trials results ts)"
  by (auto simp: completed_trials_def load_results_def List.map_filter_simps split: option.split trial_outcome.split)

lemma set_completed_trials:
  "c \<in> set (completed_trials results ts) \<longleftrightarrow> (\<exists>t\<in>set ts. results (tr_trial_id t) = Some (Completed c))"
  by (induction ts) (auto split: option.splits trial_outcome.splits)

lemma length_completed_trials: "length (completed_trials results ts) \<le> length ts"
  by (induction ts) (auto split: option.splits trial_outcome.splits)

lemma all_completed_iff:
  "length ts \<le> length (completed_trials results ts) \<longleftrightarrow> (\<forall>t\<in>set ts. \<exists>c. results (tr_trial_id t) = Some (Completed c))"
proof (induction ts)
  case (Cons t ts)
  then show ?case using length_completed_trials [of results ts]
    by (auto split: option.splits trial_outcome.splits)
qed simp

lemma decide_count_ok:
  "n = int (length xs) \<Longrightarrow> (\<exists>d. decide (count_if P xs) n p u t = Inr d) \<longleftrightarrow> xs \<noteq> [] \<or> 0 < p"
  by (auto simp: decide_cases [OF count_if_bounds])

lemma decide_count_not_ok:
  "n = int (length xs) \<Longrightarrow> (\<forall>d. decide (count_if P xs) n p u t \<noteq> Inr d) \<longleftrightarrow> xs = [] \<and> p \<le> 0"
  by (auto simp: decide_cases [OF count_if_bounds])

text \<open>The summary raises in the empty estimates only.\<close>

lemma summarize_Inl:
  "summarize mf results = Inl e \<longleftrightarrow> e = ZeroDivisionError \<and> (mf_no_fault_trials mf = []
     \<or> filter detected (completed_trials results (mf_fault_trials mf)) = [])"
  unfolding summarize_def Let_def completed_trials_def [symmetric] and_then_Inl
  by (cases "mf_fault_trials mf = []"; cases "mf_no_fault_trials mf = []";
      cases "completed_trials results (mf_fault_trials mf) = []")
    (simp_all add: decide_count_error decide_count_ok decide_count_not_ok, blast)

lemma summarize_decisions:
  assumes "summarize mf results = Inr s"
  shows "sm_primary_claim_supported s \<longleftrightarrow> length (mf_fault_trials mf) \<le> length (completed_trials results (mf_fault_trials mf))
      \<and> bound_met (count_if detected (completed_trials results (mf_fault_trials mf)))
          (int (length (completed_trials results (mf_fault_trials mf)))) False DETECTION_LOWER_BOUND_THRESHOLD
      \<and> bound_met (count_if fault_false_positive (completed_trials results (mf_fault_trials mf)))
          (int (length (completed_trials results (mf_fault_trials mf)))) True FP_UPPER_BOUND_THRESHOLD"
    and "passes (sm_no_fault_false_flag s) \<longleftrightarrow> length (mf_no_fault_trials mf) \<le> length (completed_trials results (mf_no_fault_trials mf))
      \<and> bound_met (count_if no_fault_false_flag (completed_trials results (mf_no_fault_trials mf)))
          (int (length (completed_trials results (mf_no_fault_trials mf)))) True NO_FAULT_FP_UPPER_BOUND_THRESHOLD"
  using assms unfolding summarize_def Let_def completed_trials_def [symmetric] and_then_Inr
  by (auto simp: decide_count_passes)

lemma bound_met_cases:
  "bound_met s n True t \<longleftrightarrow> (case wilson_interval s n Z_95 of Inl _ \<Rightarrow> False | Inr (_, upper) \<Rightarrow> upper \<le> t)"
  "bound_met s n False t \<longleftrightarrow> (case wilson_interval s n Z_95 of Inl _ \<Rightarrow> False | Inr (lower, _) \<Rightarrow> t \<le> lower)"
  by (simp_all add: bound_met_def split: sum.split)

section \<open>The bounds of sixteen and of eighty trials\<close>

lemma float_below: "rnd a = a \<Longrightarrow> a \<le> x \<Longrightarrow> a \<le> rnd x"
  by (rule b64.above)

lemma float_above: "rnd a = a \<Longrightarrow> x \<le> a \<Longrightarrow> rnd x \<le> a"
  by (rule b64.below)

lemma dyadic: "\<bar>m\<bar> \<le> 2 ^ 53 \<Longrightarrow> k \<le> 1074 \<Longrightarrow> rnd (of_int m / 2 ^ k) = of_int m / 2 ^ k"
  by (rule rnd_exact [of _ m "- int k"]) (simp_all add: power_int_minus divide_inverse)

lemma upper_bound_16:
  assumes "wilson_interval s 16 Z_95 = Inr (lower, upper)" and "0 \<le> s" and "s \<le> 16"
  shows "1/8 \<le> upper"
proof -
  let ?phat = "rnd (of_int s / 16)" and ?z2 = "rnd (Z_95 * Z_95)"
  let ?denom = "rnd (1 + rnd (?z2 / 16))"
  let ?center = "rnd (rnd (?phat + rnd (?z2 / 32)) / ?denom)"
  let ?rad = "rnd (rnd (rnd (?phat * rnd (1 - ?phat)) + rnd (?z2 / 64)) / 16)"
  have d: "rnd 2 = 2" "rnd 4 = 4" "rnd (5/4) = 5/4" "rnd (15/8) = 15/8" "rnd (7/2) = 7/2" "rnd (1/4) = 1/4"
    "rnd (7/64) = 7/64" "rnd (11/128) = 11/128" "rnd (7/128) = 7/128" "rnd (7/2048) = 7/2048"
    "rnd (13/128) = 13/128" "rnd (5/64) = 5/64" "rnd (1/8) = 1/8"
    using dyadic [of 2 0] dyadic [of 4 0] dyadic [of 5 2] dyadic [of 15 3] dyadic [of 7 1] dyadic [of 1 2]
      dyadic [of 7 6] dyadic [of 11 7] dyadic [of 7 7] dyadic [of 7 11] dyadic [of 13 7] dyadic [of 5 6] dyadic [of 1 3]
    by simp_all
  have z: "15/8 \<le> Z_95" "Z_95 \<le> 2"
    unfolding Z_95_def by (rule float_below [OF d(4)], simp) (rule float_above [OF d(1)], simp)
  have "15/8 * (15/8) \<le> Z_95 * Z_95" "Z_95 * Z_95 \<le> 2 * 2" using z by (intro mult_mono; simp)+
  then have zz: "7/2 \<le> Z_95 * Z_95" "Z_95 * Z_95 \<le> 4" by simp_all
  have z2: "7/2 \<le> ?z2" "?z2 \<le> 4" by (rule float_below [OF d(5) zz(1)], rule float_above [OF d(2) zz(2)])
  have "0 \<le> rnd (?z2 / 16)" using z2 by (intro rnd_nonneg) simp
  moreover have "rnd (?z2 / 16) \<le> 1/4" by (rule float_above [OF d(6)]) (use z2 in simp)
  ultimately have one: "1 \<le> 1 + rnd (?z2 / 16)" "1 + rnd (?z2 / 16) \<le> 5/4" by simp_all
  have denom: "1 \<le> ?denom" "?denom \<le> 5/4"
    by (rule float_below [OF b64.one one(1)], rule float_above [OF d(3) one(2)])
  have quot: "a / (5/4) \<le> x / ?denom" if "a \<le> x" "0 \<le> a" for a x using that denom by (intro frac_le) simp_all
  have phat: "0 \<le> ?phat" "?phat \<le> 1" using assms(2,3) b64.unit_interval [of "of_int s / 16"] by simp_all
  then have "0 \<le> rnd (1 - ?phat)" by (intro rnd_nonneg) simp
  with phat(1) have "0 \<le> ?phat * rnd (1 - ?phat)" by (rule mult_nonneg_nonneg)
  then have pq: "0 \<le> rnd (?phat * rnd (1 - ?phat))" by (rule rnd_nonneg)
  have "7/64 \<le> rnd (?z2 / 32)" by (rule float_below [OF d(7)]) (use z2 in simp)
  then have "7/64 \<le> rnd (?phat + rnd (?z2 / 32))" by (intro float_below [OF d(7)]) (use phat in simp)
  from quot [OF this] have center: "11/128 \<le> ?center" by (intro float_below [OF d(8)]) simp
  have "7/128 \<le> rnd (?z2 / 64)" by (rule float_below [OF d(9)]) (use z2 in simp)
  then have "7/128 \<le> rnd (rnd (?phat * rnd (1 - ?phat)) + rnd (?z2 / 64))" by (intro float_below [OF d(9)]) (use pq in simp)
  then have rad: "7/2048 \<le> ?rad" by (intro float_below [OF d(10)]) simp
  have "rnd (7/128) \<le> float_sqrt ?rad" by (rule float_sqrt_correct(1)) (use rad in simp_all)
  then have sqrt: "7/128 \<le> float_sqrt ?rad" unfolding d(9) .
  have "15/8 * (7/128) \<le> Z_95 * float_sqrt ?rad" using z sqrt by (intro mult_mono) simp_all
  then have "13/128 \<le> rnd (Z_95 * float_sqrt ?rad)" by (intro float_below [OF d(11)]) simp
  from quot [OF this] have margin: "5/64 \<le> rnd (rnd (Z_95 * float_sqrt ?rad) / ?denom)" by (intro float_below [OF d(12)]) simp
  have "1/8 \<le> rnd (?center + rnd (rnd (Z_95 * float_sqrt ?rad) / ?denom))"
    by (rule float_below [OF d(13)]) (use center margin in simp)
  moreover have "upper = min 1 (rnd (?center + rnd (rnd (Z_95 * float_sqrt ?rad) / ?denom)))"
    using assms rad rnd_of_int [of 16] rnd_of_int [of 32] rnd_of_int [of 64]
    by (simp add: wilson_interval_def Let_def split: if_splits)
  ultimately show ?thesis by simp
qed

lemma no_fault_bound_fails:
  assumes "length xs \<le> 16"
  shows "\<not> (16 \<le> length xs \<and> bound_met (count_if P xs) (int (length xs)) True NO_FAULT_FP_UPPER_BOUND_THRESHOLD)"
proof -
  have "rnd (15/128) = 15/128" using dyadic [of 15 7] by simp
  then have "rnd (1/10) \<le> 15/128" by (rule float_above) simp
  then have "\<not> bound_met (count_if P xs) 16 True NO_FAULT_FP_UPPER_BOUND_THRESHOLD" if "length xs = 16"
    using upper_bound_16 [of "count_if P xs"] count_if_bounds [of P xs] that
    by (fastforce simp: bound_met_def NO_FAULT_FP_UPPER_BOUND_THRESHOLD_def split: sum.splits)
  then show ?thesis using assms by (cases "length xs = 16") auto
qed

lemma float_range: "rnd a = a \<Longrightarrow> rnd b = b \<Longrightarrow> a \<le> x \<Longrightarrow> x \<le> b \<Longrightarrow> a \<le> rnd x \<and> rnd x \<le> b"
  by (simp add: float_below float_above)

text \<open>The bounds of eighty trials without, or with nothing but, a success.\<close>

lemma sure_bounds_80:
  assumes "s = 0 \<or> s = 80"
  obtains lower upper where "wilson_interval s 80 Z_95 = Inr (lower, upper)"
    and "s = 80 \<Longrightarrow> 3/4 \<le> lower" and "s = 0 \<Longrightarrow> upper \<le> 1/8"
proof -
  let ?phat = "rnd (of_int s / 80)" and ?z2 = "rnd (Z_95 * Z_95)"
  let ?denom = "rnd (1 + rnd (?z2 / 80))"
  let ?center = "rnd (rnd (?phat + rnd (?z2 / 160)) / ?denom)"
  let ?rad = "rnd (rnd (rnd (?phat * rnd (1 - ?phat)) + rnd (?z2 / 320)) / 80)"
  let ?margin = "rnd (rnd (Z_95 * float_sqrt ?rad) / ?denom)"
  have d: "rnd 2 = 2" "rnd 4 = 4" "rnd (15/8) = 15/8" "rnd (1/16) = 1/16" "rnd (17/16) = 17/16" "rnd (15/16) = 15/16"
    "rnd (1/64) = 1/64" "rnd (1/4096) = 1/4096" "rnd (1/32) = 1/32" "rnd (29/32) = 29/32" "rnd 0 = 0"
    using dyadic [of 2 0] dyadic [of 4 0] dyadic [of 15 3] dyadic [of 1 4] dyadic [of 17 4] dyadic [of 15 4]
      dyadic [of 1 6] dyadic [of 1 12] dyadic [of 1 5] dyadic [of 29 5] dyadic [of 0 0]
    by simp_all
  have z: "0 \<le> Z_95" "Z_95 \<le> 2"
    using Z_95_nonneg unfolding Z_95_def by simp (rule float_above [OF d(1)], simp)
  then have zz: "Z_95 * Z_95 \<le> 2 * 2" "0 \<le> Z_95 * Z_95" by (intro mult_mono) simp_all
  have z2: "0 \<le> ?z2 \<and> ?z2 \<le> 4" by (rule float_range [OF d(11,2)]) (use zz in simp_all)
  have "0 \<le> rnd (?z2 / 80) \<and> rnd (?z2 / 80) \<le> 1/16" by (rule float_range [OF d(11,4)]) (use z2 in simp_all)
  then have denom: "1 \<le> ?denom \<and> ?denom \<le> 17/16" by (intro float_range [OF b64.one d(5)]) simp_all
  have phat: "?phat * rnd (1 - ?phat) = 0" "?phat = (if s = 0 then 0 else 1)"
    using assms b64.one d(11) by auto
  have "0 \<le> rnd (?z2 / 320) \<and> rnd (?z2 / 320) \<le> 1/64" by (rule float_range [OF d(11,7)]) (use z2 in simp_all)
  then have "0 \<le> rnd (rnd (?phat * rnd (1 - ?phat)) + rnd (?z2 / 320))
      \<and> rnd (rnd (?phat * rnd (1 - ?phat)) + rnd (?z2 / 320)) \<le> 1/64"
    unfolding phat(1) d(11) by (intro float_range [OF d(11,7)]) simp_all
  then have rad: "0 \<le> ?rad \<and> ?rad \<le> 1/4096" by (intro float_range [OF d(11,8)]) simp_all
  have "float_sqrt ?rad \<le> 1/64"
  proof (cases "?rad = 0")
    case False
    then have "float_sqrt ?rad \<le> rnd (1/64)" by (intro float_sqrt_correct(2)) (use rad in simp_all)
    then show ?thesis unfolding d(7) .
  qed (simp add: float_sqrt_def)
  then have "Z_95 * float_sqrt ?rad \<le> 2 * (1/64)" using z float_sqrt_nonneg by (intro mult_mono) simp_all
  then have "rnd (Z_95 * float_sqrt ?rad) \<le> 1/32" by (intro float_above [OF d(9)]) simp
  then have "rnd (Z_95 * float_sqrt ?rad) / ?denom \<le> 1/32 / 1" using denom by (intro frac_le) simp_all
  then have margin: "?margin \<le> 1/32" by (intro float_above [OF d(9)]) simp
  have w: "wilson_interval s 80 Z_95 = Inr (max 0 (rnd (?center - ?margin)), min 1 (rnd (?center + ?margin)))"
    using assms rad rnd_of_int [of 80] rnd_of_int [of 160] rnd_of_int [of 320]
    by (auto simp: wilson_interval_def Let_def)
  have e: "0 \<le> rnd (?z2 / 160) \<and> rnd (?z2 / 160) \<le> 1/32" by (rule float_range [OF d(11,9)]) (use z2 in simp_all)
  show thesis
  proof (rule that [OF w])
    assume "s = 80"
    then have "1 \<le> rnd (?phat + rnd (?z2 / 160))" using phat(2) e by (intro float_below [OF b64.one]) simp
    then have "1 / (17/16) \<le> rnd (?phat + rnd (?z2 / 160)) / ?denom" using denom by (intro frac_le) simp_all
    then have "15/16 \<le> ?center" by (intro float_below [OF d(6)]) simp
    then have "29/32 \<le> rnd (?center - ?margin)" using margin by (intro float_below [OF d(10)]) simp
    then show "3/4 \<le> max 0 (rnd (?center - ?margin))" by simp
  next
    assume "s = 0"
    then have "rnd (?phat + rnd (?z2 / 160)) \<le> 1/32" using phat(2) e by (intro float_above [OF d(9)]) simp
    then have "rnd (?phat + rnd (?z2 / 160)) / ?denom \<le> 1/32 / 1" using denom by (intro frac_le) simp_all
    then have "?center \<le> 1/32" by (intro float_above [OF d(9)]) simp
    then have "rnd (?center + ?margin) \<le> 1/16" using margin by (intro float_above [OF d(4)]) simp
    then show "min 1 (rnd (?center + ?margin)) \<le> 1/8" by simp
  qed
qed

lemma sure_bounds_met:
  shows "bound_met 80 80 False DETECTION_LOWER_BOUND_THRESHOLD" and "bound_met 0 80 True FP_UPPER_BOUND_THRESHOLD"
proof -
  have "rnd (1/8) = 1/8" using dyadic [of 1 3] by simp
  then have "1/8 \<le> rnd (15/100)" by (rule float_below) simp
  then show "bound_met 80 80 False DETECTION_LOWER_BOUND_THRESHOLD" and "bound_met 0 80 True FP_UPPER_BOUND_THRESHOLD"
    by (auto simp: bound_met_def DETECTION_LOWER_BOUND_THRESHOLD_def FP_UPPER_BOUND_THRESHOLD_def
        intro: sure_bounds_80 [of 80] sure_bounds_80 [of 0])
qed

section \<open>Running the trials that are missing\<close>

lemma run_missing_extends:
  assumes "run_missing_trials sv ts results w = Some (e, results', w')"
  shows "results \<subseteq>\<^sub>m results' \<and> dom results' \<subseteq> dom results \<union> tr_trial_id ` set ts
    \<and> (e = None \<longrightarrow> tr_trial_id ` set ts \<subseteq> dom results')"
  using assms
proof (induction ts arbitrary: results w)
  case (Cons t ts)
  show ?case
  proof (cases "tr_trial_id t \<in> dom results")
    case True
    then have "run_missing_trials sv ts results w = Some (e, results', w')" using Cons.prems by simp
    from Cons.IH [OF this] True show ?thesis by (auto dest: map_le_implies_dom_le)
  next
    case False
    then obtain res w1 where run: "run_trial sv t w = Some (res, w1)"
      using Cons.prems by (auto split: option.splits)
    show ?thesis
    proof (cases res)
      case (Inl x)
      then show ?thesis using Cons.prems False run by auto
    next
      case (Inr r)
      then have "run_missing_trials sv ts (results(tr_trial_id t \<mapsto> r)) w1 = Some (e, results', w')"
        using Cons.prems False run by simp
      from Cons.IH [OF this] have "results(tr_trial_id t \<mapsto> r) \<subseteq>\<^sub>m results'"
        "dom results' \<subseteq> dom (results(tr_trial_id t \<mapsto> r)) \<union> tr_trial_id ` set ts"
        "e = None \<longrightarrow> tr_trial_id ` set ts \<subseteq> dom results'" by blast+
      moreover have "results \<subseteq>\<^sub>m results(tr_trial_id t \<mapsto> r)" using False by (auto simp: map_le_def)
      ultimately show ?thesis by (auto dest: map_le_trans map_le_implies_dom_le)
    qed
  qed
qed simp

lemma run_missing_skips: "tr_trial_id ` set ts \<subseteq> dom results \<Longrightarrow> run_missing_trials sv ts results w = Some (None, results, w)"
  by (induction ts) auto

text \<open>A wait ends when every round of polling takes some time, and then so does the whole run.\<close>

lemma wait_until_returns:
  assumes "\<And>w. fst (sv_monotonic sv w) + 1/10 \<le> fst (sv_monotonic sv (sv_sleep sv (snd (sv_job_status sv job (snd (sv_monotonic sv w))))))"
  shows "\<exists>r. wait_until sv job deadline w = Some r"
proof (induction "nat \<lceil>(deadline - fst (sv_monotonic sv w)) * 10\<rceil>" arbitrary: w rule: less_induct)
  case less
  obtain now w1 where m: "sv_monotonic sv w = (now, w1)" by fastforce
  obtain st w2 where j: "sv_job_status sv job w1 = (st, w2)" by fastforce
  have step: "now + 1/10 \<le> fst (sv_monotonic sv (sv_sleep sv w2))" using assms [of w] m j by simp
  have "\<exists>r. wait_until sv job deadline (sv_sleep sv w2) = Some r" if "now < deadline"
  proof (rule less.hyps)
    have "(deadline - fst (sv_monotonic sv (sv_sleep sv w2))) * 10 \<le> (deadline - now) * 10 - 1" using step by simp
    then have "\<lceil>(deadline - fst (sv_monotonic sv (sv_sleep sv w2))) * 10\<rceil> \<le> \<lceil>(deadline - now) * 10\<rceil> - 1"
      by (metis ceiling_diff_one ceiling_mono)
    moreover have "0 < \<lceil>(deadline - now) * 10\<rceil>" using that by simp
    ultimately show "nat \<lceil>(deadline - fst (sv_monotonic sv (sv_sleep sv w2))) * 10\<rceil> < nat \<lceil>(deadline - fst (sv_monotonic sv w)) * 10\<rceil>"
      using m by simp
  qed
  then show ?case using m j by (simp add: wait_until.simps [of sv job deadline w] split: sum.split)
qed

lemma run_missing_returns:
  assumes "\<And>job w. fst (sv_monotonic sv w) + 1/10 \<le> fst (sv_monotonic sv (sv_sleep sv (snd (sv_job_status sv job (snd (sv_monotonic sv w))))))"
  shows "\<exists>e results' w'. run_missing_trials sv ts results w = Some (e, results', w')"
proof (induction ts arbitrary: results w)
  case (Cons t ts)
  have returns: "wait_for_job sv job x \<noteq> None" for job x
    using wait_until_returns [OF assms] by (simp add: wait_for_job_def split: prod.split)
  have "run_trial sv t w \<noteq> None"
    by (auto simp: run_trial_def returns split: option.splits prod.splits sum.splits http_error.splits)
  then show ?case using Cons.IH by (auto split: option.splits sum.splits)
qed simp

section \<open>Properties\<close>

text \<open>
  C35. The frozen manifest is sound: its 96 trials have distinct ids, so each has a result file of
  its own, and distinct seeds; of each fault type, every host of the rack is the target of exactly
  five trials; every fault is for a phase of its one-phase job; the expected node of a trial is the
  node of its target; and trials without a fault name none.
\<close>

theorem frozen_manifest_sound:
  "distinct (map tr_trial_id (all_trials frozen_manifest)) \<and> distinct (map tr_seed (all_trials frozen_manifest))
   \<and> length (mf_fault_trials frozen_manifest) = 80 \<and> length (mf_no_fault_trials frozen_manifest) = 16
   \<and> list_all (\<lambda>f. list_all (\<lambda>i. length (filter (\<lambda>t. tr_fault_type t = Some f
          \<and> tr_target_host t = Some (''workload-'' @ decimal i)) (mf_fault_trials frozen_manifest)) = 5) [1..<9])
       [''cpu_contention'', ''io_stall'']
   \<and> list_all (\<lambda>t. list_ex (\<lambda>i. case trial_request t of
            Some (body, expected) \<Rightarrow> expected = Some (''node-'' @ decimal i)
              \<and> (case tb_fault body of Some (host, k, _, _) \<Rightarrow> host = ''workload-'' @ decimal i \<and> 0 \<le> k \<and> k < tb_phase_count body
                 | None \<Rightarrow> False)
          | None \<Rightarrow> False) [1..<9]) (mf_fault_trials frozen_manifest)
   \<and> list_all (\<lambda>t. trial_request t = Some (\<lparr>tb_phase_count = 1, tb_sieve_limit = SIEVE_LIMIT, tb_fault = None\<rparr>, None))
       (mf_no_fault_trials frozen_manifest)"
proof (intro conjI)
  show "distinct (map tr_trial_id (all_trials frozen_manifest))"
    using fault_trials_ids [of "''cpu_contention''" CPU_CONTENTION_INTENSITY 10000] fault_trials_ids [of "''io_stall''" IO_STALL_INTENSITY 20000]
    by (auto simp: all_trials_def frozen_manifest_def fault_trials_def no_fault_trials_def comp_def distinct_map inj_on_def)
  show "distinct (map tr_seed (all_trials frozen_manifest))"
    by (auto simp: all_trials_def frozen_manifest_def fault_trials_def no_fault_trials_def comp_def distinct_map inj_on_def
        FAULT_TRIALS_PER_TYPE_def NO_FAULT_TRIALS_def)
  show "list_all (\<lambda>f. list_all (\<lambda>i. length (filter (\<lambda>t. tr_fault_type t = Some f
          \<and> tr_target_host t = Some (''workload-'' @ decimal i)) (mf_fault_trials frozen_manifest)) = 5) [1..<9])
       [''cpu_contention'', ''io_stall'']"
    using fault_trials_balanced by (simp add: list_all_iff frozen_manifest_def)
  show "list_all (\<lambda>t. list_ex (\<lambda>i. case trial_request t of
            Some (body, expected) \<Rightarrow> expected = Some (''node-'' @ decimal i)
              \<and> (case tb_fault body of Some (host, k, _, _) \<Rightarrow> host = ''workload-'' @ decimal i \<and> 0 \<le> k \<and> k < tb_phase_count body
                 | None \<Rightarrow> False)
          | None \<Rightarrow> False) [1..<9]) (mf_fault_trials frozen_manifest)"
    unfolding list_all_iff list_ex_iff
  proof
    fix t
    assume "t \<in> set (mf_fault_trials frozen_manifest)"
    then obtain f n b where "t \<in> set (fault_trials f n b)" by (auto simp: frozen_manifest_def)
    from fault_trials_requests [OF this] show "\<exists>i\<in>set [1..<9]. case trial_request t of
            Some (body, expected) \<Rightarrow> expected = Some (''node-'' @ decimal i)
              \<and> (case tb_fault body of Some (host, k, _, _) \<Rightarrow> host = ''workload-'' @ decimal i \<and> 0 \<le> k \<and> k < tb_phase_count body
                 | None \<Rightarrow> False)
          | None \<Rightarrow> False" by fastforce
  qed
qed (simp_all add: frozen_manifest_def fault_trials_def no_fault_trials_def FAULT_TRIALS_PER_TYPE_def NO_FAULT_TRIALS_def
    list_all_iff trial_request_def)

text \<open>
  C29. A batch can be interrupted and resumed: whatever a run of the missing trials does and
  however it ends, it never changes or removes a result that exists, and it writes results of
  its own trials only; when it ends without an exception every trial has a result, and running
  the batch again then calls nothing and changes nothing, whatever the results say: an aborted
  trial is not run again.
\<close>

theorem run_missing_resumes:
  assumes "run_missing_trials sv ts results w = Some (e, results', w')"
  shows "results \<subseteq>\<^sub>m results' \<and> dom results' \<subseteq> dom results \<union> tr_trial_id ` set ts
    \<and> (e = None \<longrightarrow> tr_trial_id ` set ts \<subseteq> dom results'
         \<and> run_missing_trials sv' ts results' v = Some (None, results', v))"
  using run_missing_extends [OF assms] run_missing_skips [of ts results' sv' v] by simp

definition dead_service :: "rat service" where
  "dead_service = \<lparr>sv_post_job = (\<lambda>_ w. (Inl (Unreachable ''refused''), w)), sv_job_status = (\<lambda>_ w. (Inl BadReply, w)),
     sv_report = (\<lambda>_ _ w. (Inl BadReply, w)), sv_monotonic = (\<lambda>w. (w, w)), sv_sleep = (\<lambda>w. w + 3/10)\<rparr>"

theorem run_missing_resumes_witness:
  "\<exists>results' w'. run_missing_trials dead_service (all_trials frozen_manifest) Map.empty 0 = Some (None, results', w')
     \<and> run_missing_trials dead_service (all_trials frozen_manifest) results' 7 = Some (None, results', 7)"
proof -
  have trial: "run_trial dead_service t w = Some (Inr (Aborted ''dispatch_error: refused''), w)"
    if "trial_request t \<noteq> None" for t w
    using that by (auto simp: run_trial_def dead_service_def)
  have "\<exists>results'. run_missing_trials dead_service ts results w = Some (None, results', w)"
    if "list_all (\<lambda>t. trial_request t \<noteq> None) ts" for ts results w
    using that by (induction ts arbitrary: results) (simp_all add: trial)
  moreover have "list_all (\<lambda>t. trial_request t \<noteq> None) (all_trials frozen_manifest)"
    by (auto simp: all_trials_def frozen_manifest_def fault_trials_def no_fault_trials_def trial_request_def list_all_iff)
  ultimately obtain results' where "run_missing_trials dead_service (all_trials frozen_manifest) Map.empty 0 = Some (None, results', 0)"
    by blast
  then have run: "run_missing_trials dead_service (all_trials frozen_manifest) Map.empty 0 = Some (None, results', 0)" .
  from run_missing_resumes [OF run, of dead_service 7] run show ?thesis by auto
qed

text \<open>
  C28. When the summary fails: computing it raises ZeroDivisionError exactly when the manifest has
  no trial without a fault or no completed fault trial was a detection, and nothing else. A batch
  that detected nothing has no report at all, although its gating estimates are defined.
\<close>

theorem summary_raises_iff:
  "summarize mf results = Inl e \<longleftrightarrow> e = ZeroDivisionError \<and> (mf_no_fault_trials mf = []
     \<or> filter (\<lambda>c. ct_status c = Ranked \<and> ct_top_candidate c = ct_expected c)
         (completed_trials results (mf_fault_trials mf)) = [])"
  using summarize_Inl by (simp add: detected_def [abs_def])

text \<open>
  C27. What the primary claim says: it is supported exactly when every fault trial of the manifest
  has completed, the Wilson lower bound of the detections is at least 0.75 and the upper bound of
  the trials with a false positive is at most 0.15. An interrupted or partly aborted batch never
  supports it.
\<close>

theorem primary_claim_iff:
  assumes "summarize mf results = Inr s"
  shows "sm_primary_claim_supported s \<longleftrightarrow>
     (\<forall>t\<in>set (mf_fault_trials mf). \<exists>c. results (tr_trial_id t) = Some (Completed c))
   \<and> (let cs = completed_trials results (mf_fault_trials mf) in
       (case wilson_interval (count_if detected cs) (int (length cs)) Z_95 of
          Inl _ \<Rightarrow> False | Inr (lower, _) \<Rightarrow> 3/4 \<le> lower)
     \<and> (case wilson_interval (count_if fault_false_positive cs) (int (length cs)) Z_95 of
          Inl _ \<Rightarrow> False | Inr (_, upper) \<Rightarrow> upper \<le> rnd (15/100)))"
  unfolding summarize_decisions(1) [OF assms] all_completed_iff bound_met_cases Let_def
    DETECTION_LOWER_BOUND_THRESHOLD_def FP_UPPER_BOUND_THRESHOLD_def ..

text \<open>
  One completed detection of the first trial, with nothing flagged wrongly.
\<close>

definition demo_completed :: completed_trial where
  "demo_completed = \<lparr>ct_job_id = ''j'', ct_fault_type = Some ''cpu_contention'', ct_target_host = Some ''workload-1'',
     ct_expected = Some ''node-1'', ct_status = Ranked, ct_top_candidate = Some ''node-1'',
     ct_naive_candidate = Some ''node-1'', ct_root_cause = None, ct_ranked_nodes = []\<rparr>"

definition demo_results :: trial_results where
  "demo_results = [''cpu_contention-0000'' \<mapsto> Completed demo_completed]"

lemma demo_summary: "\<exists>s. summarize frozen_manifest demo_results = Inr s"
proof -
  have "\<exists>t\<in>set (mf_fault_trials frozen_manifest). tr_trial_id t = ''cpu_contention-0000''"
    using fault_trial_0 [of "''cpu_contention''"] by (simp add: frozen_manifest_def bex_Un)
  then have "demo_completed \<in> set (completed_trials demo_results (mf_fault_trials frozen_manifest))"
    by (auto simp: set_completed_trials demo_results_def)
  moreover have "detected demo_completed" by (simp add: detected_def demo_completed_def)
  ultimately have "filter detected (completed_trials demo_results (mf_fault_trials frozen_manifest)) \<noteq> []"
    by (auto simp: filter_empty_conv)
  moreover have "mf_no_fault_trials frozen_manifest \<noteq> []"
    by (simp add: frozen_manifest_def no_fault_trials_def NO_FAULT_TRIALS_def)
  ultimately have "summarize frozen_manifest demo_results \<noteq> Inl e" for e by (simp add: summarize_Inl)
  then show ?thesis by (cases "summarize frozen_manifest demo_results") auto
qed

theorem primary_claim_iff_witness:
  "\<exists>s. summarize frozen_manifest demo_results = Inr s \<and> \<not> sm_primary_claim_supported s"
proof -
  obtain s where s: "summarize frozen_manifest demo_results = Inr s" using demo_summary by blast
  obtain t where "t \<in> set (mf_fault_trials frozen_manifest)" "tr_trial_id t = ''io_stall-0000''"
    using fault_trial_0 [of "''io_stall''"] by (force simp: frozen_manifest_def)
  then have "\<not> (\<forall>t\<in>set (mf_fault_trials frozen_manifest). \<exists>c. demo_results (tr_trial_id t) = Some (Completed c))"
    by (auto simp: demo_results_def intro!: bexI [of _ t])
  then show ?thesis using primary_claim_iff [OF s] s by blast
qed

text \<open>
  C30. The no-fault estimate of the frozen manifest cannot pass: with 16 trials, the Wilson upper
  bound is above the threshold of 0.10 even when nothing at all is flagged, so whatever the
  results are, the decision is never PASS.
\<close>

theorem no_fault_estimate_never_passes:
  assumes "summarize frozen_manifest results = Inr s"
  shows "\<not> passes (sm_no_fault_false_flag s)"
proof -
  let ?ts = "mf_no_fault_trials frozen_manifest"
  have "length ?ts = 16" by (simp add: frozen_manifest_def no_fault_trials_def NO_FAULT_TRIALS_def)
  then show ?thesis
    using no_fault_bound_fails [of "completed_trials results ?ts" no_fault_false_flag] length_completed_trials [of results ?ts]
    unfolding summarize_decisions(2) [OF assms] by simp
qed

theorem no_fault_estimate_never_passes_witness:
  "\<exists>s. summarize frozen_manifest demo_results = Inr s \<and> \<not> passes (sm_no_fault_false_flag s)"
proof -
  obtain s where "summarize frozen_manifest demo_results = Inr s" using demo_summary by blast
  from this no_fault_estimate_never_passes [OF this] show ?thesis by blast
qed

section \<open>The script\<close>

datatype main_error = SystemExit int | TrialError trial_error | SummaryError decide_error | HealthError

text \<open>
  \<open>_check_rack_reachable\<close>: \<open>health\<close> is the \<open>status\<close> field of the reply of the health check.
\<close>

definition check_rack_reachable :: "('w \<Rightarrow> (http_error + string option) \<times> 'w) \<Rightarrow> 'w \<Rightarrow> main_error option \<times> 'w" where
  "check_rack_reachable health w = (case health w of
     (Inl (Unreachable _), w') \<Rightarrow> (Some (SystemExit 2), w')
   | (Inl BadReply, w') \<Rightarrow> (Some HealthError, w')
   | (Inr status, w') \<Rightarrow> (if status \<noteq> Some ''ok'' then Some (SystemExit 2) else None, w'))"

text \<open>\<open>main\<close>: the exit code, the result files, the summary file and the world.\<close>

definition write_summary :: "manifest \<Rightarrow> trial_results \<Rightarrow> summary option \<Rightarrow> (main_error + int) \<times> summary option" where
  "write_summary mf results old = (case summarize mf results of
     Inl e \<Rightarrow> (Inl (SummaryError e), old) | Inr s \<Rightarrow> (Inr 0, Some s))"

definition run_script :: "('w \<Rightarrow> (http_error + string option) \<times> 'w) \<Rightarrow> 'w service \<Rightarrow> bool \<Rightarrow> manifest
    \<Rightarrow> trial_results \<Rightarrow> summary option \<Rightarrow> 'w
    \<Rightarrow> ((main_error + int) \<times> trial_results \<times> summary option \<times> 'w) option" where
  "run_script health sv replay mf results old w =
     (if replay then (case write_summary mf results old of (code, new) \<Rightarrow> Some (code, results, new, w))
      else case check_rack_reachable health w of
        (Some e, w1) \<Rightarrow> Some (Inl e, results, old, w1)
      | (None, w1) \<Rightarrow> (case run_missing_trials sv (all_trials mf) results w1 of
          None \<Rightarrow> None
        | Some (Some e, results', w2) \<Rightarrow> Some (Inl (TrialError e), results', old, w2)
        | Some (None, results', w2) \<Rightarrow> (case write_summary mf results' old of
            (code, new) \<Rightarrow> Some (code, results', new, w2))))"

text \<open>
  The replay of a finished batch, wherever and whenever it is made, writes the same summary and
  calls nothing; so does a second full run, when the rack is reachable.
\<close>

theorem replay_reproduces:
  assumes "run_script health sv replay mf results old w = Some (Inr code, results', new, w')"
  shows "code = 0 \<and> run_script health' sv' True mf results' old' v = Some (Inr 0, results', new, v)
    \<and> (replay \<or> check_rack_reachable health' v \<noteq> (None, v') \<or> run_script health' sv' False mf results' old' v = Some (Inr 0, results', new, v'))"
proof -
  have written: "code = 0 \<and> write_summary mf results' old' = (Inr 0, new)"
    using assms by (auto simp: run_script_def write_summary_def split: if_splits prod.splits option.splits sum.splits)
  have "tr_trial_id ` set (all_trials mf) \<subseteq> dom results'" if "\<not> replay"
  proof -
    obtain w1 w2 where "run_missing_trials sv (all_trials mf) results w1 = Some (None, results', w2)"
      using assms \<open>\<not> replay\<close> by (auto simp: run_script_def write_summary_def split: prod.splits option.splits sum.splits)
    from run_missing_extends [OF this] show ?thesis by simp
  qed
  then have "run_missing_trials sv' (all_trials mf) results' v' = Some (None, results', v')" if "\<not> replay"
    using that by (intro run_missing_skips)
  then show ?thesis using written by (cases replay) (auto simp: run_script_def)
qed

end
