(* ===== verification/Api.thy ===== *)
theory Api
  imports Jobs Straggler "HOL-Library.AList"
begin

text \<open>
  \<open>ingestion/src/hpctel/api.py\<close>: the endpoints as functions on the state of
  the process, and one round of the rollup refresh. \<open>Inl\<close> is an HTTP error with its status
  code; an exception no handler catches is the status 500. The job id is a parameter (a random
  UUID), and so are AVG and the wall clock. \<open>sum\<close> adds floats the way CPython 3.12 does, with
  Neumaier's compensation.
\<close>

section \<open>Series and jobs\<close>

type_synonym 'a reply = "(int \<times> string) + 'a"

datatype series_reply = RawSeries "(int \<times> pyfloat) list" | RollupSeries "rollup_point list"

definition api_list_nodes :: "db \<Rightarrow> node_summary list" where
  "api_list_nodes d = list_nodes d"

definition get_metric_series :: "string \<Rightarrow> string \<Rightarrow> int \<Rightarrow> string \<Rightarrow> db \<Rightarrow> series_reply reply" where
  "get_metric_series node_id metric_name limit resolution d = (case METRIC_NAME_TO_ID metric_name of
     None \<Rightarrow> Inl (404, ''unknown metric_name: '' @ metric_name)
   | Some metric_id \<Rightarrow>
       if resolution = ''raw''
       then (if bindable limit then Inr (RawSeries (query_series node_id metric_id limit d)) else Inl (500, ''Internal Server Error''))
       else if resolution \<in> {''1m'', ''1h''}
       then if \<not> bindable limit then Inl (500, ''Internal Server Error'') else (case query_rollup node_id metric_id resolution limit d of
               Inl _ \<Rightarrow> Inl (500, ''Internal Server Error'') | Inr ps \<Rightarrow> Inr (RollupSeries ps))
       else Inl (400, ''unknown resolution: '' @ resolution))"

record fault_request =
  fr_target_host :: string
  fr_phase_index :: int
  fr_fault_type :: string
  fr_intensity :: int

record start_job_request =
  sj_phase_count :: int
  sj_sieve_limit :: "int option"
  sj_fault :: "fault_request option"

definition model_dump :: "fault_request \<Rightarrow> fault_manifest" where
  "model_dump f = \<lparr>fm_target_host = Some (fr_target_host f), fm_phase_index = Some (fr_phase_index f),
     fm_fault_type = Some (fr_fault_type f), fm_intensity = Some (fr_intensity f)\<rparr>"

text \<open>The arguments of the task that runs \<open>execute_job\<close>.\<close>

record job_task =
  jt_job_id :: string
  jt_hosts :: "string list"
  jt_phase_count :: int
  jt_sieve_limit :: "int option"
  jt_fault :: "fault_manifest option"

definition launch_job :: "string list \<Rightarrow> clock \<Rightarrow> string \<Rightarrow> start_job_request \<Rightarrow> fault_manifest option \<Rightarrow> server
    \<Rightarrow> job_task reply \<times> server" where
  "launch_job workload_hosts clk uuid request manifest s =
     (case create_job clk uuid workload_hosts (sj_phase_count request) manifest s of
        (Inl _, s') \<Rightarrow> (Inl (500, ''Internal Server Error''), s')
      | (Inr job_id, s') \<Rightarrow> (Inr \<lparr>jt_job_id = job_id, jt_hosts = workload_hosts,
           jt_phase_count = sj_phase_count request, jt_sieve_limit = sj_sieve_limit request,
           jt_fault = manifest\<rparr>, s'))"

definition start_job :: "string list \<Rightarrow> clock \<Rightarrow> string \<Rightarrow> start_job_request \<Rightarrow> server \<Rightarrow> job_task reply \<times> server" where
  "start_job workload_hosts clk uuid request s =
     (if workload_hosts = [] then (Inl (503, ''no workload hosts configured (WORKLOAD_HOSTS)''), s)
      else if sj_phase_count request < 1 then (Inl (400, ''phase_count must be at least 1''), s)
      else case sj_fault request of
        None \<Rightarrow> launch_job workload_hosts clk uuid request None s
      | Some f \<Rightarrow>
          if fr_target_host f \<notin> set workload_hosts
          then (Inl (400, ''unknown target_host: '' @ fr_target_host f), s)
          else launch_job workload_hosts clk uuid request (Some (model_dump f)) s)"

definition api_get_job :: "string \<Rightarrow> db \<Rightarrow> (job_row \<times> phase_event list) reply" where
  "api_get_job job_id d = (case store_get_job job_id d of
     None \<Rightarrow> Inl (404, ''unknown job_id: '' @ job_id)
   | Some job \<Rightarrow> (case list_phase_events job_id None d of
       Inl _ \<Rightarrow> Inl (500, ''Internal Server Error'') | Inr events \<Rightarrow> Inr (job, events)))"

lemma api_get_job_cases:
  "api_get_job job_id d = (case store_get_job job_id d of
     None \<Rightarrow> Inl (404, ''unknown job_id: '' @ job_id) | Some job \<Rightarrow> Inr (job, select_phase_events job_id None d))"
  by (simp add: api_get_job_def list_phase_events_def split: option.split)

section \<open>The straggler report\<close>

definition ROOT_CAUSE_BASELINE_WINDOW_NS :: int where "ROOT_CAUSE_BASELINE_WINDOW_NS = 30000000000"
definition ROOT_CAUSE_SEARCH_RADIUS_NS :: int where "ROOT_CAUSE_SEARCH_RADIUS_NS = 3000000000"

text \<open>\<open>min(xs, key=key)\<close> for an integer key: the first element with the least key.\<close>

definition py_min :: "('a \<Rightarrow> int) \<Rightarrow> 'a list \<Rightarrow> 'a option" where
  "py_min key xs = py_max (>) key xs"

definition nearest_sample_value :: "string \<Rightarrow> int \<Rightarrow> int \<Rightarrow> db \<Rightarrow> pyfloat option" where
  "nearest_sample_value node_id metric_id target_ts_ns d =
     (let series = query_series node_id metric_id 50 d;
          candidates = filter (\<lambda>s. \<bar>fst s - target_ts_ns\<bar> \<le> ROOT_CAUSE_SEARCH_RADIUS_NS) series
      in map_option snd (py_min (\<lambda>s. \<bar>fst s - target_ts_ns\<bar>) candidates))"

text \<open>The loop of \<open>sum\<close> over floats: the running sum and the compensation.\<close>

fun neumaier :: "pyfloat list \<Rightarrow> pyfloat \<Rightarrow> pyfloat \<Rightarrow> pyfloat \<times> pyfloat" where
  "neumaier [] s c = (s, c)"
| "neumaier (x # xs) s c = (let t = fl_add s x in
     if fl_le (fl_abs x) (fl_abs s) then neumaier xs t (fl_add c (fl_add (fl_sub s t) x))
     else neumaier xs t (fl_add c (fl_add (fl_sub x t) s)))"

definition float_sum :: "pyfloat list \<Rightarrow> pyfloat" where
  "float_sum xs = (case xs of [] \<Rightarrow> Fin 0
   | x # rest \<Rightarrow> (case neumaier rest x (Fin 0) of
       (s, Fin c) \<Rightarrow> if c = 0 then s else fl_add s (Fin c)
     | (s, _) \<Rightarrow> s))"

definition baseline_mean_value :: "string \<Rightarrow> int \<Rightarrow> int \<Rightarrow> db \<Rightarrow> pyfloat option" where
  "baseline_mean_value node_id metric_id phase_start_ts_ns d =
     (let series = query_series node_id metric_id 200 d;
          window = map snd (filter (\<lambda>s. phase_start_ts_ns - ROOT_CAUSE_BASELINE_WINDOW_NS \<le> fst s
                                       \<and> fst s < phase_start_ts_ns) series)
      in if window = [] then None else fl_div (float_sum window) (fl_of_int (int (length window))))"

text \<open>\<open>Inl\<close> is ZeroDivisionError.\<close>

definition relative_delta :: "pyfloat option \<Rightarrow> pyfloat option \<Rightarrow> unit + pyfloat option" where
  "relative_delta baseline during = (case (baseline, during) of
     (Some b, Some x) \<Rightarrow>
       if b = Fin 0 then Inr (if x = Fin 0 then None else Some PInf)
       else (case fl_div (fl_sub x b) (fl_abs b) of None \<Rightarrow> Inl () | Some q \<Rightarrow> Inr (Some q))
   | _ \<Rightarrow> Inr None)"

definition metric_delta :: "string \<Rightarrow> string \<Rightarrow> int \<Rightarrow> int \<Rightarrow> db \<Rightarrow> unit + pyfloat option" where
  "metric_delta node_id metric_name start mid d =
     (let metric_id = the (METRIC_NAME_TO_ID metric_name)
      in relative_delta (baseline_mean_value node_id metric_id start d)
           (nearest_sample_value node_id metric_id mid d))"

text \<open>The dict comprehension: a node that occurs twice keeps its first place and its last value.\<close>

definition durations_of :: "phase_event list \<Rightarrow> (string \<times> int) list" where
  "durations_of events = fold (\<lambda>e. AList.update (pe_node_id e) (pe_end_mono_ns e - pe_start_mono_ns e))
     (filter (\<lambda>e. pe_status e = ''ok'') events) []"

definition report_root_cause :: "string \<Rightarrow> phase_event list \<Rightarrow> db \<Rightarrow> string reply" where
  "report_root_cause top_node events d = (case find (\<lambda>e. pe_node_id e = top_node) events of
     None \<Rightarrow> Inl (500, ''Internal Server Error'')
   | Some e \<Rightarrow> (let start = pe_start_ts_ns e; mid = (pe_start_ts_ns e + pe_end_ts_ns e) div 2 in
       case (metric_delta top_node ''cpu_pct'' start mid d, metric_delta top_node ''iowait_pct'' start mid d,
             metric_delta top_node ''net_rx_bytes_s'' start mid d) of
         (Inr cpu, Inr iowait, Inr net) \<Rightarrow> Inr (tag_root_cause cpu iowait net)
       | _ \<Rightarrow> Inl (500, ''Internal Server Error'')))"

definition get_straggler_report :: "string \<Rightarrow> int \<Rightarrow> db \<Rightarrow> straggler_report reply" where
  "get_straggler_report job_id phase_index d = (case store_get_job job_id d of
     None \<Rightarrow> Inl (404, ''unknown job_id: '' @ job_id)
   | Some _ \<Rightarrow> (case list_phase_events job_id (Some phase_index) d of
       Inl _ \<Rightarrow> Inl (500, ''Internal Server Error'')
     | Inr events \<Rightarrow> (case rank_stragglers job_id phase_index (durations_of events) of
         None \<Rightarrow> Inl (500, ''Internal Server Error'')
       | Some report \<Rightarrow> (case rep_top_candidate report of
           None \<Rightarrow> Inr report
         | Some top_node \<Rightarrow> (case report_root_cause top_node events d of
             Inl e \<Rightarrow> Inl e
           | Inr cause \<Rightarrow> Inr (report\<lparr>rep_root_cause := Some cause\<rparr>))))))"

section \<open>Diagnostics and the rollup refresh\<close>

text \<open>\<open>int(x)\<close> of a float: truncation; \<open>None\<close> is ValueError or OverflowError.\<close>

fun py_int :: "pyfloat \<Rightarrow> int option" where
  "py_int (Fin q) = Some (if 0 \<le> q then \<lfloor>q\<rfloor> else \<lceil>q\<rceil>)"
| "py_int _ = None"

fun scale_1e9 :: "pyfloat \<Rightarrow> pyfloat" where
  "scale_1e9 (Fin q) = fin_round (q * 1000000000)"
| "scale_1e9 x = x"

definition get_ingestion_latency :: "clock \<Rightarrow> pyfloat \<Rightarrow> server \<Rightarrow> (nat \<times> rat list) reply \<times> server" where
  "get_ingestion_latency clk since_seconds s = (let (now, s1) = time_ns clk s in
     case py_int (scale_1e9 since_seconds) of
       None \<Rightarrow> (Inl (500, ''Internal Server Error''), s1)
     | Some w \<Rightarrow> (let since = now - w in
         if \<not> bindable since then (Inl (500, ''Internal Server Error''), s1)
         else (Inr (count_samples_since since (srv_db s1),
               query_recent_ingestion_latencies_ms since 100000 (srv_db s1)), s1)))"

text \<open>One round of the refresh loop; an exception ends the task.\<close>

fun refresh_pairs :: "(pyfloat list \<Rightarrow> pyfloat) \<Rightarrow> (string \<times> int) list \<Rightarrow> db \<Rightarrow> store_error option \<times> db" where
  "refresh_pairs avg [] d = (None, d)"
| "refresh_pairs avg ((n, m) # ps) d = (case recompute_rollups avg n m d of
     (Some e, d') \<Rightarrow> (Some e, d')
   | (None, d') \<Rightarrow> refresh_pairs avg ps d')"

definition refresh_rollups :: "(pyfloat list \<Rightarrow> pyfloat) \<Rightarrow> db \<Rightarrow> store_error option \<times> db" where
  "refresh_rollups avg d = refresh_pairs avg (distinct_node_metric_pairs d) d"

section \<open>The durations and the events\<close>

lemma durations_of_distinct: "distinct (map fst (durations_of events))"
proof -
  have "distinct (map fst (fold (\<lambda>e. AList.update (pe_node_id e) (pe_end_mono_ns e - pe_start_mono_ns e)) es acc))"
    if "distinct (map fst acc)" for es :: "phase_event list" and acc
    using that by (induction es arbitrary: acc) (simp_all add: distinct_update)
  then show ?thesis by (simp add: durations_of_def)
qed

lemma durations_of_eq:
  assumes "distinct (map pe_node_id events)"
  shows "durations_of events = map (\<lambda>e. (pe_node_id e, pe_end_mono_ns e - pe_start_mono_ns e))
     (filter (\<lambda>e. pe_status e = ''ok'') events)"
proof -
  let ?f = "\<lambda>e. (pe_node_id e, pe_end_mono_ns e - pe_start_mono_ns e)"
  have new: "AList.update k v al = al @ [(k, v)]" if "k \<notin> fst ` set al" for k :: string and v :: int and al
    using that by (induction al) auto
  have *: "fold (\<lambda>e. AList.update (pe_node_id e) (pe_end_mono_ns e - pe_start_mono_ns e)) es acc = acc @ map ?f es"
    if "distinct (map pe_node_id es)" and "pe_node_id ` set es \<inter> fst ` set acc = {}" for es acc
    using that
  proof (induction es arbitrary: acc)
    case (Cons e es)
    then show ?case by (auto simp: new)
  qed simp
  have "distinct (map pe_node_id (filter (\<lambda>e. pe_status e = ''ok'') events))"
    using assms by (rule distinct_map_filter)
  from * [OF this, of "[]"] show ?thesis by (simp add: durations_of_def)
qed

lemma set_durations_of: "fst ` set (durations_of events) \<subseteq> pe_node_id ` set events"
proof -
  have "fst ` set (fold (\<lambda>e. AList.update (pe_node_id e) (pe_end_mono_ns e - pe_start_mono_ns e)) es acc)
      \<subseteq> pe_node_id ` set es \<union> fst ` set acc" for es :: "phase_event list" and acc
  proof (induction es arbitrary: acc)
    case (Cons e es)
    show ?case using Cons.IH [of "AList.update (pe_node_id e) (pe_end_mono_ns e - pe_start_mono_ns e) acc"]
      by (auto simp: dom_update)
  qed simp
  then show ?thesis by (force simp: durations_of_def)
qed

text \<open>The events of a phase, one per node, in the order of the nodes whatever the order of arrival.\<close>

lemma distinct_phase_nodes:
  assumes "wf_db d"
  shows "distinct (map er_node_id (filter (of_phase j k) (phase_events d)))"
proof -
  have "distinct (map event_key (filter (of_phase j k) (phase_events d)))"
    using assms by (simp add: wf_db_def distinct_map_filter)
  then show ?thesis by (auto simp: distinct_map inj_on_def event_key_def of_phase_def)
qed

lemma select_phase_events_perm:
  assumes "wf_db d" and "mset (phase_events d) = mset (phase_events d')"
  shows "select_phase_events j (Some k) d = select_phase_events j (Some k) d'"
proof -
  have "sort_key er_node_id (filter (of_phase j k) (phase_events d)) = sort_key er_node_id (filter (of_phase j k) (phase_events d'))"
    by (rule sort_key_perm_eq) (use assms distinct_phase_nodes [OF assms(1), of j k] in \<open>simp_all add: distinct_map\<close>)
  then show ?thesis by (simp add: select_phase_events_def)
qed

lemma set_select_phase_events:
  "set (select_phase_events j (Some k) d) = phase_event_of ` {e \<in> set (phase_events d). of_phase j k e}"
  by (simp add: select_phase_events_def)

section \<open>The measurements\<close>

lemma float_of_small:
  assumes "0 \<le> n" and "n \<le> 2 ^ 53"
  shows "fl_of_int n = Fin (of_int n)"
proof -
  have r: "rnd (of_int n) = of_int n" using assms by simp
  have "(of_int n :: rat) \<le> of_int (2 ^ 53)" using assms(2) by (simp only: of_int_le_iff)
  also have "\<dots> = 2 powi 53" by (subst powi_of_int) simp_all
  also have "\<dots> < 2 powi 1024" by (simp only: powi_less_iff)
  finally have "\<not> 2 powi 1024 \<le> \<bar>of_int n :: rat\<bar>" using assms(1) by linarith
  then show ?thesis by (simp only: fl_of_int_def fin_round_overflow r if_False)
qed

lemma fl_div_Some: "y \<noteq> Fin 0 \<Longrightarrow> fl_div x y \<noteq> None"
  by (cases x; cases y) auto

text \<open>Neither the mean nor the relative change divides by zero.\<close>

lemma baseline_window: "length (query_series n m 200 d) \<le> 200"
  by (simp add: query_series_def length_sql_limit)

lemma relative_delta_total: "\<exists>q. relative_delta b x = Inr q"
proof -
  have "fl_abs y \<noteq> Fin 0" if "y \<noteq> Fin 0" for y using that by (cases y) auto
  then have "\<exists>q. fl_div z (fl_abs y) = Some q" if "y \<noteq> Fin 0" for y z using that fl_div_Some by blast
  then show ?thesis
    by (cases b; cases x) (simp_all add: relative_delta_def, metis (no_types, lifting) option.simps(5))
qed

lemma report_root_cause_total:
  assumes "node \<in> pe_node_id ` set events"
  shows "\<exists>cause. report_root_cause node events d = Inr cause
     \<and> cause \<in> {''UNKNOWN'', ''CPU_CONTENTION'', ''IO_STALL'', ''NETWORK''}"
proof -
  obtain e where e: "find (\<lambda>e. pe_node_id e = node) events = Some e"
    using assms by (fastforce simp: find_None_iff)
  have delta: "\<exists>q. metric_delta node name start mid d = Inr q" for name start mid
    unfolding metric_delta_def Let_def by (rule relative_delta_total)
  have tags: "tag_root_cause cpu iowait net \<in> {''UNKNOWN'', ''CPU_CONTENTION'', ''IO_STALL'', ''NETWORK''}" for cpu iowait net
    by (cases cpu; cases iowait; cases net) (simp_all add: tag_root_cause_def List.map_filter_def Let_def)
  obtain a b c where "metric_delta node ''cpu_pct'' (pe_start_ts_ns e) ((pe_start_ts_ns e + pe_end_ts_ns e) div 2) d = Inr a"
    "metric_delta node ''iowait_pct'' (pe_start_ts_ns e) ((pe_start_ts_ns e + pe_end_ts_ns e) div 2) d = Inr b"
    "metric_delta node ''net_rx_bytes_s'' (pe_start_ts_ns e) ((pe_start_ts_ns e + pe_end_ts_ns e) div 2) d = Inr c"
    using delta by metis
  then show ?thesis using tags by (simp add: report_root_cause_def e Let_def)
qed

section \<open>Samples too old to be looked at\<close>

text \<open>When 50 samples of a series are newer than \<open>t\<close>, a query of at most 50 sees only newer ones.\<close>

lemma query_series_newer:
  assumes "50 \<le> length (filter (\<lambda>r. of_series n m r \<and> t < sr_ts_ns r) (samples d))"
    and "p \<in> set (query_series n m 50 d)"
  shows "t < fst p"
proof -
  let ?raw = "filter (of_series n m) (samples d)"
  let ?L = "order_by_desc sr_ts_ns ?raw"
  have len: "length ?L = length ?raw" by (metis mset_order_by_desc size_mset)
  obtain r where p: "p = (sr_ts_ns r, sr_value r)" and r: "r \<in> set (take 50 ?L)"
    using assms(2) by (auto simp: query_series_def sql_limit_def)
  then obtain i where i: "i < 50" "i < length ?L" "r = ?L ! i" by (auto simp: in_set_conv_nth)
  have "filter (\<lambda>r. of_series n m r \<and> t < sr_ts_ns r) (samples d) = filter (\<lambda>r. t < sr_ts_ns r) ?raw"
    by (simp add: conj_commute)
  then have new: "50 \<le> length (filter (\<lambda>r. t < sr_ts_ns r) ?raw)" using assms(1) by simp
  have "length (filter (\<lambda>r. - t - 1 < - sr_ts_ns r) ?L) = length (filter (\<lambda>r. - t - 1 < - sr_ts_ns r) ?raw)"
    by (rule length_filter_mset_eq) simp
  also have "\<dots> = length (filter (\<lambda>r. \<not> t < sr_ts_ns r) ?raw)"
    by (rule arg_cong [where f = length], rule filter_cong) auto
  also have "\<dots> = length ?raw - length (filter (\<lambda>r. t < sr_ts_ns r) ?raw)"
    using sum_length_filter_compl [of "\<lambda>r. t < sr_ts_ns r" ?raw] by simp
  also have "\<dots> < length ?L - i" using new i len by linarith
  finally have "- sr_ts_ns (?L ! i) \<le> - t - 1"
    using i by (intro sorted_below_nth [where f = "\<lambda>r. - sr_ts_ns r"]) (auto simp: order_by_desc_def)
  then show ?thesis using p i by simp
qed

lemma nearest_sample_too_old:
  assumes "50 \<le> length (filter (\<lambda>r. of_series n m r \<and> t < sr_ts_ns r) (samples d))"
    and "mid + ROOT_CAUSE_SEARCH_RADIUS_NS \<le> t"
  shows "nearest_sample_value n m mid d = None"
proof -
  have "filter (\<lambda>s. \<bar>fst s - mid\<bar> \<le> ROOT_CAUSE_SEARCH_RADIUS_NS) (query_series n m 50 d) = []"
    using query_series_newer [OF assms(1)] assms(2) by (fastforce simp: filter_empty_conv abs_le_iff)
  then show ?thesis by (simp add: nearest_sample_value_def py_min_def)
qed

section \<open>The rollup refresh\<close>

definition series_rollup :: "string \<Rightarrow> int \<Rightarrow> rollup_row list \<Rightarrow> rollup_row list" where
  "series_rollup n m tbl = filter (\<lambda>r. rr_node_id r = n \<and> rr_metric_id r = m) tbl"

definition current_rollups :: "(pyfloat list \<Rightarrow> pyfloat) \<Rightarrow> string \<times> int \<Rightarrow> db \<Rightarrow> bool" where
  "current_rollups avg p d \<longleftrightarrow>
     series_rollup (fst p) (snd p) (rollup_1m d) = rollups_of avg BUCKET_WIDTH_NS_1M (fst p) (snd p) (samples d)
   \<and> series_rollup (fst p) (snd p) (rollup_1h d) = rollups_of avg BUCKET_WIDTH_NS_1H (fst p) (snd p) (samples d)"

lemma series_rollup_recomputed:
  "series_rollup n m (other_series n' m' tbl @ rollups_of avg w n' m' raw) =
     (if n = n' \<and> m = m' then rollups_of avg w n m raw else series_rollup n m tbl)"
proof -
  have "series_rollup n m (rollups_of avg w n' m' raw) = (if n = n' \<and> m = m' then rollups_of avg w n m raw else [])"
    by (auto simp: series_rollup_def rollups_of_def filter_empty_conv)
  moreover have "series_rollup n m (other_series n' m' tbl) = (if n = n' \<and> m = m' then [] else series_rollup n m tbl)"
    by (auto simp: series_rollup_def other_series_def filter_empty_conv intro!: filter_cong)
  ultimately show ?thesis by (simp add: series_rollup_def)
qed

lemma recompute_current:
  assumes "recompute_rollups avg n m d = (None, d')"
  shows "current_rollups avg (n, m) d'" and "p \<noteq> (n, m) \<Longrightarrow> current_rollups avg p d' \<longleftrightarrow> current_rollups avg p d"
  using recompute_rollups_tables [OF assms]
  by (auto simp: current_rollups_def series_rollup_recomputed prod_eq_iff)

lemma refresh_pairs_result:
  assumes "refresh_pairs avg ps d = (None, d')"
  shows "samples d' = samples d" and "\<forall>p\<in>set ps. current_rollups avg p d'"
    and "\<forall>p. p \<notin> set ps \<longrightarrow> current_rollups avg p d' = current_rollups avg p d"
proof -
  have "samples d' = samples d \<and> (\<forall>p\<in>set ps. current_rollups avg p d')
      \<and> (\<forall>p. p \<notin> set ps \<longrightarrow> current_rollups avg p d' = current_rollups avg p d)"
    using assms
  proof (induction avg ps d rule: refresh_pairs.induct)
    case (2 avg n m ps d)
    then obtain d1 where r: "recompute_rollups avg n m d = (None, d1)" and rest: "refresh_pairs avg ps d1 = (None, d')"
      by (auto split: prod.splits option.splits)
    note ih = "2.IH" [OF r [symmetric] refl rest]
    have "current_rollups avg (n, m) d'" using ih recompute_current(1) [OF r] by (cases "(n, m) \<in> set ps") auto
    then show ?case using ih recompute_current(2) [OF r] recompute_rollups_tables(3) [OF r] by auto
  qed simp
  then show "samples d' = samples d" and "\<forall>p\<in>set ps. current_rollups avg p d'"
    and "\<forall>p. p \<notin> set ps \<longrightarrow> current_rollups avg p d' = current_rollups avg p d" by blast+
qed

text \<open>A recomputation fails exactly when some average of the series is NaN.\<close>

definition nan_bucket :: "(pyfloat list \<Rightarrow> pyfloat) \<Rightarrow> string \<times> int \<Rightarrow> sample_row list \<Rightarrow> bool" where
  "nan_bucket avg p raw \<longleftrightarrow> (\<exists>w\<in>{BUCKET_WIDTH_NS_1M, BUCKET_WIDTH_NS_1H}.
     \<exists>r\<in>set (rollups_of avg w (fst p) (snd p) raw). rr_avg_value r = NaN)"

lemma recompute_fails_iff:
  "fst (recompute_rollups avg n m d) = (if nan_bucket avg (n, m) (samples d) then Some IntegrityError else None)"
  by (auto simp: recompute_rollups_cases recompute_table_eq nan_bucket_def)

lemma refresh_pairs_fails_iff:
  "fst (refresh_pairs avg ps d) = (if \<exists>p\<in>set ps. nan_bucket avg p (samples d) then Some IntegrityError else None)"
proof (induction avg ps d rule: refresh_pairs.induct)
  case (2 avg n m ps d)
  obtain e d1 where r: "recompute_rollups avg n m d = (e, d1)" by fastforce
  have e: "e = (if nan_bucket avg (n, m) (samples d) then Some IntegrityError else None)"
    using recompute_fails_iff [of avg n m d] r by simp
  show ?case
  proof (cases e)
    case None
    then have "samples d1 = samples d" using recompute_rollups_tables(3) r by blast
    then show ?thesis using None e r "2.IH" [OF r [symmetric]] by (auto split: if_splits)
  next
    case (Some x)
    then show ?thesis using e r by (auto split: if_splits)
  qed
qed simp

lemma set_pairs: "set (distinct_node_metric_pairs d) = (\<lambda>r. (sr_node_id r, sr_metric_id r)) ` set (samples d)"
  by (simp add: distinct_node_metric_pairs_def)

section \<open>A concrete report\<close>

definition demo_phase_event :: "string \<times> int \<Rightarrow> phase_event_row" where
  "demo_phase_event x = \<lparr>er_job_id = ''j'', er_node_id = fst x, er_phase_index = 0, er_start_ts_ns = 1000,
     er_start_mono_ns = 0, er_end_ts_ns = 1000 + snd x, er_end_mono_ns = snd x, er_status = ''ok''\<rparr>"

text \<open>Fifty samples of each of the three metrics, taken long after the phase.\<close>

definition demo_late_samples :: "sample_row list" where
  "demo_late_samples = concat (map (\<lambda>m. map (\<lambda>i. \<lparr>sr_node_id = ''b'', sr_metric_id = m, sr_ts_ns = 10000000000 + i,
     sr_mono_ns = i, sr_server_recv_ts_ns = 10000000000 + i, sr_value = Fin 1, sr_producer_version = ''v''\<rparr>) [1..50]) [1, 5, 8])"

definition demo_api_db :: db where
  "demo_api_db = empty_db\<lparr>jobs := [demo_row], phase_events := map demo_phase_event demo_durations,
     samples := demo_late_samples\<rparr>"

lemma demo_api_events:
  "select_phase_events ''j'' (Some 0) demo_api_db = map (phase_event_of \<circ> demo_phase_event) demo_durations"
  by (simp add: select_phase_events_def demo_api_db_def demo_phase_event_def demo_durations_def of_phase_def)

lemma demo_api_durations: "durations_of (select_phase_events ''j'' (Some 0) demo_api_db) = demo_durations"
  by (simp add: demo_api_events durations_of_def demo_durations_def demo_phase_event_def phase_event_of_def)

lemma demo_api_job: "store_get_job ''j'' demo_api_db = Some demo_row"
  by (simp add: store_get_job_def demo_api_db_def demo_row_def)

section \<open>Properties of the API\<close>

lemma rank_root_cause: "rank_stragglers job k ds = Some r \<Longrightarrow> rep_root_cause r = None"
  by (auto simp: rank_stragglers_def bind_eq_Some_conv Let_def split: if_splits prod.splits)

lemma rank_top_candidate:
  assumes "rank_stragglers job k ds = Some r" and "rep_top_candidate r = Some n"
  shows "n \<in> fst ` set ds"
proof -
  have "3 \<le> length ds" using assms by (auto simp: rank_stragglers_def MIN_REPORTING_NODES_def split: if_splits)
  then obtain median mad r' where "rank_stragglers job k ds = Some r'"
    and "rep_top_candidate r' = first_flagged (ranking median mad ds)" by (rule rank_cases)
  then have "first_flagged (ranking median mad ds) = Some n" using assms by simp
  then obtain x where "x \<in> set (ranking median mad ds)" "rn_node_id x = n"
    by (auto simp: first_flagged_def find_Some_iff) (metis nth_mem)
  then show ?thesis by (force simp: set_ranking node_of_def)
qed

lemma rank_some: "\<exists>r. rank_stragglers job k ds = Some r"
proof (cases "length ds < 3")
  case False
  then have "3 \<le> length ds" by simp
  then show ?thesis by (rule rank_cases) blast
qed (simp add: rank_stragglers_def MIN_REPORTING_NODES_def)

lemma report_of_ranking:
  assumes "store_get_job job d = Some row" and "bindable k"
    and "rank_stragglers job k (durations_of (select_phase_events job (Some k) d)) = Some r"
  shows "\<exists>cause. get_straggler_report job k d = Inr (r\<lparr>rep_root_cause := cause\<rparr>)
     \<and> (cause = None \<longleftrightarrow> rep_top_candidate r = None)
     \<and> cause \<in> {None, Some ''UNKNOWN'', Some ''CPU_CONTENTION'', Some ''IO_STALL'', Some ''NETWORK''}"
proof (cases "rep_top_candidate r")
  case None
  have "r\<lparr>rep_root_cause := None\<rparr> = r" using rank_root_cause [OF assms(3)] by (cases r) simp
  then show ?thesis using assms None by (auto simp: get_straggler_report_def list_phase_events_def intro!: exI [of _ None])
next
  case (Some n)
  let ?events = "select_phase_events job (Some k) d"
  have "n \<in> pe_node_id ` set ?events" using rank_top_candidate [OF assms(3) Some] set_durations_of by blast
  then obtain cause where "report_root_cause n ?events d = Inr cause"
    and "cause \<in> {''UNKNOWN'', ''CPU_CONTENTION'', ''IO_STALL'', ''NETWORK''}"
    using report_root_cause_total by blast
  then show ?thesis using assms Some by (auto simp: get_straggler_report_def list_phase_events_def intro!: exI [of _ "Some cause"])
qed

text \<open>
  C21. The report endpoint, for every request and whatever is stored: 404 for an unknown job; 500 for a
  known job and a phase index outside SQLite's 64 bits, whose bind raises OverflowError; and otherwise
  the ranking of the durations of the phase's \<open>ok\<close> events, with a root cause exactly when there is
  a top candidate, which is one of the four tags. No other exception leaves it.
\<close>

theorem straggler_report_served:
  "case store_get_job job d of
     None \<Rightarrow> get_straggler_report job k d = Inl (404, ''unknown job_id: '' @ job)
   | Some _ \<Rightarrow> if k < - (2 ^ 63) \<or> 2 ^ 63 \<le> k then get_straggler_report job k d = Inl (500, ''Internal Server Error'')
       else \<exists>r. get_straggler_report job k d = Inr r
       \<and> rank_stragglers job k (durations_of (select_phase_events job (Some k) d)) = Some (r\<lparr>rep_root_cause := None\<rparr>)
       \<and> (rep_root_cause r = None \<longleftrightarrow> rep_top_candidate r = None)
       \<and> rep_root_cause r \<in> {None, Some ''UNKNOWN'', Some ''CPU_CONTENTION'', Some ''IO_STALL'', Some ''NETWORK''}"
proof (cases "store_get_job job d")
  case None
  then show ?thesis by (simp add: get_straggler_report_def)
next
  case (Some row)
  show ?thesis
  proof (cases "bindable k")
    case False
    then have "k < - (2 ^ 63) \<or> 2 ^ 63 \<le> k" unfolding bindable_def by linarith
    then show ?thesis unfolding Some option.case using Some False by (simp add: get_straggler_report_def list_phase_events_def)
  next
    case True
    then have in_range: "\<not> (k < - (2 ^ 63) \<or> 2 ^ 63 \<le> k)" unfolding bindable_def by linarith
    obtain r where r: "rank_stragglers job k (durations_of (select_phase_events job (Some k) d)) = Some r"
      using rank_some by blast
    have none: "r\<lparr>rep_root_cause := None\<rparr> = r" using rank_root_cause [OF r] by (cases r) simp
    have rank: "rank_stragglers job k (durations_of (select_phase_events job (Some k) d))
        = Some (r\<lparr>rep_root_cause := c, rep_root_cause := None\<rparr>)" for c
      using r none by simp
    from report_of_ranking [OF Some True r]
    obtain cause where "get_straggler_report job k d = Inr (r\<lparr>rep_root_cause := cause\<rparr>)
       \<and> (cause = None \<longleftrightarrow> rep_top_candidate r = None)
       \<and> cause \<in> {None, Some ''UNKNOWN'', Some ''CPU_CONTENTION'', Some ''IO_STALL'', Some ''NETWORK''}" ..
    then show ?thesis unfolding Some option.case if_not_P [OF in_range]
      by (intro exI [of _ "r\<lparr>rep_root_cause := cause\<rparr>"]) (simp add: rank [of cause] del: insert_iff)
  qed
qed

text \<open>
  The report does not depend on the order in which the nodes' events arrived.
\<close>

theorem straggler_report_arrival_order:
  assumes "wf_db d" and "mset (phase_events d) = mset (phase_events d')"
    and "samples d' = samples d" and "jobs d' = jobs d"
  shows "get_straggler_report job k d = get_straggler_report job k d'"
proof -
  have 1: "store_get_job job d' = store_get_job job d" using assms(4) by (simp add: store_get_job_def)
  have 2: "select_phase_events job (Some k) d' = select_phase_events job (Some k) d"
    by (rule select_phase_events_perm [OF assms(1,2), symmetric])
  have 3: "query_series n m l d' = query_series n m l d" for n m l using assms(3) by (simp add: query_series_def)
  have 4: "metric_delta n name start mid d' = metric_delta n name start mid d" for n name start mid
    by (simp only: metric_delta_def baseline_mean_value_def nearest_sample_value_def 3)
  have "report_root_cause n es d' = report_root_cause n es d" for n es
    by (simp only: report_root_cause_def 4)
  then show ?thesis unfolding get_straggler_report_def list_phase_events_def option.case 1 2 by presburger
qed

theorem straggler_report_arrival_order_witness:
  "get_straggler_report ''j'' 0 (demo_api_db\<lparr>samples := []\<rparr>)
   = get_straggler_report ''j'' 0 (demo_api_db\<lparr>samples := [], phase_events := rev (map demo_phase_event demo_durations)\<rparr>)"
  by (rule straggler_report_arrival_order)
    (simp_all add: demo_api_db_def wf_db_def empty_db_def demo_durations_def demo_phase_event_def event_key_def)

text \<open>
  C22. A report asked for late is blind: once each of the three series has 50 samples more than
  3 seconds newer than the middle of the top candidate's phase, its root cause is UNKNOWN,
  whatever the samples of the phase say, because only the latest 50 are looked at.
\<close>

theorem late_report_is_unknown:
  assumes "get_straggler_report job k d = Inr r" and "rep_top_candidate r = Some n"
    and "\<forall>e\<in>set (phase_events d). of_phase job k e \<and> er_node_id e = n \<longrightarrow>
           (er_start_ts_ns e + er_end_ts_ns e) div 2 + 3000000000 \<le> t"
    and "\<forall>m\<in>{1, 5, 8}. 50 \<le> length (filter (\<lambda>x. of_series n m x \<and> t < sr_ts_ns x) (samples d))"
  shows "rep_root_cause r = Some ''UNKNOWN''"
proof -
  let ?events = "select_phase_events job (Some k) d"
  from assms(1,2) obtain cause where cause: "report_root_cause n ?events d = Inr cause"
    and r: "rep_root_cause r = Some cause"
    by (auto simp: get_straggler_report_def list_phase_events_def split: option.splits sum.splits if_splits)
  from cause obtain e where e: "find (\<lambda>e. pe_node_id e = n) ?events = Some e"
    by (auto simp: report_root_cause_def split: option.splits)
  then have "e \<in> set ?events" "pe_node_id e = n" by (auto simp: find_Some_iff)
  then have late: "(pe_start_ts_ns e + pe_end_ts_ns e) div 2 + ROOT_CAUSE_SEARCH_RADIUS_NS \<le> t"
    using assms(3) by (auto simp: set_select_phase_events phase_event_of_def ROOT_CAUSE_SEARCH_RADIUS_NS_def)
  have none: "nearest_sample_value n m ((pe_start_ts_ns e + pe_end_ts_ns e) div 2) d = None" if "m \<in> {1, 5, 8}" for m
    by (rule nearest_sample_too_old [OF _ late]) (use assms(4) that in blast)
  have ids: "the (METRIC_NAME_TO_ID ''cpu_pct'') = 1" "the (METRIC_NAME_TO_ID ''iowait_pct'') = 5"
    "the (METRIC_NAME_TO_ID ''net_rx_bytes_s'') = 8"
    by code_simp+
  have "metric_delta n name start ((pe_start_ts_ns e + pe_end_ts_ns e) div 2) d = Inr None"
    if "the (METRIC_NAME_TO_ID name) \<in> {1, 5, 8}" for name start
    using none [OF that] by (simp add: metric_delta_def relative_delta_def Let_def split: option.split)
  then have "cause = tag_root_cause None None None"
    using cause by (simp add: report_root_cause_def e Let_def ids)
  then show ?thesis using r by (simp add: tag_root_cause_def List.map_filter_def)
qed

theorem late_report_is_unknown_witness:
  "\<exists>r. get_straggler_report ''j'' 0 demo_api_db = Inr r \<and> rep_top_candidate r = Some ''b''
     \<and> rep_root_cause r = Some ''UNKNOWN''"
proof -
  have top: "rep_top_candidate demo_report = Some ''b''" by (simp add: demo_report_def)
  have "''b'' \<in> pe_node_id ` set (select_phase_events ''j'' (Some 0) demo_api_db)"
    by (simp add: demo_api_events demo_durations_def demo_phase_event_def phase_event_of_def)
  then obtain cause where "report_root_cause ''b'' (select_phase_events ''j'' (Some 0) demo_api_db) demo_api_db = Inr cause"
    using report_root_cause_total by blast
  then have served: "get_straggler_report ''j'' 0 demo_api_db = Inr (demo_report\<lparr>rep_root_cause := Some cause\<rparr>)"
    using demo_rank top by (simp add: get_straggler_report_def list_phase_events_def demo_api_job demo_api_durations Let_def)
  have mid: "\<forall>e\<in>set (phase_events demo_api_db). of_phase ''j'' 0 e \<and> er_node_id e = ''b'' \<longrightarrow>
      (er_start_ts_ns e + er_end_ts_ns e) div 2 + 3000000000 \<le> 10000000000"
    by (simp add: demo_api_db_def demo_durations_def demo_phase_event_def)
  have "\<forall>m\<in>{1, 5, 8}. length (filter (\<lambda>x. of_series ''b'' m x \<and> 10000000000 < sr_ts_ns x) demo_late_samples) = 50"
    by code_simp
  then have many: "\<forall>m\<in>{1, 5, 8}. 50 \<le> length (filter (\<lambda>x. of_series ''b'' m x \<and> 10000000000 < sr_ts_ns x) (samples demo_api_db))"
    by (simp add: demo_api_db_def)
  show ?thesis using late_report_is_unknown [OF served _ mid many] served top by simp
qed

text \<open>
  C23. Starting a job is all or nothing: a refused request (no hosts: 503; no phase, or a fault for
  a host that is not configured: 400; a phase count of 2 to the 63 or more, which SQLite cannot bind,
  or a job id that is taken: 500) leaves the store as it was; any other is accepted, and an accepted one makes the job visible at
  once, \<open>running\<close>, with the configured hosts and the fault manifest its task gets, and changes no
  other job.
\<close>

theorem start_job_outcome:
  "case start_job hosts clk uuid request s of
     (Inl (code, _), s') \<Rightarrow> srv_db s' = srv_db s
       \<and> (code = 503 \<and> hosts = [] \<or> code = 400 \<and> sj_phase_count request < 1
          \<or> code = 400 \<and> (\<exists>f. sj_fault request = Some f \<and> fr_target_host f \<notin> set hosts)
          \<or> code = 500 \<and> 2 ^ 63 \<le> sj_phase_count request
          \<or> code = 500 \<and> uuid \<in> set (map jr_job_id (jobs (srv_db s))))
   | (Inr t, s') \<Rightarrow> hosts \<noteq> [] \<and> 1 \<le> sj_phase_count request \<and> sj_phase_count request < 2 ^ 63
       \<and> uuid \<notin> set (map jr_job_id (jobs (srv_db s)))
       \<and> (case sj_fault request of None \<Rightarrow> True | Some f \<Rightarrow> fr_target_host f \<in> set hosts)
       \<and> t = \<lparr>jt_job_id = uuid, jt_hosts = hosts, jt_phase_count = sj_phase_count request,
              jt_sieve_limit = sj_sieve_limit request, jt_fault = map_option model_dump (sj_fault request)\<rparr>
       \<and> (\<exists>row. api_get_job uuid (srv_db s') = Inr (row, select_phase_events uuid None (srv_db s))
            \<and> jr_status row = ''running'' \<and> jr_node_ids_json row = hosts
            \<and> jr_phase_count row = sj_phase_count request \<and> jr_fault_manifest_json row = jt_fault t)
       \<and> (\<forall>j. j = uuid \<or> api_get_job j (srv_db s') = api_get_job j (srv_db s))"
proof -
  let ?row = "\<lambda>m now. \<lparr>jr_job_id = uuid, jr_phase_count = sj_phase_count request, jr_node_ids_json = hosts,
      jr_fault_manifest_json = m, jr_status = ''running'', jr_created_ts_ns = now\<rparr>"
  have find_new: "find P (js @ [x]) = (case find P js of None \<Rightarrow> if P x then Some x else None | Some y \<Rightarrow> Some y)"
    for P and js :: "job_row list" and x by (induction js) simp_all
  have fresh: "find (\<lambda>j. jr_job_id j = uuid) js = None" if "uuid \<notin> set (map jr_job_id js)" for js
    using that by (auto simp: find_None_iff)
  have created: "create_job clk uuid hosts (sj_phase_count request) m s =
     (if \<not> bindable (sj_phase_count request) then (Inl OverflowError, s\<lparr>srv_ticks := Suc (srv_ticks s)\<rparr>)
      else if uuid \<in> set (map jr_job_id (jobs (srv_db s))) then (Inl IntegrityError, s\<lparr>srv_ticks := Suc (srv_ticks s)\<rparr>)
      else (Inr uuid, s\<lparr>srv_ticks := Suc (srv_ticks s),
        srv_db := (srv_db s)\<lparr>jobs := jobs (srv_db s) @ [?row m (clk (srv_ticks s))]\<rparr>\<rparr>))" for m
    by (simp add: create_job_def time_ns_def store_create_job_def)
  have row: "api_get_job j (d\<lparr>jobs := jobs d @ [?row m now]\<rparr>) =
      (if j = uuid then Inr (?row m now, select_phase_events uuid None d) else api_get_job j d)"
    if "uuid \<notin> set (map jr_job_id (jobs d))" for j d m now
    using fresh [OF that] by (auto simp: api_get_job_cases store_get_job_def find_new select_phase_events_def split: option.split)
  have range: "bindable (sj_phase_count request) \<longleftrightarrow> sj_phase_count request < 2 ^ 63" if "1 \<le> sj_phase_count request"
    using that by (simp add: bindable_def)
  show ?thesis
  proof (cases "bindable (sj_phase_count request) \<and> uuid \<notin> set (map jr_job_id (jobs (srv_db s)))")
    case False
    then show ?thesis using range by (simp add: start_job_def launch_job_def created not_less split: option.split)
  next
    case True
    then have launch: "launch_job hosts clk uuid request m s =
       (Inr \<lparr>jt_job_id = uuid, jt_hosts = hosts, jt_phase_count = sj_phase_count request,
             jt_sieve_limit = sj_sieve_limit request, jt_fault = m\<rparr>,
        s\<lparr>srv_ticks := Suc (srv_ticks s),
          srv_db := (srv_db s)\<lparr>jobs := jobs (srv_db s) @ [?row m (clk (srv_ticks s))]\<rparr>\<rparr>)" for m
      unfolding launch_job_def created by simp
    show ?thesis using True range by (simp add: start_job_def launch row split: option.split)
  qed
qed

text \<open>
  After a round of the refresh that raises nothing, every rollup is current: for each series
  with samples, both resolutions return the recomputation of its raw samples.
\<close>

theorem refresh_makes_current:
  assumes "refresh_rollups avg d = (None, d')" and "x \<in> set (samples d)"
  shows "query_rollup (sr_node_id x) (sr_metric_id x) ''1m'' limit d' = Inr (map rollup_point_of (sql_limit limit
           (rev (rollups_of avg 60000000000 (sr_node_id x) (sr_metric_id x) (samples d)))))
    \<and> query_rollup (sr_node_id x) (sr_metric_id x) ''1h'' limit d' = Inr (map rollup_point_of (sql_limit limit
           (rev (rollups_of avg 3600000000000 (sr_node_id x) (sr_metric_id x) (samples d)))))"
proof -
  note r = refresh_pairs_result [OF assms(1) [unfolded refresh_rollups_def]]
  have "current_rollups avg (sr_node_id x, sr_metric_id x) d'" using r(2) assms(2) by (simp add: set_pairs)
  then show ?thesis using r(1) order_by_desc_ascending [OF rollups_of_ascending]
    by (simp add: current_rollups_def series_rollup_def query_rollup_def rollup_table_def
        BUCKET_WIDTH_NS_1M_def BUCKET_WIDTH_NS_1H_def)
qed

theorem refresh_makes_current_witness:
  "\<exists>d'. refresh_rollups sum_average demo_db = (None, d')
     \<and> query_rollup ''node-1'' 1 ''1m'' 1 d' = Inr [\<lparr>rp_bucket_ts_ns = 60000000000, rp_avg_value = Fin 50,
          rp_min_value = Fin 50, rp_max_value = Fin 50, rp_sample_count = 1\<rparr>]"
proof -
  obtain d' where r: "refresh_rollups sum_average demo_db = (None, d')"
  proof -
    have "fst (refresh_rollups sum_average demo_db) = None" by code_simp
    then show ?thesis using that by (metis prod.collapse)
  qed
  have "demo_sample 100 10 \<in> set (samples demo_db)"
    by (simp add: demo_db_def insert_samples_def insert_sample_row_def insert_or_ignore_def empty_db_def
        sample_ok_def demo_sample_def sample_key_def)
  from refresh_makes_current [OF r this, of 1, THEN conjunct1]
  have "query_rollup ''node-1'' 1 ''1m'' 1 d' = Inr (map rollup_point_of (sql_limit 1
      (rev (rollups_of sum_average 60000000000 ''node-1'' 1 (samples demo_db)))))"
    by (simp add: demo_sample_def)
  also have "map rollup_point_of (sql_limit 1 (rev (rollups_of sum_average 60000000000 ''node-1'' 1 (samples demo_db))))
      = [\<lparr>rp_bucket_ts_ns = 60000000000, rp_avg_value = Fin 50, rp_min_value = Fin 50,
            rp_max_value = Fin 50, rp_sample_count = 1\<rparr>]" by code_simp
  finally show ?thesis using r by blast
qed

text \<open>
  C24. The refresh task dies exactly when some series has a bucket whose average is NaN (samples
  of both infinities in one bucket): the INSERT of the NULL average raises IntegrityError, and
  nothing in the loop catches it.
\<close>

theorem refresh_dies_iff:
  "fst (refresh_rollups avg d) = (if \<exists>x\<in>set (samples d). \<exists>w\<in>{60000000000, 3600000000000}.
       \<exists>r\<in>set (rollups_of avg w (sr_node_id x) (sr_metric_id x) (samples d)). rr_avg_value r = NaN
     then Some IntegrityError else None)"
  unfolding refresh_rollups_def refresh_pairs_fails_iff set_pairs
  by (simp add: nan_bucket_def BUCKET_WIDTH_NS_1M_def BUCKET_WIDTH_NS_1H_def)

end
