(* ===== verification/Live.thy ===== *)
theory Live
  imports Rack Trials Api
begin

text \<open>
  The trial script against the rack: the requests of \<open>run_trials.py\<close> are answered by the
  endpoints of \<open>api.py\<close>, and the task that \<open>start_job\<close> creates runs \<open>execute_job\<close> while the script
  sleeps between two polls. The other tasks of the process run between the requests. The
  properties follow one trial, and the frozen batch, from the request to the verdict.
\<close>

section \<open>The service the script calls\<close>

text \<open>
  What the model leaves open: the random job ids, the environment of a job's coroutine, the
  number of polls that see the job running, the time one sleep takes, and the other tasks.
\<close>

record live_rack =
  lr_hosts :: "string list"
  lr_clock :: clock
  lr_uuid :: "nat \<Rightarrow> string"
  lr_env :: "job_task \<Rightarrow> environment"
  lr_polls :: "job_task \<Rightarrow> nat"
  lr_pause :: rat
  lr_others :: "server \<Rightarrow> server"

text \<open>
  The process, its job tasks with the polls each still outlasts, the requests that the tasks have
  dispatched to the runners, the ids drawn, and the clock of the script.
\<close>

record live =
  lv_srv :: server
  lv_tasks :: "(job_task \<times> nat) list"
  lv_sent :: "phase_request list"
  lv_ids :: nat
  lv_now :: rat

text \<open>The text of a \<open>urllib.error.HTTPError\<close>.\<close>

definition http_error_text :: "int \<Rightarrow> string" where
  "http_error_text code = ''HTTP Error '' @ decimal (nat code) @ '': '' @
     (if code = 400 then ''Bad Request'' else if code = 404 then ''Not Found''
      else if code = 422 then ''Unprocessable Entity'' else if code = 503 then ''Service Unavailable''
      else ''Internal Server Error'')"

fun http_result :: "'a reply \<Rightarrow> http_error + 'a" where
  "http_result (Inl (code, _)) = Inl (Unreachable (http_error_text code))"
| "http_result (Inr x) = Inr x"

text \<open>The validation of the JSON body: \<open>intensity\<close> is an integer, which a null is not.\<close>

definition request_of_body :: "trial_body \<Rightarrow> start_job_request reply" where
  "request_of_body b = (case tb_fault b of
     None \<Rightarrow> Inr \<lparr>sj_phase_count = tb_phase_count b, sj_sieve_limit = Some (tb_sieve_limit b), sj_fault = None\<rparr>
   | Some (host, k, fault_type, None) \<Rightarrow> Inl (422, ''intensity'')
   | Some (host, k, fault_type, Some i) \<Rightarrow> Inr \<lparr>sj_phase_count = tb_phase_count b,
       sj_sieve_limit = Some (tb_sieve_limit b),
       sj_fault = Some \<lparr>fr_target_host = host, fr_phase_index = k, fr_fault_type = fault_type, fr_intensity = i\<rparr>\<rparr>)"

definition post_job :: "live_rack \<Rightarrow> trial_body \<Rightarrow> live \<Rightarrow> (http_error + string) \<times> live" where
  "post_job lr b w = (case request_of_body b of
     Inl e \<Rightarrow> (http_result (Inl e), w)
   | Inr request \<Rightarrow> (case start_job (lr_hosts lr) (lr_clock lr) (lr_uuid lr (lv_ids w)) request (lv_srv w) of
       (Inl e, s) \<Rightarrow> (http_result (Inl e), w\<lparr>lv_srv := s, lv_ids := Suc (lv_ids w)\<rparr>)
     | (Inr t, s) \<Rightarrow> (Inr (jt_job_id t), w\<lparr>lv_srv := s, lv_ids := Suc (lv_ids w),
         lv_tasks := lv_tasks w @ [(t, lr_polls lr t)]\<rparr>)))"

definition poll_status :: "string \<Rightarrow> live \<Rightarrow> (http_error + string) \<times> live" where
  "poll_status job w = (map_sum id (jr_status \<circ> fst) (http_result (api_get_job job (srv_db (lv_srv w)))), w)"

definition fetch_report :: "string \<Rightarrow> int \<Rightarrow> live \<Rightarrow> (http_error + straggler_report) \<times> live" where
  "fetch_report job k w = (http_result (get_straggler_report job k (srv_db (lv_srv w))), w)"

text \<open>The background task: \<open>execute_job\<close> with the arguments of the request, and what it dispatches.\<close>

definition run_task :: "live_rack \<Rightarrow> job_task \<Rightarrow> server \<times> phase_request list \<Rightarrow> server \<times> phase_request list" where
  "run_task lr t x = (case execute_job (lr_env lr t) (jt_job_id t) (jt_hosts t) (jt_phase_count t) (jt_sieve_limit t)
       (jt_fault t) \<lparr>o_srv = fst x, o_mono = 0, o_await = 0, o_sent = snd x\<rparr> of
     None \<Rightarrow> x | Some (_, st) \<Rightarrow> (o_srv st, o_sent st))"

definition sleep_poll :: "live_rack \<Rightarrow> live \<Rightarrow> live" where
  "sleep_poll lr w = (let (s, sent) = fold (run_task lr) (map fst (filter (\<lambda>x. snd x = 0) (lv_tasks w))) (lv_srv w, lv_sent w) in
     w\<lparr>lv_srv := lr_others lr s, lv_sent := sent,
     lv_tasks := map (map_prod id (\<lambda>n. n - 1)) (filter (\<lambda>x. snd x \<noteq> 0) (lv_tasks w)),
     lv_now := lv_now w + lr_pause lr\<rparr>)"

definition live_service :: "live_rack \<Rightarrow> live service" where
  "live_service lr = \<lparr>sv_post_job = post_job lr, sv_job_status = poll_status, sv_report = fetch_report,
     sv_monotonic = (\<lambda>w. (lv_now w, w)), sv_sleep = sleep_poll lr\<rparr>"

definition healthz :: "live \<Rightarrow> (http_error + string option) \<times> live" where
  "healthz w = (Inr (Some ''ok''), w)"

section \<open>A rack that works\<close>

definition task_of :: "live_rack \<Rightarrow> nat \<Rightarrow> start_job_request \<Rightarrow> job_task" where
  "task_of lr n request = \<lparr>jt_job_id = lr_uuid lr n, jt_hosts = lr_hosts lr, jt_phase_count = sj_phase_count request,
     jt_sieve_limit = sj_sieve_limit request, jt_fault = map_option model_dump (sj_fault request)\<rparr>"

definition task_requests :: "job_task \<Rightarrow> phase_request list" where
  "task_requests t = phase_requests (jt_fault t) (jt_job_id t) (jt_sieve_limit t) (jt_hosts t) 0"

definition work_time :: "rack \<Rightarrow> phase_request \<Rightarrow> int" where
  "work_time rk r = w_end_mono (rk_world rk r) - w_start_mono (rk_world rk r)"

text \<open>
  The runners answer the requests of the task and report; the other tasks leave the jobs and the
  events alone.
\<close>

definition rack_serves :: "rack \<Rightarrow> environment \<Rightarrow> job_task \<Rightarrow> bool" where
  "rack_serves rk env t \<longleftrightarrow>
     (\<forall>s. same_jobs (ev_other env 0 s) (rack_phase rk (jt_fault t) (jt_job_id t) (jt_sieve_limit t) (jt_hosts t) 0 s))
   \<and> (\<forall>r\<in>set (task_requests t). request_works rk r \<and> ev_post env r \<noteq> OtherError)"

text \<open>
  The effect of a fault on the work: without one, the nodes need the same time up to a
  millisecond; with one, at least 5.19 ms more than the slowest of the others.
\<close>

definition fault_shows :: "rack \<Rightarrow> job_task \<Rightarrow> bool" where
  "fault_shows rk t \<longleftrightarrow> (\<exists>m M. M \<le> m + 1000000 \<and> \<bar>m\<bar> \<le> 2 ^ 53 \<and>
     (\<forall>r\<in>set (task_requests t). \<bar>work_time rk r\<bar> \<le> 2 ^ 53
        \<and> (if pr_fault r = None then m \<le> work_time rk r \<and> work_time rk r \<le> M else M + 5190000 \<le> work_time rk r)))"

section \<open>One job\<close>

text \<open>What a job of one phase has sent when it ends without an exception.\<close>

lemma wait_loop_sent: "wait_loop env j k n deadline st = Some r \<Longrightarrow> o_sent (snd r) = o_sent st"
proof (erule wait_loop.raw_induct [rotated], goal_cases)
  case (1 loop env j k n deadline st r)
  show ?case
  proof (cases "ev_mono env (o_mono st) < deadline \<and> \<not> n \<le> reports j k st")
    case True
    then have "loop env j k n deadline (await env (tick st)) = Some r" using 1(2) by simp
    from 1(1) [OF this] show ?thesis by simp
  next
    case False
    then have "r = (n \<le> reports j k st, tick st)" using 1(2) by (auto split: if_splits)
    then show ?thesis by simp
  qed
qed

lemma single_phase_sent:
  assumes "run_phases env job hosts sieve manifest [k] st = Some (Inr (), st')"
  shows "o_sent st' = o_sent st @ map (request_to manifest job sieve k) hosts"
proof -
  from assms obtain rs st1 b st2 where rs: "build_dispatches manifest job sieve k hosts = Inr rs"
    and g: "gather_dispatches env rs st = (None, st1)"
    and w: "wait_for_phase_reports env job k (length hosts) st1 = Some (b, st2)"
    and last: "o_sent st' = o_sent st2"
    by (auto simp: bind_eq_Some_conv split: sum.splits prod.splits option.splits if_splits)
  have "o_sent st1 = o_sent st @ rs" using g by (auto simp: gather_dispatches_def Let_def)
  moreover have "o_sent st2 = o_sent st1" using wait_loop_sent [OF w [unfolded wait_for_phase_reports_def]] by simp
  ultimately show ?thesis using last build_dispatches_Inr [OF rs] by simp
qed

lemma run_task_completes:
  assumes "rack_serves rk (lr_env lr t) t" and "jt_phase_count t = 1"
    and "\<forall>m. jt_fault t = Some m \<longrightarrow> fm_fault_type m \<noteq> None"
    and "distinct (map (\<lambda>h. rc_node_id (rk_config rk h)) (jt_hosts t))"
    and "\<forall>e\<in>set (phase_events (srv_db s)). er_job_id e \<noteq> jt_job_id t"
  shows "jobs (srv_db (fst (run_task lr t (s, sent)))) = jobs (set_job_status (jt_job_id t) ''completed'' (srv_db s))
    \<and> phase_events (srv_db (fst (run_task lr t (s, sent)))) = phase_events (srv_db s) @ map (report_row rk) (task_requests t)
    \<and> snd (run_task lr t (s, sent)) = sent @ task_requests t"
proof -
  let ?st = "\<lparr>o_srv = s, o_mono = 0, o_await = 0, o_sent = sent\<rparr>"
  have one: "{0..<1} = {0 :: int}" by auto
  have "\<exists>st'. run_phases (lr_env lr t) (jt_job_id t) (jt_hosts t) (jt_sieve_limit t) (jt_fault t) [0..1 - 1] ?st = Some (Inr (), st')
    \<and> jobs (srv_db (o_srv st')) = jobs (set_job_status (jt_job_id t) ''completed'' (srv_db (o_srv ?st)))
    \<and> phase_events (srv_db (o_srv st')) = phase_events (srv_db (o_srv ?st))
        @ job_rows rk (jt_fault t) (jt_job_id t) (jt_sieve_limit t) (jt_hosts t) [0..1 - 1]"
    by (rule rack_run [OF _ order_refl _ assms(4,3)])
      (use assms(1,5) in \<open>auto simp: one rack_serves_def task_requests_def of_phase_def\<close>)
  then obtain st' where run: "run_phases (lr_env lr t) (jt_job_id t) (jt_hosts t) (jt_sieve_limit t) (jt_fault t) [0] ?st = Some (Inr (), st')"
    and st': "jobs (srv_db (o_srv st')) = jobs (set_job_status (jt_job_id t) ''completed'' (srv_db s))"
      "phase_events (srv_db (o_srv st')) = phase_events (srv_db s) @ job_rows rk (jt_fault t) (jt_job_id t) (jt_sieve_limit t) (jt_hosts t) [0]"
    by auto
  from single_phase_sent [OF run] have "o_sent st' = sent @ task_requests t" by (simp add: task_requests_def phase_requests_def)
  moreover have "run_task lr t (s, sent) = (o_srv st', o_sent st')" using run assms(2) by (simp add: run_task_def execute_job_def)
  ultimately show ?thesis using st' by (simp add: job_rows_def task_requests_def)
qed

section \<open>The report of the job\<close>

definition node_of_request :: "rack \<Rightarrow> phase_request \<Rightarrow> string" where
  "node_of_request rk r = rc_node_id (rk_config rk (pr_host r))"

lemma report_row_fields [simp]:
  "er_node_id (report_row rk r) = node_of_request rk r"
  "er_status (report_row rk r) = phase_status r"
  "er_end_mono_ns (report_row rk r) - er_start_mono_ns (report_row rk r) = work_time rk r"
  by (simp_all add: report_row_def event_row_of_def phase_msg_def node_of_request_def work_time_def)

lemma task_requests_of: "r \<in> set (task_requests t) \<Longrightarrow> of_phase (jt_job_id t) 0 (report_row rk r)"
  by (auto simp: task_requests_def phase_requests_def)

lemma task_nodes:
  "map (node_of_request rk) (task_requests t) = map (\<lambda>h. rc_node_id (rk_config rk h)) (jt_hosts t)"
  by (simp add: task_requests_def phase_requests_def node_of_request_def request_to_def)

lemma task_durations:
  assumes "phase_events d = es @ map (report_row rk) (task_requests t)" and "\<forall>e\<in>set es. er_job_id e \<noteq> jt_job_id t"
    and "distinct (map (\<lambda>h. rc_node_id (rk_config rk h)) (jt_hosts t))"
    and "\<forall>r\<in>set (task_requests t). known_fault (pr_fault r)"
  shows "mset (durations_of (select_phase_events (jt_job_id t) (Some 0) d)) =
     mset (map (\<lambda>r. (node_of_request rk r, work_time rk r)) (task_requests t))"
proof -
  let ?rows = "map (report_row rk) (task_requests t)" and ?dur = "\<lambda>e. (pe_node_id e, pe_end_mono_ns e - pe_start_mono_ns e)"
  have "filter (of_phase (jt_job_id t) 0) es = []" using assms(2) by (auto simp: filter_empty_conv of_phase_def)
  moreover have "filter (of_phase (jt_job_id t) 0) ?rows = ?rows" by (rule filter_True) (use task_requests_of in auto)
  ultimately have events: "select_phase_events (jt_job_id t) (Some 0) d = map phase_event_of (sort_key er_node_id ?rows)"
    by (simp add: select_phase_events_def assms(1))
  have "mset (map er_node_id (sort_key er_node_id ?rows)) = mset (map (node_of_request rk) (task_requests t))"
    by (simp add: image_mset.compositionality comp_def)
  then have nodes: "distinct (map er_node_id (sort_key er_node_id ?rows))"
    using mset_eq_imp_distinct_iff assms(3) unfolding task_nodes by blast
  have "\<forall>e\<in>set (map phase_event_of (sort_key er_node_id ?rows)). pe_status e = ''ok''"
    using assms(4) by (auto simp: phase_event_of_def phase_status_def)
  then have ok: "filter (\<lambda>e. pe_status e = ''ok'') (map phase_event_of (sort_key er_node_id ?rows))
      = map phase_event_of (sort_key er_node_id ?rows)" by (rule filter_True)
  have "durations_of (map phase_event_of (sort_key er_node_id ?rows)) = map ?dur (map phase_event_of (sort_key er_node_id ?rows))"
    by (subst durations_of_eq) (use nodes in \<open>simp_all only: ok, simp add: comp_def phase_event_of_def\<close>)
  then have "mset (durations_of (select_phase_events (jt_job_id t) (Some 0) d)) = image_mset ?dur (image_mset phase_event_of (mset ?rows))"
    unfolding events by (simp only: mset_map mset_sort)
  also have "\<dots> = mset (map (\<lambda>r. (node_of_request rk r, work_time rk r)) (task_requests t))"
    by (simp add: image_mset.compositionality comp_def phase_event_of_def flip: mset_map)
  finally show ?thesis .
qed

text \<open>The job's row and events after a run of its task.\<close>

lemma task_report:
  assumes "phase_events d = es @ map (report_row rk) (task_requests t)" and "\<forall>e\<in>set es. er_job_id e \<noteq> jt_job_id t"
    and "distinct (map (\<lambda>h. rc_node_id (rk_config rk h)) (jt_hosts t))"
    and "\<forall>r\<in>set (task_requests t). known_fault (pr_fault r)"
    and "store_get_job (jt_job_id t) d = Some row"
    and "3 \<le> length (jt_hosts t)" and "fault_shows rk t"
    and "\<And>r r'. r \<in> set (task_requests t) \<Longrightarrow> r' \<in> set (task_requests t) \<Longrightarrow>
          pr_fault r \<noteq> None \<Longrightarrow> pr_fault r' \<noteq> None \<Longrightarrow> r = r'"
  shows "\<exists>rep. get_straggler_report (jt_job_id t) 0 d = Inr rep \<and> rep_status rep = Ranked
     \<and> (\<forall>rn\<in>set (rep_ranked_nodes rep). rn_flagged rn
          \<longleftrightarrow> (\<exists>r\<in>set (task_requests t). pr_fault r \<noteq> None \<and> node_of_request rk r = rn_node_id rn))
     \<and> (\<forall>r\<in>set (task_requests t). pr_fault r \<noteq> None \<longrightarrow> rep_top_candidate rep = Some (node_of_request rk r))"
proof -
  let ?rs = "task_requests t" and ?f = "\<lambda>r. (node_of_request rk r, work_time rk r)"
  let ?ds = "durations_of (select_phase_events (jt_job_id t) (Some 0) d)"
  have ds: "mset ?ds = mset (map ?f ?rs)" by (rule task_durations [OF assms(1-4)])
  then have set_ds: "set ?ds = ?f ` set ?rs" by (metis set_map set_mset_mset)
  have len: "3 \<le> length ?ds" using mset_eq_length [OF ds] assms(6) by (simp add: task_requests_def phase_requests_def)
  have nodes: "distinct (map (node_of_request rk) ?rs)" unfolding task_nodes by (rule assms(3))
  then have inj: "node_of_request rk r = node_of_request rk r' \<longleftrightarrow> r = r'" if "r \<in> set ?rs" "r' \<in> set ?rs" for r r'
    using that by (auto simp: distinct_map dest: inj_onD)
  have dist: "distinct (map fst ?ds)" by (rule durations_of_distinct)
  obtain m M where mM: "M \<le> m + 1000000" "\<bar>m\<bar> \<le> 2 ^ 53"
    and times: "\<forall>r\<in>set ?rs. \<bar>work_time rk r\<bar> \<le> 2 ^ 53 \<and> (if pr_fault r = None
        then m \<le> work_time rk r \<and> work_time rk r \<le> M else M + 5190000 \<le> work_time rk r)"
    using assms(7) unfolding fault_shows_def by blast
  have "\<exists>rep. rank_stragglers (jt_job_id t) 0 ?ds = Some rep \<and> rep_status rep = Ranked
     \<and> (\<forall>rn\<in>set (rep_ranked_nodes rep). rn_flagged rn
          \<longleftrightarrow> (\<exists>r\<in>set ?rs. pr_fault r \<noteq> None \<and> node_of_request rk r = rn_node_id rn))
     \<and> (\<forall>r\<in>set ?rs. pr_fault r \<noteq> None \<longrightarrow> rep_top_candidate rep = Some (node_of_request rk r))"
  proof (cases "\<exists>r\<in>set ?rs. pr_fault r \<noteq> None")
    case True
    then obtain r0 where r0: "r0 \<in> set ?rs" "pr_fault r0 \<noteq> None" by blast
    have only: "pr_fault r \<noteq> None \<longleftrightarrow> r = r0" if "r \<in> set ?rs" for r
      using assms(8) [OF that r0(1)] r0(2) by blast
    have others: "\<forall>(n', d')\<in>set ?ds. n' \<noteq> node_of_request rk r0 \<longrightarrow> m \<le> d' \<and> d' \<le> M"
      using times only unfolding set_ds by fastforce
    have "M + 5190000 \<le> work_time rk r0" "\<bar>work_time rk r0\<bar> \<le> 2 ^ 53" using times r0 by (auto split: if_splits)
    from straggler_flagged [OF len dist _ others mM(1) this(1) mM(2) this(2)] r0(1)
    obtain rep where rep: "rank_stragglers (jt_job_id t) 0 ?ds = Some rep" "rep_status rep = Ranked"
      "rep_top_candidate rep = Some (node_of_request rk r0)"
      "\<forall>rn\<in>set (rep_ranked_nodes rep). rn_flagged rn \<longleftrightarrow> rn_node_id rn = node_of_request rk r0"
      unfolding set_ds by blast
    have "(\<exists>r\<in>set ?rs. pr_fault r \<noteq> None \<and> node_of_request rk r = n) \<longleftrightarrow> n = node_of_request rk r0" for n
      using only r0 by auto
    then show ?thesis using rep only by auto
  next
    case False
    then have all: "m \<le> work_time rk r \<and> work_time rk r \<le> M" if "r \<in> set ?rs" for r using times that by auto
    have spread: "work_time rk r - work_time rk r' \<le> 5189000" if "r \<in> set ?rs" "r' \<in> set ?rs" for r r'
      using all [OF that(1)] all [OF that(2)] mM(1) by linarith
    obtain rep where rep: "rank_stragglers (jt_job_id t) 0 ?ds = Some rep" "rep_status rep = Ranked"
      by (rule rank_cases [OF len])
    have "\<forall>x\<in>snd ` set ?ds. \<bar>x\<bar> \<le> 2 ^ 53" unfolding set_ds using times by auto
    moreover have "\<forall>x\<in>snd ` set ?ds. \<forall>x'\<in>snd ` set ?ds. x - x' \<le> 5189000"
      unfolding set_ds using spread by auto
    ultimately have "\<forall>rn\<in>set (rep_ranked_nodes rep). \<not> rn_flagged rn" using jitter_not_flagged [OF rep(1)] by blast
    then show ?thesis using rep False by blast
  qed
  then obtain rep where rep: "rank_stragglers (jt_job_id t) 0 ?ds = Some rep" "rep_status rep = Ranked"
    "\<forall>rn\<in>set (rep_ranked_nodes rep). rn_flagged rn
          \<longleftrightarrow> (\<exists>r\<in>set ?rs. pr_fault r \<noteq> None \<and> node_of_request rk r = rn_node_id rn)"
    "\<forall>r\<in>set ?rs. pr_fault r \<noteq> None \<longrightarrow> rep_top_candidate rep = Some (node_of_request rk r)" by blast
  obtain cause where "get_straggler_report (jt_job_id t) 0 d = Inr (rep\<lparr>rep_root_cause := cause\<rparr>)"
    using report_of_ranking [OF assms(5) bindable_small(1) rep(1)] by (elim exE conjE)
  then show ?thesis using rep(2-4) by (intro exI [of _ "rep\<lparr>rep_root_cause := cause\<rparr>"]) simp
qed

section \<open>Waiting for the job\<close>

lemma live_service_simps [simp]:
  "sv_post_job (live_service lr) = post_job lr" "sv_job_status (live_service lr) = poll_status"
  "sv_report (live_service lr) = fetch_report" "sv_monotonic (live_service lr) = (\<lambda>w. (lv_now w, w))"
  "sv_sleep (live_service lr) = sleep_poll lr"
  by (simp_all add: live_service_def)

lemma poll_status_row:
  "store_get_job job (srv_db (lv_srv w)) = Some row \<Longrightarrow> poll_status job w = (Inr (jr_status row), w)"
  by (simp add: poll_status_def api_get_job_cases)

lemma wait_step:
  assumes "lv_now w < deadline" and "store_get_job job (srv_db (lv_srv w)) = Some row"
  shows "wait_until (live_service lr) job deadline w =
     (if jr_status row = ''completed'' \<or> jr_status row = ''timed_out'' then Some (Inr (Some (jr_status row)), w)
      else wait_until (live_service lr) job deadline (sleep_poll lr w))"
  using assms by (simp add: wait_until.simps [of "live_service lr" job deadline w] poll_status_row)

lemma wait_completes:
  assumes "\<And>s. same_jobs (lr_others lr s) s" and "0 \<le> lr_pause lr"
    and "\<And>s sent. \<forall>e\<in>set (phase_events (srv_db s)). er_job_id e \<noteq> jt_job_id t \<Longrightarrow>
          jobs (srv_db (fst (run_task lr t (s, sent)))) = jobs (set_job_status (jt_job_id t) ''completed'' (srv_db s))
        \<and> phase_events (srv_db (fst (run_task lr t (s, sent)))) = phase_events (srv_db s) @ rows
        \<and> snd (run_task lr t (s, sent)) = sent @ requests"
    and "lv_tasks w = [(t, n)]" and "store_get_job (jt_job_id t) (srv_db (lv_srv w)) = Some row" and "jr_status row = ''running''"
    and "\<forall>e\<in>set (phase_events (srv_db (lv_srv w))). er_job_id e \<noteq> jt_job_id t"
    and "lv_now w + of_nat (Suc n) * lr_pause lr < deadline"
  shows "\<exists>w'. wait_until (live_service lr) (jt_job_id t) deadline w = Some (Inr (Some ''completed''), w')
     \<and> lv_tasks w' = [] \<and> lv_ids w' = lv_ids w \<and> lv_now w' = lv_now w + of_nat (Suc n) * lr_pause lr
     \<and> jobs (srv_db (lv_srv w')) = jobs (set_job_status (jt_job_id t) ''completed'' (srv_db (lv_srv w)))
     \<and> phase_events (srv_db (lv_srv w')) = phase_events (srv_db (lv_srv w)) @ rows
     \<and> lv_sent w' = lv_sent w @ requests"
  using assms(4-8)
proof (induction n arbitrary: w)
  case 0
  let ?w1 = "sleep_poll lr w"
  have others: "jobs (srv_db (lr_others lr s)) = jobs (srv_db s)" "phase_events (srv_db (lr_others lr s)) = phase_events (srv_db s)" for s
    using assms(1) [of s] by (simp_all add: same_jobs_def)
  have w1: "lv_tasks ?w1 = []" "lv_ids ?w1 = lv_ids w" "lv_now ?w1 = lv_now w + lr_pause lr"
    "jobs (srv_db (lv_srv ?w1)) = jobs (set_job_status (jt_job_id t) ''completed'' (srv_db (lv_srv w)))"
    "phase_events (srv_db (lv_srv ?w1)) = phase_events (srv_db (lv_srv w)) @ rows" "lv_sent ?w1 = lv_sent w @ requests"
    using 0(1) assms(3) [OF 0(4), of "lv_sent w"] by (simp_all add: sleep_poll_def others split_beta)
  have "store_get_job (jt_job_id t) (srv_db (lv_srv ?w1)) = Some (row\<lparr>jr_status := ''completed''\<rparr>)"
    using store_get_job_cong [OF w1(4)] 0(2) by (simp add: set_job_status_find)
  from wait_step [OF _ this, of deadline lr] have "wait_until (live_service lr) (jt_job_id t) deadline ?w1 = Some (Inr (Some ''completed''), ?w1)"
    using 0(5) by (simp add: w1(3))
  moreover have "wait_until (live_service lr) (jt_job_id t) deadline w = wait_until (live_service lr) (jt_job_id t) deadline ?w1"
    using wait_step [OF _ 0(2), of deadline lr] 0(3,5) assms(2) by simp
  ultimately show ?case using w1 by simp
next
  case (Suc n)
  let ?w1 = "sleep_poll lr w"
  have "same_jobs (lv_srv ?w1) (lv_srv w)" using Suc.prems(1) assms(1) by (simp add: sleep_poll_def)
  then have same: "jobs (srv_db (lv_srv ?w1)) = jobs (srv_db (lv_srv w))"
    "phase_events (srv_db (lv_srv ?w1)) = phase_events (srv_db (lv_srv w))" by (simp_all add: same_jobs_def)
  have w1: "lv_tasks ?w1 = [(t, n)]" "lv_ids ?w1 = lv_ids w" "lv_now ?w1 = lv_now w + lr_pause lr" "lv_sent ?w1 = lv_sent w"
    using Suc.prems(1) by (simp_all add: sleep_poll_def)
  have "0 \<le> of_nat (Suc (Suc n)) * lr_pause lr" using assms(2) by (intro mult_nonneg_nonneg) simp_all
  then have "lv_now w < deadline" using Suc.prems(5) by linarith
  then have "wait_until (live_service lr) (jt_job_id t) deadline w = wait_until (live_service lr) (jt_job_id t) deadline ?w1"
    using wait_step [OF _ Suc.prems(2), of deadline lr] Suc.prems(3) by simp
  moreover have now: "lv_now ?w1 + of_nat (Suc n) * lr_pause lr = lv_now w + of_nat (Suc (Suc n)) * lr_pause lr"
    by (simp add: w1(3) algebra_simps)
  moreover have "store_get_job (jt_job_id t) (srv_db (lv_srv ?w1)) = Some row"
    using store_get_job_cong [OF same(1)] Suc.prems(2) by simp
  moreover have status: "jobs (set_job_status j x (srv_db (lv_srv ?w1))) = jobs (set_job_status j x (srv_db (lv_srv w)))" for j x
    by (simp add: set_job_status_def same(1))
  ultimately show ?case
    using Suc.IH [OF w1(1) _ Suc.prems(3), unfolded now w1(2,4) same(2) status] Suc.prems(4,5) by simp
qed

section \<open>One trial\<close>

definition unused_id :: "string \<Rightarrow> server \<Rightarrow> bool" where
  "unused_id j s \<longleftrightarrow> (\<forall>r\<in>set (jobs (srv_db s)). jr_job_id r \<noteq> j) \<and> (\<forall>e\<in>set (phase_events (srv_db s)). er_job_id e \<noteq> j)"

text \<open>The rack of the compose file: eight hosts and their nodes.\<close>

definition live_ready :: "rack \<Rightarrow> live_rack \<Rightarrow> bool" where
  "live_ready rk lr \<longleftrightarrow> lr_hosts lr = map (\<lambda>i. ''workload-'' @ decimal i) [1..<9]
     \<and> (\<forall>i\<in>{1..<9}. rc_node_id (rk_config rk (''workload-'' @ decimal i)) = ''node-'' @ decimal i)
     \<and> (\<forall>s. same_jobs (lr_others lr s) s) \<and> 0 \<le> lr_pause lr"

text \<open>A trial as the manifest has them: no fault, or a fault of a known type for a host of the rack.\<close>

definition known_trial :: "trial \<Rightarrow> bool" where
  "known_trial t \<longleftrightarrow> tr_phase_index t = 0 \<and> (case tr_fault_type t of None \<Rightarrow> True
     | Some f \<Rightarrow> f \<in> {''cpu_contention'', ''io_stall''} \<and> tr_intensity t \<noteq> None
         \<and> (\<exists>i\<in>{1..<9}. tr_target_host t = Some (''workload-'' @ decimal i)))"

text \<open>The job that a trial starts with the \<open>n\<close>-th id is served, in time, and its fault shows.\<close>

definition trial_request_of :: "trial \<Rightarrow> start_job_request" where
  "trial_request_of t = projr (request_of_body (fst (the (trial_request t))))"

definition trial_works :: "rack \<Rightarrow> live_rack \<Rightarrow> nat \<Rightarrow> trial \<Rightarrow> bool" where
  "trial_works rk lr n t \<longleftrightarrow> (let k = task_of lr n (trial_request_of t) in
     rack_serves rk (lr_env lr k) k \<and> fault_shows rk k \<and> of_nat (Suc (lr_polls lr k)) * lr_pause lr \<le> 29)"

lemma post_job_accepted:
  assumes "request_of_body b = Inr request" and "lr_hosts lr \<noteq> []" and "1 \<le> sj_phase_count request" and "bindable (sj_phase_count request)"
    and "\<forall>f. sj_fault request = Some f \<longrightarrow> fr_target_host f \<in> set (lr_hosts lr)"
    and "unused_id (lr_uuid lr (lv_ids w)) (lv_srv w)"
  shows "\<exists>s row. post_job lr b w = (Inr (lr_uuid lr (lv_ids w)), w\<lparr>lv_srv := s, lv_ids := Suc (lv_ids w),
       lv_tasks := lv_tasks w @ [(task_of lr (lv_ids w) request, lr_polls lr (task_of lr (lv_ids w) request))]\<rparr>)
     \<and> jobs (srv_db s) = jobs (srv_db (lv_srv w)) @ [row] \<and> phase_events (srv_db s) = phase_events (srv_db (lv_srv w))
     \<and> jr_job_id row = lr_uuid lr (lv_ids w) \<and> jr_status row = ''running''"
proof -
  have "lr_uuid lr (lv_ids w) \<notin> set (map jr_job_id (jobs (srv_db (lv_srv w))))" using assms(6) by (auto simp: unused_id_def)
  then show ?thesis using assms
    by (auto simp: post_job_def start_job_def launch_job_def create_job_def time_ns_def store_create_job_def task_of_def not_less
        split: option.splits)
qed

lemma deadline_late:
  assumes "0 \<le> now" and "now \<le> 2 ^ 50"
  shows "now + 29 < rnd (now + JOB_POLL_TIMEOUT_S)"
proof -
  have "\<lfloor>now + 30\<rfloor> \<le> \<lfloor>2 ^ 50 + 30 :: rat\<rfloor>" "0 \<le> \<lfloor>now + 30\<rfloor>" using assms by (intro floor_mono, simp_all)
  then have "\<bar>\<lfloor>now + 30\<rfloor>\<bar> \<le> 2 ^ 53" by simp
  then have "rnd (of_int \<lfloor>now + 30\<rfloor>) = of_int \<lfloor>now + 30\<rfloor>" by (rule rnd_of_int)
  then have "of_int \<lfloor>now + 30\<rfloor> \<le> rnd (now + 30)" by (rule b64.above) simp
  moreover have "now + 30 < of_int \<lfloor>now + 30\<rfloor> + 1" by linarith
  ultimately show ?thesis by (simp add: JOB_POLL_TIMEOUT_S_def)
qed

lemma known_trial_request:
  assumes "known_trial t"
  obtains "tr_fault_type t = None"
      and "trial_request t = Some (\<lparr>tb_phase_count = 1, tb_sieve_limit = tr_sieve_limit t, tb_fault = None\<rparr>, None)"
      and "trial_request_of t = \<lparr>sj_phase_count = 1, sj_sieve_limit = Some (tr_sieve_limit t), sj_fault = None\<rparr>"
  | f i v where "tr_fault_type t = Some f" and "i \<in> {1..<9}" and "f \<in> {''cpu_contention'', ''io_stall''}"
      and "trial_request t = Some (\<lparr>tb_phase_count = 1, tb_sieve_limit = tr_sieve_limit t,
          tb_fault = Some (''workload-'' @ decimal i, 0, f, Some v)\<rparr>, Some (''node-'' @ decimal i))"
      and "trial_request_of t = \<lparr>sj_phase_count = 1, sj_sieve_limit = Some (tr_sieve_limit t),
          sj_fault = Some \<lparr>fr_target_host = ''workload-'' @ decimal i, fr_phase_index = 0, fr_fault_type = f, fr_intensity = v\<rparr>\<rparr>"
      and "tr_target_host t = Some (''workload-'' @ decimal i)" and "tr_intensity t = Some v"
proof (cases "tr_fault_type t")
  case None
  then show thesis by (intro that(1)) (simp_all add: trial_request_def trial_request_of_def request_of_body_def)
next
  case (Some f)
  then obtain i v where i: "i \<in> {1..<9}" "tr_target_host t = Some (''workload-'' @ decimal i)"
    and f: "f \<in> {''cpu_contention'', ''io_stall''}" "tr_intensity t = Some v" "tr_phase_index t = 0"
    using assms by (auto simp: known_trial_def)
  have req: "trial_request t = Some (\<lparr>tb_phase_count = 1, tb_sieve_limit = tr_sieve_limit t,
      tb_fault = Some (''workload-'' @ decimal i, 0, f, Some v)\<rparr>, Some (''node-'' @ decimal i))"
    unfolding trial_request_def Some i(2) f(2,3) option.case node_of_host ..
  show thesis by (rule that(2) [OF Some i(1) f(1) req _ i(2) f(2)]) (simp add: trial_request_of_def req request_of_body_def)
qed

lemma live_task_requests:
  assumes "live_ready rk lr"
  shows "r \<in> set (task_requests (task_of lr n q)) \<longleftrightarrow> (\<exists>i\<in>{1..<9}. r = request_to (map_option model_dump (sj_fault q))
     (lr_uuid lr n) (sj_sieve_limit q) 0 (''workload-'' @ decimal i))"
  using assms by (auto simp: task_requests_def phase_requests_def task_of_def live_ready_def)

lemma live_nodes:
  assumes "live_ready rk lr"
  shows "map (\<lambda>h. rc_node_id (rk_config rk h)) (lr_hosts lr) = map (\<lambda>i. ''node-'' @ decimal i) [1..<9]"
  using assms by (simp add: live_ready_def)

lemma trial_faults:
  assumes "live_ready rk lr" and "r \<in> set (task_requests (task_of lr n (trial_request_of t)))" and "known_trial t"
  shows "known_fault (pr_fault r)"
    and "pr_fault r \<noteq> None \<longleftrightarrow> (\<exists>b. trial_request t = Some (b, Some (node_of_request rk r)))"
proof -
  obtain j where j: "j \<in> {1..<9}" and r: "r = request_to (map_option model_dump (sj_fault (trial_request_of t)))
     (lr_uuid lr n) (sj_sieve_limit (trial_request_of t)) 0 (''workload-'' @ decimal j)"
    using assms(1,2) unfolding live_task_requests [OF assms(1)] by blast
  have node: "node_of_request rk r = ''node-'' @ decimal j"
    using assms(1) j by (simp add: r node_of_request_def request_to_def live_ready_def)
  show "known_fault (pr_fault r)"
    by (rule known_trial_request [OF assms(3)])
      (auto simp: r request_to_def fault_of_def fault_for_host_def model_dump_def known_fault_def)
  show "pr_fault r \<noteq> None \<longleftrightarrow> (\<exists>b. trial_request t = Some (b, Some (node_of_request rk r)))"
    unfolding node by (rule known_trial_request [OF assms(3)])
      (auto simp: r request_to_def fault_of_def fault_for_host_def model_dump_def)
qed

text \<open>The requests of a trial: the fault is in the one to its target, with its type and intensity.\<close>

lemma known_trial_dispatch:
  assumes "live_ready rk lr" and "known_trial t"
  shows "task_requests (task_of lr n (trial_request_of t)) = map (\<lambda>i. \<lparr>pr_host = ''workload-'' @ decimal i, pr_job_id = lr_uuid lr n,
      pr_phase_index = 0, pr_sieve_limit = Some (tr_sieve_limit t),
      pr_fault = (case (tr_fault_type t, tr_intensity t) of
          (Some f, Some v) \<Rightarrow> if tr_target_host t = Some (''workload-'' @ decimal i) then Some \<lparr>fs_fault_type = f, fs_intensity = v\<rparr> else None
        | _ \<Rightarrow> None)\<rparr>) [1..<9]"
proof -
  have hosts: "lr_hosts lr = map (\<lambda>i. ''workload-'' @ decimal i) [1..<9]" using assms(1) by (simp add: live_ready_def)
  show ?thesis
    by (rule known_trial_request [OF assms(2)])
      (simp_all add: task_requests_def phase_requests_def task_of_def hosts request_to_def fault_of_def fault_for_host_def
        model_dump_def comp_def if_distrib cong: if_cong)
qed

lemma known_trial_body:
  assumes "known_trial t"
  shows "\<exists>b expected. trial_request t = Some (b, expected) \<and> request_of_body b = Inr (trial_request_of t)
    \<and> sj_phase_count (trial_request_of t) = 1
    \<and> (\<forall>f. sj_fault (trial_request_of t) = Some f \<longrightarrow> fr_target_host f \<in> (\<lambda>i. ''workload-'' @ decimal i) ` {1..<9})
    \<and> (expected = None \<longleftrightarrow> tr_fault_type t = None) \<and> (\<forall>e. expected = Some e \<longrightarrow> e \<in> (\<lambda>i. ''node-'' @ decimal i) ` {1..<9})"
proof (rule known_trial_request [OF assms])
  assume "tr_fault_type t = None" "trial_request_of t = \<lparr>sj_phase_count = 1, sj_sieve_limit = Some (tr_sieve_limit t), sj_fault = None\<rparr>"
    "trial_request t = Some (\<lparr>tb_phase_count = 1, tb_sieve_limit = tr_sieve_limit t, tb_fault = None\<rparr>, None)"
  then show ?thesis by (simp add: request_of_body_def)
next
  fix f i v
  assume "tr_fault_type t = Some f" "i \<in> {1..<9}"
    and "trial_request t = Some (\<lparr>tb_phase_count = 1, tb_sieve_limit = tr_sieve_limit t,
          tb_fault = Some (''workload-'' @ decimal i, 0, f, Some v)\<rparr>, Some (''node-'' @ decimal i))"
    and "trial_request_of t = \<lparr>sj_phase_count = 1, sj_sieve_limit = Some (tr_sieve_limit t),
          sj_fault = Some \<lparr>fr_target_host = ''workload-'' @ decimal i, fr_phase_index = 0, fr_fault_type = f, fr_intensity = v\<rparr>\<rparr>"
  then show ?thesis by (simp add: request_of_body_def)
qed

lemma store_get_job_new:
  "\<forall>r\<in>set js. jr_job_id r \<noteq> jr_job_id row \<Longrightarrow> find (\<lambda>j. jr_job_id j = jr_job_id row) (js @ [row]) = Some row"
  by (induction js) auto

lemma live_task:
  fixes n :: nat
  assumes "live_ready rk lr" and "known_trial t"
  defines "k \<equiv> task_of lr n (trial_request_of t)"
  shows "jt_job_id k = lr_uuid lr n" and "jt_phase_count k = 1" and "length (jt_hosts k) = 8"
    and "\<forall>m. jt_fault k = Some m \<longrightarrow> fm_fault_type m \<noteq> None"
    and "distinct (map (\<lambda>h. rc_node_id (rk_config rk h)) (jt_hosts k))"
    and "set (map (node_of_request rk) (task_requests k)) = (\<lambda>i. ''node-'' @ decimal i) ` {1..<9}"
proof -
  have "sj_phase_count (trial_request_of t) = 1" using known_trial_body [OF assms(2)] by (elim exE conjE)
  then show "jt_job_id k = lr_uuid lr n" "jt_phase_count k = 1" "length (jt_hosts k) = 8"
    "\<forall>m. jt_fault k = Some m \<longrightarrow> fm_fault_type m \<noteq> None"
    using assms(1) by (auto simp: k_def task_of_def live_ready_def model_dump_def)
  show "distinct (map (\<lambda>h. rc_node_id (rk_config rk h)) (jt_hosts k))"
    using live_nodes [OF assms(1)] by (simp add: k_def task_of_def distinct_map inj_on_def)
  show "set (map (node_of_request rk) (task_requests k)) = (\<lambda>i. ''node-'' @ decimal i) ` {1..<9}"
    using live_nodes [OF assms(1)] by (simp add: k_def task_nodes task_of_def)
qed

text \<open>The request is accepted, and the script sees the job completed, with an event per node.\<close>

lemma trial_job:
  assumes "live_ready rk lr" and "known_trial t" and "trial_works rk lr (lv_ids w) t"
    and "unused_id (lr_uuid lr (lv_ids w)) (lv_srv w)" and "lv_tasks w = []" and "0 \<le> lv_now w" and "lv_now w \<le> 2 ^ 50"
    and "request_of_body b = Inr (trial_request_of t)"
  defines "j0 \<equiv> lr_uuid lr (lv_ids w)" and "k \<equiv> task_of lr (lv_ids w) (trial_request_of t)"
  shows "\<exists>w1 w2 row. post_job lr b w = (Inr j0, w1) \<and> wait_for_job (live_service lr) j0 w1 = Some (Inr (Some ''completed''), w2)
     \<and> store_get_job j0 (srv_db (lv_srv w2)) = Some row
     \<and> phase_events (srv_db (lv_srv w2)) = phase_events (srv_db (lv_srv w)) @ map (report_row rk) (task_requests k)
     \<and> lv_sent w2 = lv_sent w @ task_requests k
     \<and> lv_tasks w2 = [] \<and> lv_ids w2 = Suc (lv_ids w) \<and> lv_now w \<le> lv_now w2 \<and> lv_now w2 \<le> lv_now w + 29
     \<and> (\<forall>j. j \<noteq> j0 \<longrightarrow> unused_id j (lv_srv w) \<longrightarrow> unused_id j (lv_srv w2))"
proof -
  note task = live_task [OF assms(1,2), of "lv_ids w", folded k_def j0_def]
  have works: "rack_serves rk (lr_env lr k) k" "of_nat (Suc (lr_polls lr k)) * lr_pause lr \<le> 29"
    using assms(3) by (simp_all add: trial_works_def Let_def k_def)
  have hosts: "lr_hosts lr \<noteq> []" "set (lr_hosts lr) = (\<lambda>i. ''workload-'' @ decimal i) ` {1..<9}"
    using assms(1) by (simp_all add: live_ready_def)
  have q: "sj_phase_count (trial_request_of t) = 1
    \<and> (\<forall>f. sj_fault (trial_request_of t) = Some f \<longrightarrow> fr_target_host f \<in> (\<lambda>i. ''workload-'' @ decimal i) ` {1..<9})"
    using known_trial_body [OF assms(2)] by (elim exE conjE) (rule conjI)
  have accepted: "1 \<le> sj_phase_count (trial_request_of t)" "bindable (sj_phase_count (trial_request_of t))"
    "\<forall>f. sj_fault (trial_request_of t) = Some f \<longrightarrow> fr_target_host f \<in> set (lr_hosts lr)"
    using q unfolding hosts(2) by (linarith, simp, blast)
  obtain s row where post: "post_job lr b w = (Inr j0, w\<lparr>lv_srv := s, lv_ids := Suc (lv_ids w), lv_tasks := [(k, lr_polls lr k)]\<rparr>)"
    and s: "jobs (srv_db s) = jobs (srv_db (lv_srv w)) @ [row]" "phase_events (srv_db s) = phase_events (srv_db (lv_srv w))"
    and row: "jr_job_id row = j0" "jr_status row = ''running''"
    using post_job_accepted [OF assms(8) hosts(1) accepted assms(4), folded j0_def k_def, unfolded assms(5) append.simps]
    by (elim exE conjE) (rule that)
  let ?w1 = "w\<lparr>lv_srv := s, lv_ids := Suc (lv_ids w), lv_tasks := [(k, lr_polls lr k)]\<rparr>"
  have fresh: "\<forall>e\<in>set (phase_events (srv_db s)). er_job_id e \<noteq> j0" using assms(4) s(2) by (simp add: unused_id_def j0_def)
  have found: "store_get_job j0 (srv_db s) = Some row"
    using assms(4) row(1) store_get_job_new [of "jobs (srv_db (lv_srv w))" row] by (simp add: store_get_job_def s(1) unused_id_def j0_def)
  have time: "lv_now w + of_nat (Suc (lr_polls lr k)) * lr_pause lr < rnd (lv_now w + JOB_POLL_TIMEOUT_S)"
    using deadline_late [OF assms(6,7)] works(2) by linarith
  have "\<exists>w'. wait_until (live_service lr) (jt_job_id k) (rnd (lv_now w + JOB_POLL_TIMEOUT_S)) ?w1 = Some (Inr (Some ''completed''), w')
     \<and> lv_tasks w' = [] \<and> lv_ids w' = lv_ids ?w1 \<and> lv_now w' = lv_now ?w1 + of_nat (Suc (lr_polls lr k)) * lr_pause lr
     \<and> jobs (srv_db (lv_srv w')) = jobs (set_job_status (jt_job_id k) ''completed'' (srv_db (lv_srv ?w1)))
     \<and> phase_events (srv_db (lv_srv w')) = phase_events (srv_db (lv_srv ?w1)) @ map (report_row rk) (task_requests k)
     \<and> lv_sent w' = lv_sent ?w1 @ task_requests k"
    by (rule wait_completes [OF _ _ run_task_completes [OF works(1) task(2,4,5)]])
      (use assms(1) found row fresh time task(1) in \<open>simp_all add: live_ready_def\<close>)
  then obtain w2 where wait: "wait_for_job (live_service lr) j0 ?w1 = Some (Inr (Some ''completed''), w2)"
    and w2: "lv_tasks w2 = []" "lv_ids w2 = Suc (lv_ids w)" "lv_now w2 = lv_now w + of_nat (Suc (lr_polls lr k)) * lr_pause lr"
      "jobs (srv_db (lv_srv w2)) = jobs (set_job_status j0 ''completed'' (srv_db s))"
      "phase_events (srv_db (lv_srv w2)) = phase_events (srv_db s) @ map (report_row rk) (task_requests k)"
      "lv_sent w2 = lv_sent w @ task_requests k"
    using task(1) by (auto simp: wait_for_job_def)
  have "store_get_job j0 (srv_db (lv_srv w2)) = Some (row\<lparr>jr_status := ''completed''\<rparr>)"
    using store_get_job_cong [OF w2(4)] found by (simp add: set_job_status_find)
  moreover have "unused_id j (lv_srv w2)" if "j \<noteq> j0" "unused_id j (lv_srv w)" for j
    using that s row(1) task_requests_of [of _ k rk] task(1) by (auto simp: unused_id_def w2(4,5) set_job_status_def of_phase_def)
  moreover have "0 \<le> of_nat (Suc (lr_polls lr k)) * lr_pause lr"
    using assms(1) by (intro mult_nonneg_nonneg) (simp_all add: live_ready_def)
  ultimately show ?thesis using post wait w2(1-3,5,6) s(2) works(2) by (intro exI conjI) (assumption | simp)+
qed

text \<open>The report on that job names the target of the trial and no other node.\<close>

lemma trial_report:
  assumes "live_ready rk lr" and "known_trial t" and "trial_works rk lr n t" and "trial_request t = Some (b, expected)"
    and "phase_events d = es @ map (report_row rk) (task_requests (task_of lr n (trial_request_of t)))"
    and "\<forall>e\<in>set es. er_job_id e \<noteq> lr_uuid lr n" and "store_get_job (lr_uuid lr n) d = Some row"
  shows "\<exists>rep. get_straggler_report (lr_uuid lr n) 0 d = Inr rep \<and> rep_status rep = Ranked
     \<and> (\<forall>rn\<in>set (rep_ranked_nodes rep). rn_flagged rn \<longleftrightarrow> expected = Some (rn_node_id rn))
     \<and> (expected \<noteq> None \<longrightarrow> rep_top_candidate rep = expected)"
proof -
  let ?k = "task_of lr n (trial_request_of t)"
  note task = live_task [OF assms(1,2), of n] and faults = trial_faults [OF assms(1) _ assms(2), of _ n]
  have fault: "pr_fault r \<noteq> None \<longleftrightarrow> expected = Some (node_of_request rk r)" if "r \<in> set (task_requests ?k)" for r
    using faults(2) [OF that] assms(4) by auto
  have ex: "expected = None \<or> expected \<in> Some ` (\<lambda>i. ''node-'' @ decimal i) ` {1..<9}"
    using known_trial_body [OF assms(2)] assms(4) by (elim exE conjE) (cases expected, simp_all)
  have some: "\<exists>r\<in>set (task_requests ?k). node_of_request rk r = e" if "expected = Some e" for e
  proof -
    have "e \<in> set (map (node_of_request rk) (task_requests ?k))" unfolding task(6) using ex that by auto
    then show ?thesis by auto
  qed
  have "\<exists>rep. get_straggler_report (jt_job_id ?k) 0 d = Inr rep \<and> rep_status rep = Ranked
     \<and> (\<forall>rn\<in>set (rep_ranked_nodes rep). rn_flagged rn
          \<longleftrightarrow> (\<exists>r\<in>set (task_requests ?k). pr_fault r \<noteq> None \<and> node_of_request rk r = rn_node_id rn))
     \<and> (\<forall>r\<in>set (task_requests ?k). pr_fault r \<noteq> None \<longrightarrow> rep_top_candidate rep = Some (node_of_request rk r))"
  proof (rule task_report [OF assms(5) _ task(5)])
    show "\<forall>r\<in>set (task_requests ?k). known_fault (pr_fault r)" using faults(1) by blast
    show "fault_shows rk ?k" using assms(3) by (simp add: trial_works_def Let_def)
    show "r = r'" if "r \<in> set (task_requests ?k)" "r' \<in> set (task_requests ?k)" "pr_fault r \<noteq> None" "pr_fault r' \<noteq> None" for r r'
    proof -
      have "node_of_request rk r = node_of_request rk r'" using fault that by auto
      moreover have "distinct (map (node_of_request rk) (task_requests ?k))" unfolding task_nodes by (rule task(5))
      ultimately show ?thesis using that(1,2) by (auto simp: distinct_map dest: inj_onD)
    qed
  qed (use assms(6,7) task(1,3) in simp_all)
  then obtain rep where rep: "get_straggler_report (lr_uuid lr n) 0 d = Inr rep" "rep_status rep = Ranked"
    "\<forall>rn\<in>set (rep_ranked_nodes rep). rn_flagged rn
          \<longleftrightarrow> (\<exists>r\<in>set (task_requests ?k). pr_fault r \<noteq> None \<and> node_of_request rk r = rn_node_id rn)"
    "\<forall>r\<in>set (task_requests ?k). pr_fault r \<noteq> None \<longrightarrow> rep_top_candidate rep = Some (node_of_request rk r)"
    unfolding task(1) by (elim exE conjE) (rule that)
  have "rn_flagged rn \<longleftrightarrow> expected = Some (rn_node_id rn)" if "rn \<in> set (rep_ranked_nodes rep)" for rn
    using bspec [OF rep(3) that] fault some [of "rn_node_id rn"] by metis
  moreover have "rep_top_candidate rep = expected" if "expected \<noteq> None"
    using that some rep(4) fault by (metis option.exhaust)
  ultimately show ?thesis using rep(1,2) by blast
qed

lemma trial_run:
  assumes "live_ready rk lr" and "known_trial t" and "trial_works rk lr (lv_ids w) t"
    and "unused_id (lr_uuid lr (lv_ids w)) (lv_srv w)" and "lv_tasks w = []" and "0 \<le> lv_now w" and "lv_now w \<le> 2 ^ 50"
  shows "\<exists>c w'. run_trial (live_service lr) t w = Some (Inr (Completed c), w')
     \<and> ct_fault_type c = tr_fault_type t \<and> ct_status c = Ranked
     \<and> (if tr_fault_type t = None then \<not> no_fault_false_flag c else detected c \<and> \<not> fault_false_positive c)
     \<and> lv_tasks w' = [] \<and> lv_ids w' = Suc (lv_ids w) \<and> lv_now w \<le> lv_now w' \<and> lv_now w' \<le> lv_now w + 29
     \<and> (\<forall>j. j \<noteq> lr_uuid lr (lv_ids w) \<longrightarrow> unused_id j (lv_srv w) \<longrightarrow> unused_id j (lv_srv w'))
     \<and> lv_sent w' = lv_sent w @ task_requests (task_of lr (lv_ids w) (trial_request_of t))"
proof -
  let ?id = "lr_uuid lr (lv_ids w)"
  obtain b expected where t: "trial_request t = Some (b, expected)" and b: "request_of_body b = Inr (trial_request_of t)"
    and ex: "expected = None \<longleftrightarrow> tr_fault_type t = None"
    using known_trial_body [OF assms(2)] by (elim exE conjE) (rule that)
  obtain w1 w2 row where post: "post_job lr b w = (Inr ?id, w1)"
    and wait: "wait_for_job (live_service lr) ?id w1 = Some (Inr (Some ''completed''), w2)"
    and row: "store_get_job ?id (srv_db (lv_srv w2)) = Some row"
    and events: "phase_events (srv_db (lv_srv w2)) = phase_events (srv_db (lv_srv w))
        @ map (report_row rk) (task_requests (task_of lr (lv_ids w) (trial_request_of t)))"
    and w2: "lv_tasks w2 = []" "lv_ids w2 = Suc (lv_ids w)" "lv_now w \<le> lv_now w2" "lv_now w2 \<le> lv_now w + 29"
      "\<forall>j. j \<noteq> ?id \<longrightarrow> unused_id j (lv_srv w) \<longrightarrow> unused_id j (lv_srv w2)"
      "lv_sent w2 = lv_sent w @ task_requests (task_of lr (lv_ids w) (trial_request_of t))"
    using trial_job [OF assms b] by (elim exE conjE) (rule that)
  have "\<forall>e\<in>set (phase_events (srv_db (lv_srv w))). er_job_id e \<noteq> ?id" using assms(4) by (simp add: unused_id_def)
  from trial_report [OF assms(1-3) t events this row]
  obtain rep where rep: "get_straggler_report ?id 0 (srv_db (lv_srv w2)) = Inr rep" "rep_status rep = Ranked"
    "\<forall>rn\<in>set (rep_ranked_nodes rep). rn_flagged rn \<longleftrightarrow> expected = Some (rn_node_id rn)"
    "expected \<noteq> None \<longrightarrow> rep_top_candidate rep = expected" by blast
  let ?c = "\<lparr>ct_job_id = ?id, ct_fault_type = tr_fault_type t, ct_target_host = tr_target_host t, ct_expected = expected,
      ct_status = rep_status rep, ct_top_candidate = rep_top_candidate rep, ct_naive_candidate = rep_naive_baseline_candidate rep,
      ct_root_cause = rep_root_cause rep, ct_ranked_nodes = rep_ranked_nodes rep\<rparr>"
  have "tr_phase_index t = 0" using assms(2) by (simp add: known_trial_def)
  then have "run_trial (live_service lr) t w = Some (Inr (Completed ?c), w2)"
    using rep(1) wait by (simp add: run_trial_def t post fetch_report_def)
  moreover have "if tr_fault_type t = None then \<not> no_fault_false_flag ?c else detected ?c \<and> \<not> fault_false_positive ?c"
    using rep(2-4) ex by (auto simp: no_fault_false_flag_def detected_def fault_false_positive_def)
  ultimately show ?thesis using rep(2) w2 by (intro exI [of _ ?c] exI [of _ w2]) simp
qed

section \<open>The batch\<close>

text \<open>What a result says about its trial when all goes well.\<close>

definition right_verdict :: "trial \<Rightarrow> trial_outcome \<Rightarrow> bool" where
  "right_verdict t r \<longleftrightarrow> (case r of Aborted _ \<Rightarrow> False
     | Completed c \<Rightarrow> ct_fault_type c = tr_fault_type t \<and> ct_status c = Ranked
         \<and> (if tr_fault_type t = None then \<not> no_fault_false_flag c else detected c \<and> \<not> fault_false_positive c))"

lemma batch_run:
  assumes "live_ready rk lr" and "\<forall>t\<in>set ts. known_trial t" and "distinct (map tr_trial_id ts)"
    and "\<forall>t\<in>set ts. tr_trial_id t \<notin> dom results" and "inj (lr_uuid lr)"
    and "\<forall>n\<in>{lv_ids w..<lv_ids w + length ts}. unused_id (lr_uuid lr n) (lv_srv w) \<and> (\<forall>t\<in>set ts. trial_works rk lr n t)"
    and "lv_tasks w = []" and "0 \<le> lv_now w" and "lv_now w + 29 * of_nat (length ts) \<le> 2 ^ 50"
  shows "\<exists>results' w'. run_missing_trials (live_service lr) ts results w = Some (None, results', w')
     \<and> (\<forall>t\<in>set ts. \<exists>r. results' (tr_trial_id t) = Some r \<and> right_verdict t r)
     \<and> (\<forall>x. x \<notin> tr_trial_id ` set ts \<longrightarrow> results' x = results x)"
  using assms(2-4,6-9)
proof (induction ts arbitrary: results w)
  case (Cons t ts)
  let ?id = "lr_uuid lr (lv_ids w)"
  have first: "lv_ids w \<in> {lv_ids w..<lv_ids w + length (t # ts)}" by simp
  have "lv_now w \<le> 2 ^ 50" using Cons.prems(7) by simp
  then obtain c w1 where run: "run_trial (live_service lr) t w = Some (Inr (Completed c), w1)"
    and c: "right_verdict t (Completed c)"
    and w1: "lv_tasks w1 = []" "lv_ids w1 = Suc (lv_ids w)" "lv_now w \<le> lv_now w1" "lv_now w1 \<le> lv_now w + 29"
      "\<forall>j. j \<noteq> ?id \<longrightarrow> unused_id j (lv_srv w) \<longrightarrow> unused_id j (lv_srv w1)"
    using trial_run [OF assms(1), of t w] bspec [OF Cons.prems(4) first] Cons.prems(1,5,6) by (auto simp: right_verdict_def)
  let ?results1 = "results(tr_trial_id t \<mapsto> Completed c)"
  have ids: "\<forall>n\<in>{lv_ids w1..<lv_ids w1 + length ts}. unused_id (lr_uuid lr n) (lv_srv w1) \<and> (\<forall>t\<in>set ts. trial_works rk lr n t)"
  proof
    fix n
    assume "n \<in> {lv_ids w1..<lv_ids w1 + length ts}"
    then have n: "n \<in> {lv_ids w..<lv_ids w + length (t # ts)}" "n \<noteq> lv_ids w" using w1(2) by auto
    then have "lr_uuid lr n \<noteq> ?id" using assms(5) by (simp add: inj_eq)
    then show "unused_id (lr_uuid lr n) (lv_srv w1) \<and> (\<forall>t\<in>set ts. trial_works rk lr n t)"
      using bspec [OF Cons.prems(4) n(1)] w1(5) by simp
  qed
  have "\<exists>results' w'. run_missing_trials (live_service lr) ts ?results1 w1 = Some (None, results', w')
     \<and> (\<forall>t\<in>set ts. \<exists>r. results' (tr_trial_id t) = Some r \<and> right_verdict t r)
     \<and> (\<forall>x. x \<notin> tr_trial_id ` set ts \<longrightarrow> results' x = ?results1 x)"
  proof (rule Cons.IH [OF _ _ _ ids w1(1)])
    show "\<forall>t\<in>set ts. known_trial t" "distinct (map tr_trial_id ts)" using Cons.prems(1,2) by simp_all
    have "tr_trial_id u \<noteq> tr_trial_id t" if "u \<in> set ts" for u using Cons.prems(2) imageI [OF that, of tr_trial_id] by auto
    then show "\<forall>t\<in>set ts. tr_trial_id t \<notin> dom ?results1" using Cons.prems(3) by simp
    show "0 \<le> lv_now w1" using Cons.prems(6) w1(3) by simp
    show "lv_now w1 + 29 * of_nat (length ts) \<le> 2 ^ 50" using Cons.prems(7) w1(4) by (simp add: algebra_simps)
  qed
  then obtain results' w' where "run_missing_trials (live_service lr) ts ?results1 w1 = Some (None, results', w')"
    "\<forall>t\<in>set ts. \<exists>r. results' (tr_trial_id t) = Some r \<and> right_verdict t r"
    "\<forall>x. x \<notin> tr_trial_id ` set ts \<longrightarrow> results' x = ?results1 x" by blast
  moreover have "tr_trial_id t \<notin> dom results" "tr_trial_id t \<notin> tr_trial_id ` set ts" using Cons.prems(2,3) by auto
  ultimately show ?case using run c by (auto intro!: exI [of _ results'] exI [of _ w'])
qed simp

text \<open>The trials that have a result may as well not be there.\<close>

lemma run_missing_filter:
  assumes "distinct (map tr_trial_id ts)"
  shows "run_missing_trials sv ts results w = run_missing_trials sv (filter (\<lambda>t. tr_trial_id t \<notin> dom results) ts) results w"
  using assms
proof (induction ts arbitrary: results w)
  case (Cons t ts)
  show ?case
  proof (cases "tr_trial_id t \<in> dom results")
    case False
    have "run_missing_trials sv ts (results(tr_trial_id t \<mapsto> r)) w'
        = run_missing_trials sv (filter (\<lambda>t. tr_trial_id t \<notin> dom results) ts) (results(tr_trial_id t \<mapsto> r)) w'" for r w'
    proof -
      have "tr_trial_id u \<noteq> tr_trial_id t" if "u \<in> set ts" for u using Cons.prems imageI [OF that, of tr_trial_id] by auto
      then have "filter (\<lambda>u. tr_trial_id u \<notin> dom (results(tr_trial_id t \<mapsto> r))) ts = filter (\<lambda>u. tr_trial_id u \<notin> dom results) ts"
        by (intro filter_cong) auto
      then show ?thesis using Cons.IH [of "results(tr_trial_id t \<mapsto> r)" w'] Cons.prems by (simp only: distinct.simps list.map)
    qed
    then show ?thesis using False by (simp only: filter.simps if_True run_missing_trials.simps not_False_eq_True if_False cong: option.case_cong)
  qed (use Cons in simp)
qed simp

lemma frozen_trials_distinct: "distinct (map tr_trial_id (all_trials frozen_manifest))"
  using fault_trials_ids [of "''cpu_contention''" CPU_CONTENTION_INTENSITY 10000] fault_trials_ids [of "''io_stall''" IO_STALL_INTENSITY 20000]
  by (auto simp: all_trials_def frozen_manifest_def fault_trials_def no_fault_trials_def comp_def distinct_map inj_on_def)

lemma frozen_trials_known: "\<forall>t\<in>set (all_trials frozen_manifest). known_trial t"
proof -
  have "j mod NODE_COUNT + 1 \<in> {1..<9}" for j by (simp add: NODE_COUNT_def Suc_le_eq)
  then show ?thesis
    by (auto simp: all_trials_def frozen_manifest_def fault_trials_def no_fault_trials_def known_trial_def)
qed

lemma length_load_results:
  "\<forall>t\<in>set ts. \<exists>c. results (tr_trial_id t) = Some (Completed c) \<Longrightarrow> length (load_results results (map tr_trial_id ts)) = length ts"
  by (induction ts) (auto simp: load_results_def List.map_filter_simps)

lemma summarize_outcomes:
  assumes "summarize mf results = Inr s"
  shows "sm_fault_outcomes s = (let n = int (length (completed_trials results (mf_fault_trials mf)));
            k = int (length (load_results results (map tr_trial_id (mf_fault_trials mf)))) in (n, k - n, int (length (mf_fault_trials mf)) - k))"
    and "sm_no_fault_outcomes s = (let n = int (length (completed_trials results (mf_no_fault_trials mf)));
            k = int (length (load_results results (map tr_trial_id (mf_no_fault_trials mf)))) in (n, k - n, int (length (mf_no_fault_trials mf)) - k))"
  using assms unfolding summarize_def Let_def completed_trials_def [symmetric] and_then_Inr by auto

lemma right_completed:
  assumes "\<forall>t\<in>set ts. \<exists>r. results (tr_trial_id t) = Some r \<and> right_verdict t r"
  shows "\<forall>t\<in>set ts. \<exists>c. results (tr_trial_id t) = Some (Completed c)"
    and "length (completed_trials results ts) = length ts"
    and "\<forall>t\<in>set ts. tr_fault_type t \<noteq> None \<Longrightarrow>
      \<forall>c\<in>set (completed_trials results ts). detected c \<and> \<not> fault_false_positive c"
proof -
  show all: "\<forall>t\<in>set ts. \<exists>c. results (tr_trial_id t) = Some (Completed c)"
    using assms by (fastforce simp: right_verdict_def split: trial_outcome.splits)
  then show "length (completed_trials results ts) = length ts"
    using length_completed_trials [of results ts] all_completed_iff [of ts results] by simp
  show "\<forall>c\<in>set (completed_trials results ts). detected c \<and> \<not> fault_false_positive c"
    if "\<forall>t\<in>set ts. tr_fault_type t \<noteq> None"
    using assms that by (fastforce simp: set_completed_trials right_verdict_def split: if_splits)
qed

lemma right_summary:
  assumes "\<forall>t\<in>set (all_trials frozen_manifest). \<exists>r. results (tr_trial_id t) = Some r \<and> right_verdict t r"
  shows "\<exists>s. summarize frozen_manifest results = Inr s \<and> sm_primary_claim_supported s
     \<and> sm_fault_outcomes s = (80, 0, 0) \<and> sm_no_fault_outcomes s = (16, 0, 0)"
proof -
  let ?fs = "mf_fault_trials frozen_manifest" and ?ns = "mf_no_fault_trials frozen_manifest"
  let ?cs = "completed_trials results ?fs"
  have len: "length ?fs = 80" "length ?ns = 16"
    by (simp_all add: frozen_manifest_def fault_trials_def no_fault_trials_def FAULT_TRIALS_PER_TYPE_def NO_FAULT_TRIALS_def)
  have right: "\<forall>t\<in>set ?fs. \<exists>r. results (tr_trial_id t) = Some r \<and> right_verdict t r"
    "\<forall>t\<in>set ?ns. \<exists>r. results (tr_trial_id t) = Some r \<and> right_verdict t r"
    using assms by (simp_all add: all_trials_def)
  have "\<forall>t\<in>set ?fs. tr_fault_type t \<noteq> None" by (auto simp: frozen_manifest_def fault_trials_def)
  from right_completed(3) [OF right(1) this] have good: "\<forall>c\<in>set ?cs. detected c \<and> \<not> fault_false_positive c" .
  then have counts: "count_if detected ?cs = 80" "count_if fault_false_positive ?cs = 0" "filter detected ?cs = ?cs"
    using right_completed(2) [OF right(1)] len(1) by (simp_all add: count_if_def filter_True filter_empty_conv)
  have "summarize frozen_manifest results \<noteq> Inl e" for e
    using len right_completed(2) [OF right(1)] unfolding summarize_Inl counts(3) by auto
  then obtain s where s: "summarize frozen_manifest results = Inr s" by (cases "summarize frozen_manifest results") auto
  have "sm_primary_claim_supported s"
    unfolding summarize_decisions(1) [OF s] counts(1,2) right_completed(2) [OF right(1)] len(1) using sure_bounds_met by simp
  moreover have "sm_fault_outcomes s = (80, 0, 0)" "sm_no_fault_outcomes s = (16, 0, 0)"
    using right_completed(2) [OF right(1)] right_completed(2) [OF right(2)] len
      length_load_results [OF right_completed(1) [OF right(1)]] length_load_results [OF right_completed(1) [OF right(2)]]
    by (simp_all add: summarize_outcomes [OF s] Let_def)
  ultimately show ?thesis using s by blast
qed

section \<open>A concrete rack\<close>

text \<open>
  Every phase takes 10 ms, and 900 ms under a fault; the message is the bytes of its node and its
  job after a byte for the fault and one for the length of the node.
\<close>

definition char_bytes :: "string \<Rightarrow> bytes" where
  "char_bytes s = map (\<lambda>c. word_of_nat (of_char c)) s"

definition bytes_chars :: "bytes \<Rightarrow> string" where
  "bytes_chars bs = map (\<lambda>b. char_of (unat b)) bs"

definition live_parse :: event_parser where
  "live_parse pl = (case pl of
     f # l # rest \<Rightarrow> (let d = (if f = 1 then 900000000 else 10000000) in
       Some \<lparr>pm_job_id = bytes_chars (drop (unat l) rest), pm_node_id = bytes_chars (take (unat l) rest), pm_phase_index = 0,
         pm_start_ts_ns = 0, pm_start_mono_ns = 0, pm_end_ts_ns = d, pm_end_mono_ns = d, pm_status = ''ok''\<rparr>)
   | _ \<Rightarrow> None)"

definition live_bytes :: "phase_event_msg \<Rightarrow> bytes" where
  "live_bytes m = (if pm_end_ts_ns m = 900000000 then 1 else 0) # word_of_nat (length (pm_node_id m))
     # char_bytes (pm_node_id m) @ char_bytes (pm_job_id m)"

definition live_serialize :: "phase_event_msg \<Rightarrow> bytes option" where
  "live_serialize m = (if live_parse (live_bytes m) = Some m then Some (live_bytes m) else None)"

definition live_world :: "phase_request \<Rightarrow> phase_world" where
  "live_world r = (let d = (if pr_fault r = None then 10000000 else 900000000) in
     \<lparr>w_start_ts = 0, w_start_mono = 0, w_end_ts = d, w_end_mono = d, w_serialize = live_serialize,
      w_connects = True, w_root = float_sqrt, w_hangs = (\<lambda>_. False)\<rparr>)"

definition live_config :: "string \<Rightarrow> runner_config" where
  "live_config host = \<lparr>rc_node_id = ''node-'' @ drop 9 host, rc_default_sieve_limit = 500000\<rparr>"

definition demo_live_rack :: rack where
  "demo_live_rack = \<lparr>rk_pb = demo_pb, rk_pe = live_parse, rk_clock = demo_clock, rk_peer = (\<lambda>h. h),
     rk_split = map (\<lambda>b. [b]), rk_config = live_config, rk_world = live_world\<rparr>"

definition demo_live :: live_rack where
  "demo_live = \<lparr>lr_hosts = map (\<lambda>i. ''workload-'' @ decimal i) [1..<9], lr_clock = demo_clock, lr_uuid = decimal,
     lr_env = (\<lambda>t. \<lparr>ev_mono = of_nat,
       ev_other = rack_phase demo_live_rack (jt_fault t) (jt_job_id t) (jt_sieve_limit t) (jt_hosts t),
       ev_post = (\<lambda>_. PostOk), ev_finish = (\<lambda>rs. rs)\<rparr>),
     lr_polls = (\<lambda>_. 2), lr_pause = 3/10, lr_others = (\<lambda>s. s)\<rparr>"

definition demo_live_start :: live where
  "demo_live_start = \<lparr>lv_srv = demo_server, lv_tasks = [], lv_sent = [], lv_ids = 0, lv_now = 1000\<rparr>"

lemma bytes_chars_inverse [simp]: "bytes_chars (char_bytes s) = s"
proof -
  have "unat (word_of_nat (of_char c) :: byte) = of_char c" for c :: char
    using of_char_mod_256 [of c] by (simp add: unat_of_nat)
  then show ?thesis by (simp add: bytes_chars_def char_bytes_def comp_def)
qed

lemma length_char_bytes [simp]: "length (char_bytes s) = length s"
  by (simp add: char_bytes_def)

lemma live_serializes:
  assumes "pm_phase_index m = 0" "pm_start_ts_ns m = 0" "pm_start_mono_ns m = 0" "pm_end_ts_ns m = pm_end_mono_ns m"
    "pm_end_mono_ns m \<in> {10000000, 900000000}" "pm_status m = ''ok''" "length (pm_node_id m) < 256"
  shows "live_serialize m = Some (live_bytes m)"
proof -
  have "unat (word_of_nat (length (pm_node_id m)) :: byte) = length (pm_node_id m)" using assms(7) by (simp add: unat_of_nat)
  then have "live_parse (live_bytes m) = Some m"
    using assms(1-6) by (cases m) (auto simp: live_parse_def live_bytes_def bytes_chars_inverse)
  then show ?thesis by (simp add: live_serialize_def)
qed

lemma live_request_works:
  assumes "pr_phase_index r = 0" and "known_fault (pr_fault r)" and "sieve_limit_of (live_config (pr_host r)) r < 2 ^ 53"
    and "length (pr_host r) < 200" and "length (pr_job_id r) < 1000000"
  shows "request_works demo_live_rack r"
proof -
  let ?cfg = "live_config (pr_host r)" and ?w = "live_world r"
  let ?m = "phase_msg ?cfg ?w r (phase_status r)"
  obtain res bs ws where run: "start_phase ?cfg ?w r [] = (res, bs, ws)" by (metis prod_cases3)
  have root: "faithful_root (w_root ?w)" using libm.faithful_root_axioms by (simp add: live_world_def Let_def)
  have node: "length (pm_node_id ?m) < 256" using assms(4) by (simp add: phase_msg_def live_config_def)
  have ser: "live_serialize ?m = Some (live_bytes ?m)"
    by (rule live_serializes) (use assms(1,2) node in \<open>simp_all add: phase_msg_def live_world_def Let_def phase_status_def\<close>)
  have "length (live_bytes ?m) < 256 ^ 4"
    using node assms(5) by (simp add: live_bytes_def phase_msg_def)
  then have "encode_frame 2 (live_bytes ?m) = Some (2 # be_bytes 4 (length (live_bytes ?m)) @ live_bytes ?m)"
    by (simp add: encode_frame_Some)
  then have "\<exists>fr. report_phase_event (w_serialize ?w) (w_connects ?w) ?m = Inr fr"
    using ser by (simp add: report_phase_event_def live_world_def Let_def)
  with start_phase_sends [OF root assms(3) run] have ok: "\<exists>resp. res = Inr resp" by (auto split: sum.splits)
  have inverse: "\<forall>m pl. live_serialize m = Some pl \<longrightarrow> live_parse pl = Some m" by (simp add: live_serialize_def split: if_splits)
  have split: "concat (map (\<lambda>b. [b]) bs) = bs" for bs :: bytes by (induction bs) simp_all
  have fields: "rk_config demo_live_rack = live_config" "rk_world demo_live_rack = live_world" "rk_pe demo_live_rack = live_parse"
    "rk_split demo_live_rack = map (\<lambda>b. [b])" "w_serialize ?w = live_serialize"
    by (simp_all add: demo_live_rack_def live_world_def Let_def)
  show ?thesis unfolding request_works_def fields using run ok root assms(3) inverse split by auto
qed

lemma demo_live_ready: "live_ready demo_live_rack demo_live"
proof -
  have "drop 9 (''workload-'' @ decimal i) = decimal i" for i by simp
  then show ?thesis unfolding live_ready_def
    by (simp add: demo_live_def demo_live_rack_def live_config_def del: append_Cons append.simps)
qed

lemma decimal_short: "length (decimal n) \<le> Suc n"
proof (induction n rule: decimal.induct)
  case (1 n)
  show ?case
  proof (cases "n < 10")
    case False
    then have "length (decimal (n div 10)) \<le> Suc (n div 10)" using 1 by blast
    moreover have "n div 10 < n" using False by simp
    ultimately show ?thesis using False by (subst decimal.simps) simp
  qed (simp add: decimal.simps [of n])
qed

lemma demo_live_works:
  assumes "known_trial t" and "n < 1000" and "tr_sieve_limit t < 2 ^ 53"
  shows "trial_works demo_live_rack demo_live n t"
proof -
  let ?k = "task_of demo_live n (trial_request_of t)"
  have req: "request_works demo_live_rack r \<and> work_time demo_live_rack r = (if pr_fault r = None then 10000000 else 900000000)"
    if r: "r \<in> set (task_requests ?k)" for r
  proof -
    obtain i where i: "i \<in> {1..<9}" and ri: "r = request_to (map_option model_dump (sj_fault (trial_request_of t)))
       (lr_uuid demo_live n) (sj_sieve_limit (trial_request_of t)) 0 (''workload-'' @ decimal i)"
      using r unfolding live_task_requests [OF demo_live_ready] by blast
    have "sj_sieve_limit (trial_request_of t) = Some (tr_sieve_limit t)"
      by (rule known_trial_request [OF assms(1)]) simp_all
    then have limit: "sieve_limit_of (live_config (pr_host r)) r < 2 ^ 53"
      using assms(3) by (simp add: sieve_limit_of_def ri request_to_def live_config_def)
    have "length (pr_host r) < 200" "length (pr_job_id r) < 1000000" "pr_phase_index r = 0"
      using i decimal_short [of i] decimal_short [of n] assms(2) by (simp_all add: ri request_to_def demo_live_def)
    with limit trial_faults(1) [OF demo_live_ready r assms(1)] have "request_works demo_live_rack r"
      by (intro live_request_works)
    then show ?thesis by (simp add: work_time_def demo_live_rack_def live_world_def Let_def)
  qed
  have "rack_serves demo_live_rack (lr_env demo_live ?k) ?k"
    using req by (simp add: rack_serves_def) (simp add: demo_live_def)
  moreover have "fault_shows demo_live_rack ?k" unfolding fault_shows_def
    by (rule exI [of _ 10000000], rule exI [of _ 10000000]) (use req in simp)
  moreover have "of_nat (Suc (lr_polls demo_live ?k)) * lr_pause demo_live \<le> 29" by (simp add: demo_live_def)
  ultimately show ?thesis by (simp add: trial_works_def Let_def)
qed

section \<open>Properties\<close>

text \<open>
  C1. The whole batch, end to end and however often it was interrupted, on condition that the fault
  shows in every trial (\<open>fault_shows\<close>, in \<open>trial_works\<close>): the other nodes need the same time up to a
  millisecond, and the target of a fault at least 5.19 ms more than the slowest of them. On a rack
  that meets this in all 96 trials and serves every trial within the poll timeout, the script that
  runs the frozen manifest, from any results that earlier runs left and that are right, ends with
  exit code 0, all 96 trials completed, every fault trial a detection of its target with no other
  node flagged, no node flagged without a fault, the earlier results as they were, and a summary that
  supports the primary claim. The condition decides the claim: the recorded batch
  (\<open>eval/results/summary.json\<close>, discussed in \<open>docs/METHODOLOGY.md\<close>) had no aborted trial and
  detected 27 of the 80 faults, so its rack did not meet it.
\<close>

theorem batch_supports_claim:
  assumes "live_ready rk lr" and "inj (lr_uuid lr)" and "lv_tasks w = []" and "0 \<le> lv_now w" and "lv_now w \<le> 2 ^ 49"
    and "\<forall>n\<in>{lv_ids w..<lv_ids w + 96}. unused_id (lr_uuid lr n) (lv_srv w)
           \<and> (\<forall>t\<in>set (all_trials frozen_manifest). trial_works rk lr n t)"
    and "\<forall>t\<in>set (all_trials frozen_manifest). \<forall>r. results (tr_trial_id t) = Some r \<longrightarrow> right_verdict t r"
  shows "\<exists>results' s w'. run_script healthz (live_service lr) False frozen_manifest results old w = Some (Inr 0, results', Some s, w')
     \<and> (\<forall>t\<in>set (all_trials frozen_manifest). \<exists>r. results' (tr_trial_id t) = Some r \<and> right_verdict t r)
     \<and> (\<forall>x\<in>dom results. results' x = results x)
     \<and> sm_primary_claim_supported s \<and> sm_fault_outcomes s = (80, 0, 0) \<and> sm_no_fault_outcomes s = (16, 0, 0)"
proof -
  define ts where "ts = filter (\<lambda>t. tr_trial_id t \<notin> dom results) (all_trials frozen_manifest)"
  have "length (all_trials frozen_manifest) = 96"
    by (simp add: all_trials_def frozen_manifest_def fault_trials_def no_fault_trials_def FAULT_TRIALS_PER_TYPE_def NO_FAULT_TRIALS_def)
  then have len: "length ts \<le> 96" using length_filter_le [of _ "all_trials frozen_manifest"] by (simp add: ts_def)
  have sub: "set ts \<subseteq> set (all_trials frozen_manifest)" by (auto simp: ts_def)
  have "\<forall>n\<in>{lv_ids w..<lv_ids w + length ts}. unused_id (lr_uuid lr n) (lv_srv w) \<and> (\<forall>t\<in>set ts. trial_works rk lr n t)"
  proof
    fix n
    assume "n \<in> {lv_ids w..<lv_ids w + length ts}"
    then have "n \<in> {lv_ids w..<lv_ids w + 96}" using len by simp
    then show "unused_id (lr_uuid lr n) (lv_srv w) \<and> (\<forall>t\<in>set ts. trial_works rk lr n t)" using assms(6) sub by blast
  qed
  moreover have "lv_now w + 29 * of_nat (length ts) \<le> 2 ^ 50"
  proof -
    have "(of_nat (length ts) :: rat) \<le> of_nat 96" using len by (simp only: of_nat_le_iff)
    then show ?thesis using assms(5) by simp
  qed
  moreover have "\<forall>t\<in>set ts. tr_trial_id t \<notin> dom results" by (simp add: ts_def)
  moreover have "\<forall>t\<in>set ts. known_trial t" using frozen_trials_known sub by blast
  moreover have "distinct (map tr_trial_id ts)" unfolding ts_def using frozen_trials_distinct by (rule distinct_map_filter)
  ultimately obtain results' w' where run: "run_missing_trials (live_service lr) ts results w = Some (None, results', w')"
    and right: "\<forall>t\<in>set ts. \<exists>r. results' (tr_trial_id t) = Some r \<and> right_verdict t r"
    and rest: "\<forall>x. x \<notin> tr_trial_id ` set ts \<longrightarrow> results' x = results x"
    using batch_run [OF assms(1) _ _ _ assms(2) _ assms(3,4), of ts results] by blast
  have "x \<notin> tr_trial_id ` set ts" if "x \<in> dom results" for x using that by (auto simp: ts_def)
  then have kept: "\<forall>x\<in>dom results. results' x = results x" using rest by blast
  have all: "\<forall>t\<in>set (all_trials frozen_manifest). \<exists>r. results' (tr_trial_id t) = Some r \<and> right_verdict t r"
    using right kept assms(7) by (fastforce simp: ts_def)
  from right_summary [OF all] obtain s where s: "summarize frozen_manifest results' = Inr s"
    "sm_primary_claim_supported s" "sm_fault_outcomes s = (80, 0, 0)" "sm_no_fault_outcomes s = (16, 0, 0)" by blast
  have "run_missing_trials (live_service lr) (all_trials frozen_manifest) results w = Some (None, results', w')"
    using run unfolding ts_def run_missing_filter [OF frozen_trials_distinct, symmetric] .
  then have "run_script healthz (live_service lr) False frozen_manifest results old w = Some (Inr 0, results', Some s, w')"
    using s(1) by (simp add: run_script_def check_rack_reachable_def healthz_def write_summary_def)
  then show ?thesis using all kept s by blast
qed

theorem batch_supports_claim_witness:
  "\<exists>results s w'. run_script healthz (live_service demo_live) False frozen_manifest Map.empty None demo_live_start
       = Some (Inr 0, results, Some s, w') \<and> sm_primary_claim_supported s"
proof -
  have "inj (lr_uuid demo_live)" by (simp add: demo_live_def inj_def)
  moreover have "trial_works demo_live_rack demo_live n t" if "t \<in> set (all_trials frozen_manifest)" "n < 1000" for n t
  proof (rule demo_live_works)
    show "known_trial t" using frozen_trials_known that(1) by blast
    show "tr_sieve_limit t < 2 ^ 53" using that(1)
      by (auto simp: all_trials_def frozen_manifest_def fault_trials_def no_fault_trials_def SIEVE_LIMIT_def)
  qed (rule that(2))
  moreover have "unused_id j demo_server" for j by (simp add: unused_id_def demo_server_def empty_db_def)
  ultimately show ?thesis
    using batch_supports_claim [OF demo_live_ready, of demo_live_start Map.empty None] by (fastforce simp: demo_live_start_def)
qed

text \<open>
  C5. One trial, end to end, on a rack whose nodes need the same time up to a millisecond and whose
  target needs at least 5.19 ms more under the fault (\<open>fault_shows\<close>, in \<open>trial_works\<close>): the POST starts a
  job, whose task runs while the script polls and dispatches exactly one request to each of the
  eight hosts, with the fault, of the type and the intensity of the trial, in the request to the
  target and in no other; the runners do the work and report over their connections; the report on
  the stored events names the target of the fault and flags no other node, or flags no node when
  there is no fault. The script returns this as a completed trial within 29 seconds, and leaves every
  other job id as unused as it was.
\<close>

theorem trial_finds_fault:
  assumes "live_ready rk lr" and "known_trial t" and "trial_works rk lr (lv_ids w) t"
    and "unused_id (lr_uuid lr (lv_ids w)) (lv_srv w)" and "lv_tasks w = []" and "0 \<le> lv_now w" and "lv_now w \<le> 2 ^ 50"
  shows "\<exists>c w'. run_trial (live_service lr) t w = Some (Inr (Completed c), w')
     \<and> lv_sent w' = lv_sent w @ map (\<lambda>i. \<lparr>pr_host = ''workload-'' @ decimal i, pr_job_id = lr_uuid lr (lv_ids w),
         pr_phase_index = 0, pr_sieve_limit = Some (tr_sieve_limit t),
         pr_fault = (case (tr_fault_type t, tr_intensity t) of
             (Some f, Some v) \<Rightarrow> if tr_target_host t = Some (''workload-'' @ decimal i) then Some \<lparr>fs_fault_type = f, fs_intensity = v\<rparr> else None
           | _ \<Rightarrow> None)\<rparr>) [1..<9]
     \<and> ct_fault_type c = tr_fault_type t \<and> ct_status c = Ranked
     \<and> (if tr_fault_type t = None then \<not> no_fault_false_flag c else detected c \<and> \<not> fault_false_positive c)
     \<and> lv_tasks w' = [] \<and> lv_ids w' = Suc (lv_ids w) \<and> lv_now w \<le> lv_now w' \<and> lv_now w' \<le> lv_now w + 29
     \<and> (\<forall>j. j \<noteq> lr_uuid lr (lv_ids w) \<longrightarrow> unused_id j (lv_srv w) \<longrightarrow> unused_id j (lv_srv w'))"
  using trial_run [OF assms] unfolding known_trial_dispatch [OF assms(1,2)] by (elim exE conjE, intro exI conjI)

definition demo_trial :: trial where
  "demo_trial = \<lparr>tr_trial_id = ''t'', tr_fault_type = Some ''io_stall'', tr_target_host = Some (''workload-'' @ decimal 3),
     tr_intensity = Some 4, tr_phase_index = 0, tr_sieve_limit = 2000000, tr_seed = 7\<rparr>"

theorem trial_finds_fault_witness:
  "\<exists>c w'. run_trial (live_service demo_live) demo_trial demo_live_start = Some (Inr (Completed c), w') \<and> detected c
     \<and> length (lv_sent w') = 8"
proof -
  have "known_trial demo_trial" by (simp add: known_trial_def demo_trial_def)
  moreover from this have "trial_works demo_live_rack demo_live 0 demo_trial"
    by (rule demo_live_works) (simp_all add: demo_trial_def)
  moreover have "unused_id j demo_server" for j by (simp add: unused_id_def demo_server_def empty_db_def)
  ultimately obtain c w' where "run_trial (live_service demo_live) demo_trial demo_live_start = Some (Inr (Completed c), w')"
    and "detected c" and "length (lv_sent w') = 8"
    using trial_finds_fault [OF demo_live_ready, of demo_trial demo_live_start] by (fastforce simp: demo_live_start_def demo_trial_def)
  then show ?thesis by blast
qed

end
