(* ===== verification/Process.thy ===== *)
theory Process
  imports Api
begin

text \<open>
  The process of \<open>api.py\<close> with everything that runs on its event loop: the connections of the
  agents, the rollup refresh, the requests, and any number of jobs at once. A job is a coroutine that
  runs from one \<open>await\<close> of \<open>jobs.py\<close> to the next; between two of its steps any other task may
  run. The first part shows that the coroutine computes what \<open>execute_job\<close> does, the second
  that each job of the process behaves as \<open>execute_job\<close> alone in some environment, so that what
  \<open>Jobs\<close> proves of one job holds of every job, whatever the others do.
\<close>

section \<open>The coroutine of a job\<close>

text \<open>Where the coroutine is suspended: not started, in \<open>gather\<close>, in the sleep of a poll; or its result.\<close>

datatype job_pc = Created | Gathering int "int list" "phase_request list" | Polling int "int list" rat
  | Ended "job_error + unit"

text \<open>The head of the loop over the phases that are left, up to the \<open>await\<close> of the next phase.\<close>

definition enter_phases :: "job_task \<Rightarrow> int list \<Rightarrow> orchestrator \<Rightarrow> job_pc \<times> orchestrator" where
  "enter_phases t ks st = (case ks of
     [] \<Rightarrow> (Ended (Inr ()), on_srv (finish_job (jt_job_id t) ''completed'') st)
   | k # ks' \<Rightarrow> (case build_dispatches (jt_fault t) (jt_job_id t) (jt_sieve_limit t) k (jt_hosts t) of
       Inl e \<Rightarrow> (Ended (Inl e), st)
     | Inr rs \<Rightarrow> (Gathering k ks' rs, st\<lparr>o_sent := o_sent st @ rs\<rparr>)))"

text \<open>One round of the wait for the reports, up to its sleep or to the end of the wait.\<close>

definition poll_reports :: "environment \<Rightarrow> job_task \<Rightarrow> int \<Rightarrow> int list \<Rightarrow> rat \<Rightarrow> orchestrator \<Rightarrow> job_pc \<times> orchestrator" where
  "poll_reports env t k ks deadline st =
     (let all_reported = length (jt_hosts t) \<le> reports (jt_job_id t) k st; st' = tick st in
      if ev_mono env (o_mono st) < deadline
      then if all_reported then enter_phases t ks st' else (Polling k ks deadline, st')
      else if all_reported then enter_phases t ks st'
      else (Ended (Inr ()), on_srv (emit (timed_out_log (jt_job_id t)) \<circ> finish_job (jt_job_id t) ''timed_out'') st'))"

fun resume :: "environment \<Rightarrow> job_task \<Rightarrow> job_pc \<Rightarrow> orchestrator \<Rightarrow> job_pc \<times> orchestrator" where
  "resume env t Created st = enter_phases t [0..jt_phase_count t - 1] st"
| "resume env t (Gathering k ks rs) st = (let st' = on_srv (fold (dispatch_phase env) (ev_finish env rs)) st in
     if \<exists>r\<in>set rs. ev_post env r = OtherError then (Ended (Inl DispatchError), st')
     else poll_reports env t k ks (rnd (ev_mono env (o_mono st') + PHASE_REPORT_TIMEOUT_S)) (tick st'))"
| "resume env t (Polling k ks deadline) st = poll_reports env t k ks deadline st"
| "resume env t (Ended r) st = (Ended r, st)"

declare resume.simps [simp del]

text \<open>The coroutine alone: it is resumed when its environment has done what it does during the await.\<close>

inductive coroutine_ends :: "environment \<Rightarrow> job_task \<Rightarrow> job_pc \<Rightarrow> orchestrator \<Rightarrow> job_error + unit \<Rightarrow> orchestrator \<Rightarrow> bool"
  for env :: environment and t :: job_task where
  ends_now: "coroutine_ends env t (Ended r) st r st"
| ends_created: "resume env t Created st = (pc', st') \<Longrightarrow> coroutine_ends env t pc' st' r st'' \<Longrightarrow>
    coroutine_ends env t Created st r st''"
| ends_gather: "resume env t (Gathering k ks rs) (await env st) = (pc', st') \<Longrightarrow> coroutine_ends env t pc' st' r st'' \<Longrightarrow>
    coroutine_ends env t (Gathering k ks rs) st r st''"
| ends_poll: "resume env t (Polling k ks deadline) (await env st) = (pc', st') \<Longrightarrow> coroutine_ends env t pc' st' r st'' \<Longrightarrow>
    coroutine_ends env t (Polling k ks deadline) st r st''"

inductive_cases ends_createdE: "coroutine_ends env t Created st r st'"
inductive_cases ends_gatherE: "coroutine_ends env t (Gathering k ks rs) st r st'"
inductive_cases ends_pollE: "coroutine_ends env t (Polling k ks deadline) st r st'"
inductive_simps ends_now_iff [simp]: "coroutine_ends env t (Ended r) st r' st'"

section \<open>The coroutine is \<open>execute_job\<close>\<close>

abbreviation phases_of :: "environment \<Rightarrow> job_task \<Rightarrow> int list \<Rightarrow> orchestrator \<Rightarrow> ((job_error + unit) \<times> orchestrator) option" where
  "phases_of env t \<equiv> run_phases env (jt_job_id t) (jt_hosts t) (jt_sieve_limit t) (jt_fault t)"

definition task_result :: "environment \<Rightarrow> job_task \<Rightarrow> orchestrator \<Rightarrow> ((job_error + unit) \<times> orchestrator) option" where
  "task_result env t = execute_job env (jt_job_id t) (jt_hosts t) (jt_phase_count t) (jt_sieve_limit t) (jt_fault t)"

text \<open>What is left to do at a suspension point, in terms of the functions of \<open>Jobs\<close>.\<close>

definition after_wait :: "environment \<Rightarrow> job_task \<Rightarrow> int list \<Rightarrow> bool \<times> orchestrator \<Rightarrow> ((job_error + unit) \<times> orchestrator) option" where
  "after_wait env t ks r = (if fst r then phases_of env t ks (snd r)
     else Some (Inr (), on_srv (emit (timed_out_log (jt_job_id t)) \<circ> finish_job (jt_job_id t) ''timed_out'') (snd r)))"

fun rest_of :: "environment \<Rightarrow> job_task \<Rightarrow> job_pc \<Rightarrow> orchestrator \<Rightarrow> ((job_error + unit) \<times> orchestrator) option" where
  "rest_of env t Created st = task_result env t st"
| "rest_of env t (Gathering k ks rs) st = (let st' = on_srv (fold (dispatch_phase env) (ev_finish env rs)) (await env st) in
     if \<exists>r\<in>set rs. ev_post env r = OtherError then Some (Inl DispatchError, st')
     else Option.bind (wait_for_phase_reports env (jt_job_id t) k (length (jt_hosts t)) st') (after_wait env t ks))"
| "rest_of env t (Polling k ks deadline) st =
     Option.bind (wait_loop env (jt_job_id t) k (length (jt_hosts t)) deadline (await env st)) (after_wait env t ks)"
| "rest_of env t (Ended r) st = Some (r, st)"

lemma rest_of_enter: "case enter_phases t ks st of (pc, st') \<Rightarrow> rest_of env t pc st' = phases_of env t ks st"
  by (auto simp: enter_phases_def after_wait_def gather_dispatches_def Let_def case_prod_beta
      split: list.split sum.split intro!: arg_cong2 [where f = Option.bind])

lemma rest_of_poll:
  "case poll_reports env t k ks deadline st of (pc, st') \<Rightarrow>
     rest_of env t pc st' = Option.bind (wait_loop env (jt_job_id t) k (length (jt_hosts t)) deadline st) (after_wait env t ks)"
  using rest_of_enter [of env t ks "tick st"]
  by (auto simp: poll_reports_def Let_def after_wait_def wait_loop.simps [of env "jt_job_id t" k "length (jt_hosts t)" deadline st]
      split: prod.splits)

lemma rest_of_resume:
  "case resume env t Created st of (pc, st') \<Rightarrow> rest_of env t pc st' = rest_of env t Created st"
  "case resume env t (Gathering k ks rs) (await env st) of (pc, st') \<Rightarrow> rest_of env t pc st' = rest_of env t (Gathering k ks rs) st"
  "case resume env t (Polling k ks deadline) (await env st) of (pc, st') \<Rightarrow> rest_of env t pc st' = rest_of env t (Polling k ks deadline) st"
  using rest_of_enter [of env t "[0..jt_phase_count t - 1]" st] rest_of_poll [where st = "await env st"]
  by (simp_all add: resume.simps task_result_def execute_job_def)
    (simp add: Let_def wait_for_phase_reports_def rest_of_poll)

lemma coroutine_ends_rest:
  "coroutine_ends env t pc st r st' \<Longrightarrow> rest_of env t pc st = Some (r, st')"
  by (induction rule: coroutine_ends.induct)
    (use rest_of_resume in \<open>(fastforce split: prod.splits)+\<close>)

text \<open>A wait that returns is a finite number of rounds.\<close>

lemma poll_ends:
  assumes "wait_loop env job k n deadline st = Some x"
    and "job = jt_job_id t" and "n = length (jt_hosts t)" and "after_wait env t ks x = Some (r, st')"
    and "\<forall>st1. phases_of env t ks st1 = Some (r, st') \<longrightarrow> (case enter_phases t ks st1 of (pc, st2) \<Rightarrow> coroutine_ends env t pc st2 r st')"
  shows "case poll_reports env t k ks deadline st of (pc, st1) \<Rightarrow> coroutine_ends env t pc st1 r st'"
proof -
  have "job = jt_job_id t \<longrightarrow> n = length (jt_hosts t) \<longrightarrow> after_wait env t ks x = Some (r, st') \<longrightarrow>
     (\<forall>st1. phases_of env t ks st1 = Some (r, st') \<longrightarrow> (case enter_phases t ks st1 of (pc, st2) \<Rightarrow> coroutine_ends env t pc st2 r st')) \<longrightarrow>
     (case poll_reports env t k ks deadline st of (pc, st1) \<Rightarrow> coroutine_ends env t pc st1 r st')"
  proof (rule wait_loop.raw_induct [OF _ assms(1)], goal_cases)
    case (1 loop env job k n deadline st x)
    show ?case
    proof (intro impI)
      assume j: "job = jt_job_id t" "n = length (jt_hosts t)" and a: "after_wait env t ks x = Some (r, st')"
        and nxt: "\<forall>st1. phases_of env t ks st1 = Some (r, st') \<longrightarrow> (case enter_phases t ks st1 of (pc, st2) \<Rightarrow> coroutine_ends env t pc st2 r st')"
      show "case poll_reports env t k ks deadline st of (pc, st1) \<Rightarrow> coroutine_ends env t pc st1 r st'"
      proof (cases "ev_mono env (o_mono st) < deadline \<and> \<not> n \<le> reports job k st")
        case True
        then have "loop env job k n deadline (await env (tick st)) = Some x" using 1(2) by simp
        from 1(1) [OF this, THEN mp, OF j(1), THEN mp, OF j(2), THEN mp, OF a, THEN mp, OF nxt]
        have "case poll_reports env t k ks deadline (await env (tick st)) of (pc, st1) \<Rightarrow> coroutine_ends env t pc st1 r st'" .
        then show ?thesis using True j by (auto simp: poll_reports_def Let_def resume.simps intro!: ends_poll split: prod.splits)
      next
        case False
        then have "x = (n \<le> reports job k st, tick st)" using 1(2) by (auto split: if_splits)
        then show ?thesis using a nxt False j by (auto simp: poll_reports_def Let_def after_wait_def)
      qed
    qed
  qed
  from this [THEN mp, OF assms(2), THEN mp, OF assms(3), THEN mp, OF assms(4), THEN mp, OF assms(5)] show ?thesis .
qed

lemma enter_ends:
  "phases_of env t ks st = Some (r, st') \<Longrightarrow> case enter_phases t ks st of (pc, st1) \<Rightarrow> coroutine_ends env t pc st1 r st'"
proof (induction ks arbitrary: st)
  case Nil
  then show ?case by (simp add: enter_phases_def)
next
  case (Cons k ks)
  show ?case
  proof (cases "build_dispatches (jt_fault t) (jt_job_id t) (jt_sieve_limit t) k (jt_hosts t)")
    case (Inl e)
    then show ?thesis using Cons.prems by (simp add: enter_phases_def)
  next
    case (Inr rs)
    let ?st = "st\<lparr>o_sent := o_sent st @ rs\<rparr>"
    let ?st1 = "on_srv (fold (dispatch_phase env) (ev_finish env rs)) (await env ?st)"
    have "case resume env t (Gathering k ks rs) (await env ?st) of (pc, st1) \<Rightarrow> coroutine_ends env t pc st1 r st'"
    proof (cases "\<exists>r\<in>set rs. ev_post env r = OtherError")
      case True
      then show ?thesis using Cons.prems Inr by (simp add: resume.simps gather_dispatches_def Let_def)
    next
      case False
      then obtain x where "wait_for_phase_reports env (jt_job_id t) k (length (jt_hosts t)) ?st1 = Some x"
        and a: "after_wait env t ks x = Some (r, st')"
        using Cons.prems Inr by (auto simp: gather_dispatches_def Let_def bind_eq_Some_conv after_wait_def split: if_splits)
      from poll_ends [OF this(1) [unfolded wait_for_phase_reports_def] refl refl a] Cons.IH False
      show ?thesis by (auto simp: resume.simps Let_def)
    qed
    then show ?thesis using Inr by (auto simp: enter_phases_def intro: ends_gather split: prod.splits)
  qed
qed

lemma coroutine_iff: "coroutine_ends env t Created st r st' \<longleftrightarrow> task_result env t st = Some (r, st')"
proof
  show "coroutine_ends env t Created st r st' \<Longrightarrow> task_result env t st = Some (r, st')"
    using coroutine_ends_rest by fastforce
  show "coroutine_ends env t Created st r st'" if "task_result env t st = Some (r, st')"
    using enter_ends [of env t "[0..jt_phase_count t - 1]" st r st'] that
    by (auto simp: resume.simps task_result_def execute_job_def intro: ends_created split: prod.splits)
qed

section \<open>The process\<close>

record coroutine =
  co_task :: job_task
  co_env :: environment
  co_pc :: job_pc
  co_st :: orchestrator

text \<open>
  The state of the process: the server with its connections, and the job tasks. \<open>co_env\<close> gives the
  clock readings and the outcomes of the requests of the job; its \<open>ev_other\<close> is not used here.
\<close>

record process =
  pr_sys :: system
  pr_cos :: "string \<rightharpoonup> coroutine"

abbreviation pr_srv :: "('a) process_scheme \<Rightarrow> server" where
  "pr_srv p \<equiv> sys_srv (pr_sys p)"

fun has_ended :: "job_pc \<Rightarrow> bool" where
  "has_ended (Ended r) = True"
| "has_ended _ = False"

text \<open>The coroutine continues with the shared state as it is now.\<close>

definition wake :: "server \<Rightarrow> coroutine \<Rightarrow> orchestrator" where
  "wake s c = (case co_pc c of
     Created \<Rightarrow> (co_st c)\<lparr>o_srv := s\<rparr>
   | _ \<Rightarrow> (co_st c)\<lparr>o_srv := s, o_await := Suc (o_await (co_st c))\<rparr>)"

definition run_coroutine :: "server \<Rightarrow> coroutine \<Rightarrow> coroutine" where
  "run_coroutine s c = (case resume (co_env c) (co_task c) (co_pc c) (wake s c) of
     (pc, st) \<Rightarrow> c\<lparr>co_pc := pc, co_st := st\<rparr>)"

definition new_coroutine :: "environment \<Rightarrow> job_task \<Rightarrow> server \<Rightarrow> coroutine" where
  "new_coroutine env t s = \<lparr>co_task = t, co_env = env, co_pc = Created,
     co_st = \<lparr>o_srv = s, o_mono = 0, o_await = 0, o_sent = []\<rparr>\<rparr>"

definition set_srv :: "server \<Rightarrow> system \<Rightarrow> system" where
  "set_srv s sys = sys\<lparr>sys_srv := s\<rparr>"

datatype process_event = Traffic sys_event | RefreshRound | StartJob string start_job_request environment | ResumeJob string

inductive proc_step :: "batch_parser \<Rightarrow> event_parser \<Rightarrow> clock \<Rightarrow> (nat \<Rightarrow> string) \<Rightarrow> (pyfloat list \<Rightarrow> pyfloat) \<Rightarrow> string list
    \<Rightarrow> process_event \<Rightarrow> process \<Rightarrow> process \<Rightarrow> bool"
  for pb :: batch_parser and pe :: event_parser and clk :: clock and peer :: "nat \<Rightarrow> string"
    and avg :: "pyfloat list \<Rightarrow> pyfloat" and hosts :: "string list" where
  proc_traffic: "sys_step pb pe clk peer e (pr_sys p) sys' \<Longrightarrow> e \<noteq> OtherTask \<Longrightarrow>
    proc_step pb pe clk peer avg hosts (Traffic e) p (p\<lparr>pr_sys := sys'\<rparr>)"
| proc_refresh: "refresh_rollups avg (srv_db (pr_srv p)) = (err, d) \<Longrightarrow>
    proc_step pb pe clk peer avg hosts RefreshRound p (p\<lparr>pr_sys := set_srv ((pr_srv p)\<lparr>srv_db := d\<rparr>) (pr_sys p)\<rparr>)"
| proc_start: "start_job hosts clk uuid request (pr_srv p) = (Inr t, s) \<Longrightarrow>
    proc_step pb pe clk peer avg hosts (StartJob uuid request env) p
      (p\<lparr>pr_sys := set_srv s (pr_sys p), pr_cos := (pr_cos p)(uuid \<mapsto> new_coroutine env t s)\<rparr>)"
| proc_refused: "start_job hosts clk uuid request (pr_srv p) = (Inl e, s) \<Longrightarrow>
    proc_step pb pe clk peer avg hosts (StartJob uuid request env) p (p\<lparr>pr_sys := set_srv s (pr_sys p)\<rparr>)"
| proc_resume: "pr_cos p j = Some c \<Longrightarrow> \<not> has_ended (co_pc c) \<Longrightarrow> run_coroutine (pr_srv p) c = c' \<Longrightarrow>
    proc_step pb pe clk peer avg hosts (ResumeJob j) p
      (p\<lparr>pr_sys := set_srv (o_srv (co_st c')) (pr_sys p), pr_cos := (pr_cos p)(j \<mapsto> c')\<rparr>)"

inductive proc_run :: "batch_parser \<Rightarrow> event_parser \<Rightarrow> clock \<Rightarrow> (nat \<Rightarrow> string) \<Rightarrow> (pyfloat list \<Rightarrow> pyfloat) \<Rightarrow> string list
    \<Rightarrow> process_event list \<Rightarrow> process \<Rightarrow> process \<Rightarrow> bool"
  for pb :: batch_parser and pe :: event_parser and clk :: clock and peer :: "nat \<Rightarrow> string"
    and avg :: "pyfloat list \<Rightarrow> pyfloat" and hosts :: "string list" where
  proc_nil: "proc_run pb pe clk peer avg hosts [] p p"
| proc_cons: "proc_step pb pe clk peer avg hosts e p p' \<Longrightarrow> proc_run pb pe clk peer avg hosts es p' p'' \<Longrightarrow>
    proc_run pb pe clk peer avg hosts (e # es) p p''"

section \<open>What a step does to the jobs\<close>

lemma rtranclp_store_refresh: "store_step\<^sup>*\<^sup>* d (snd (refresh_pairs avg ps d))"
proof (induction avg ps d rule: refresh_pairs.induct)
  case (2 avg n m ps d)
  have "store_step d (snd (recompute_rollups avg n m d))" by (rule step_recompute)
  then show ?case using 2 by (fastforce split: prod.split option.split intro: converse_rtranclp_into_rtranclp)
qed simp

lemma refresh_jobs: "jobs (snd (refresh_pairs avg ps d)) = jobs d"
proof (induction avg ps d rule: refresh_pairs.induct)
  case (2 avg n m ps d)
  then show ?case using recompute_rollups_frame(2) [of avg n m d] by (auto split: prod.splits option.splits)
qed simp

lemma other_job_status: "j' \<noteq> j \<Longrightarrow> store_get_job j' (set_job_status j status d) = store_get_job j' d"
proof -
  assume "j' \<noteq> j"
  then have "find (\<lambda>x. jr_job_id x = j') (map (\<lambda>x. if jr_job_id x = j then x\<lparr>jr_status := status\<rparr> else x) js)
      = find (\<lambda>x. jr_job_id x = j') js" for js by (induction js) auto
  then show ?thesis by (simp add: store_get_job_def set_job_status_def)
qed

lemma status_step: "store_step\<^sup>*\<^sup>* d (set_job_status j status d)"
  by (rule r_into_rtranclp, rule step_set_status)

text \<open>A step of a coroutine changes the store by its calls, and no job but its own.\<close>

definition own_step :: "job_task \<Rightarrow> orchestrator \<Rightarrow> job_pc \<times> orchestrator \<Rightarrow> bool" where
  "own_step t st r \<longleftrightarrow> store_step\<^sup>*\<^sup>* (srv_db (o_srv st)) (srv_db (o_srv (snd r))) \<and> o_await (snd r) = o_await st \<and> fst r \<noteq> Created
     \<and> (\<forall>j. j \<noteq> jt_job_id t \<longrightarrow> store_get_job j (srv_db (o_srv (snd r))) = store_get_job j (srv_db (o_srv st)))
     \<and> (store_get_job (jt_job_id t) (srv_db (o_srv st)) \<noteq> None \<longrightarrow> store_get_job (jt_job_id t) (srv_db (o_srv (snd r))) \<noteq> None)"

lemma own_step_enter: "own_step t st (enter_phases t ks st)"
  by (auto simp: own_step_def enter_phases_def finish_job_def on_srv_def status_step other_job_status set_job_status_find
      split: list.split sum.split)

lemma own_step_poll: "own_step t st (poll_reports env t k ks deadline st)"
proof -
  have "own_step t (tick st) r = own_step t st r" for r by (simp add: own_step_def tick_def)
  moreover have "own_step t (tick st) (Ended (Inr ()), on_srv (emit (timed_out_log (jt_job_id t)) \<circ> finish_job (jt_job_id t) ''timed_out'') (tick st))"
    by (auto simp: own_step_def finish_job_def on_srv_def status_step other_job_status set_job_status_find)
  moreover have "own_step t (tick st) (Polling k ks deadline, tick st)" by (simp add: own_step_def)
  ultimately show ?thesis using own_step_enter [of t "tick st" ks] by (simp add: poll_reports_def Let_def)
qed

lemma own_step_resume: "\<not> has_ended pc \<Longrightarrow> own_step t st (resume env t pc st)"
proof (cases pc)
  case (Gathering k ks rs)
  let ?st' = "on_srv (fold (dispatch_phase env) (ev_finish env rs)) st"
  have "own_step t (tick ?st') r = own_step t st r" for r by (simp add: own_step_def tick_def on_srv_def)
  then show ?thesis using own_step_poll [of t "tick ?st'" env k ks] Gathering
    by (auto simp: resume.simps Let_def) (simp add: own_step_def on_srv_def)
qed (simp_all add: resume.simps own_step_enter own_step_poll)

lemma wake_srv [simp]: "o_srv (wake s c) = s"
  by (simp add: wake_def split: job_pc.split)

lemma drain_tables: "other_tables (srv_db (fst (snd (drain_frames pb pe clk peer b s)))) = other_tables (srv_db s)"
proof (induction pb pe clk peer b s rule: drain_frames.induct)
  case (1 pb pe clk peer b s)
  show ?case
  proof (cases "decode_frame b")
    case (Inl e)
    then show ?thesis by (simp add: drain_unknown)
  next
    case (Inr r)
    then show ?thesis using "1.IH" handle_frame_tables [of pb pe clk _ s]
      by (auto simp: drain_frames.simps [of pb pe clk peer b s] split: option.split prod.split) (metis fst_conv)+
  qed
qed

lemma traffic_tables:
  assumes "sys_step pb pe clk peer e sys sys'" and "e \<noteq> OtherTask"
  shows "other_tables (srv_db (sys_srv sys')) = other_tables (srv_db (sys_srv sys))"
  using assms
proof (induction rule: sys_step.induct)
  case (sys_data sys i b c b' srv')
  then show ?case using drain_tables [of pb pe clk "peer i" "b @ c" "sys_srv sys"] by simp
next
  case (sys_fault sys i b c b' srv' e)
  then show ?case using drain_tables [of pb pe clk "peer i" "b @ c" "sys_srv sys"] by simp
qed simp_all

lemma find_snoc: "find P (xs @ [x]) = (case find P xs of None \<Rightarrow> if P x then Some x else None | Some y \<Rightarrow> Some y)"
  by (induction xs) simp_all

definition started_row :: "job_task \<Rightarrow> int \<Rightarrow> job_row" where
  "started_row t now = \<lparr>jr_job_id = jt_job_id t, jr_phase_count = jt_phase_count t, jr_node_ids_json = jt_hosts t,
     jr_fault_manifest_json = jt_fault t, jr_status = ''running'', jr_created_ts_ns = now\<rparr>"

lemma start_job_store:
  assumes "start_job hosts clk uuid request s = (r, s')"
  shows "case r of Inl _ \<Rightarrow> srv_db s' = srv_db s
     | Inr t \<Rightarrow> jt_job_id t = uuid \<and> jt_hosts t = hosts \<and> uuid \<notin> set (map jr_job_id (jobs (srv_db s)))
         \<and> srv_db s' = (srv_db s)\<lparr>jobs := jobs (srv_db s) @ [started_row t (clk (srv_ticks s))]\<rparr>
         \<and> store_step (srv_db s) (srv_db s')"
proof -
  have "store_step d (d\<lparr>jobs := jobs d @ [started_row t now]\<rparr>)" if "jt_job_id t \<notin> set (map jr_job_id (jobs d))" and "bindable (jt_phase_count t)" for d t now
    using that step_create_job [of "jt_job_id t" "jt_phase_count t" "jt_hosts t" now "jt_fault t" d]
    by (simp add: store_create_job_def started_row_def)
  note step = this
  show ?thesis using assms step [of "\<lparr>jt_job_id = uuid, jt_hosts = hosts, jt_phase_count = sj_phase_count request,
      jt_sieve_limit = sj_sieve_limit request, jt_fault = m\<rparr>" "srv_db s" "clk (srv_ticks s)" for m]
    by (auto simp: start_job_def launch_job_def create_job_def time_ns_def store_create_job_def Let_def started_row_def
        split: if_splits option.splits sum.splits)
qed

lemma own_step_run:
  assumes "\<not> has_ended (co_pc c)"
  shows "own_step (co_task c) (wake s c) (co_pc (run_coroutine s c), co_st (run_coroutine s c))"
  using own_step_resume [OF assms, of "co_task c" "wake s c" "co_env c"]
  by (cases "resume (co_env c) (co_task c) (co_pc c) (wake s c)") (simp add: run_coroutine_def)

lemma run_coroutine_fields [simp]: "co_task (run_coroutine s c) = co_task c" "co_env (run_coroutine s c) = co_env c"
  by (simp_all add: run_coroutine_def split: prod.split)

text \<open>Every job task has a row in the store, under the id it is known by.\<close>

definition wf_process :: "process \<Rightarrow> bool" where
  "wf_process p \<longleftrightarrow> (\<forall>j c. pr_cos p j = Some c \<longrightarrow> jt_job_id (co_task c) = j \<and> store_get_job j (srv_db (pr_srv p)) \<noteq> None)"

text \<open>What a step of the process is to a job: its own step, or a step of another task.\<close>

lemma other_step:
  assumes "proc_step pb pe clk peer avg hosts e p p'" and "e \<noteq> ResumeJob j" and "wf_process p"
    and "store_get_job j (srv_db (pr_srv p)) \<noteq> None"
  shows "store_step\<^sup>*\<^sup>* (srv_db (pr_srv p)) (srv_db (pr_srv p'))
     \<and> store_get_job j (srv_db (pr_srv p')) = store_get_job j (srv_db (pr_srv p)) \<and> pr_cos p' j = pr_cos p j"
  using assms(1)
proof cases
  case (proc_traffic e sys')
  then show ?thesis using traffic_tables [of pb pe clk peer e "pr_sys p" sys'] sys_step_store [of pb pe clk peer e "pr_sys p" sys']
    by (simp add: store_get_job_def other_tables_def)
next
  case (proc_refresh err d)
  then show ?thesis using rtranclp_store_refresh [of "srv_db (pr_srv p)" avg] refresh_jobs [of avg _ "srv_db (pr_srv p)"]
    by (auto simp: set_srv_def refresh_rollups_def store_get_job_def) (metis snd_conv)+
next
  case (proc_start uuid request t s env)
  from start_job_store [OF this(3), unfolded sum.case]
  have new: "jt_job_id t = uuid" "uuid \<notin> set (map jr_job_id (jobs (srv_db (pr_srv p))))" "store_step (srv_db (pr_srv p)) (srv_db s)"
    "srv_db s = (srv_db (pr_srv p))\<lparr>jobs := jobs (srv_db (pr_srv p)) @ [started_row t (clk (srv_ticks (pr_srv p)))]\<rparr>" by blast+
  have "j \<noteq> uuid" using assms(4) new(2) by (auto simp: store_get_job_def find_None_iff)
  then show ?thesis using proc_start new
    by (auto simp: set_srv_def store_get_job_def find_snoc started_row_def split: option.split)
next
  case (proc_refused uuid request e s env)
  then show ?thesis using start_job_store [OF proc_refused(3)] by (simp add: set_srv_def)
next
  case (proc_resume j' c c')
  then have "jt_job_id (co_task c) = j'" "j' \<noteq> j" using assms(2,3) by (auto simp: wf_process_def)
  moreover have "own_step (co_task c) (wake (pr_srv p) c) (co_pc c', co_st c')"
    using own_step_run [of c "pr_srv p"] proc_resume by simp
  ultimately show ?thesis using proc_resume by (simp add: own_step_def set_srv_def)
qed

lemma wf_process_step:
  assumes "proc_step pb pe clk peer avg hosts e p p'" and "wf_process p"
  shows "wf_process p'"
  unfolding wf_process_def
proof (intro allI impI)
  fix j c'
  assume c': "pr_cos p' j = Some c'"
  show "jt_job_id (co_task c') = j \<and> store_get_job j (srv_db (pr_srv p')) \<noteq> None"
  proof (cases "\<exists>c. pr_cos p j = Some c")
    case True
    then obtain c where c: "pr_cos p j = Some c" by blast
    then have row: "jt_job_id (co_task c) = j" "store_get_job j (srv_db (pr_srv p)) \<noteq> None" using assms(2) by (auto simp: wf_process_def)
    show ?thesis
    proof (cases "e = ResumeJob j")
      case True
      with assms(1) c have "\<not> has_ended (co_pc c)" "p' = p\<lparr>pr_sys := set_srv (o_srv (co_st (run_coroutine (pr_srv p) c))) (pr_sys p),
          pr_cos := (pr_cos p)(j \<mapsto> run_coroutine (pr_srv p) c)\<rparr>" by (auto elim: proc_step.cases)
      then show ?thesis using own_step_run [of c "pr_srv p"] row c' by (auto simp: own_step_def set_srv_def)
    next
      case False
      from other_step [OF assms(1) False assms(2) row(2)] c c' row show ?thesis by simp
    qed
  next
    case False
    from assms(1) show ?thesis
    proof cases
      case (proc_start uuid request t s env)
      then have "j = uuid" "c' = new_coroutine env t s" "pr_srv p' = s" using c' False by (auto simp: set_srv_def split: if_splits)
      with start_job_store [OF proc_start(3)] show ?thesis
        by (auto simp: new_coroutine_def store_get_job_def find_snoc started_row_def split: option.split)
    qed (use c' False in \<open>auto split: if_splits\<close>)
  qed
qed

section \<open>Each job alone\<close>

text \<open>A coroutine sees of its environment what happens from its next await on.\<close>

lemma resume_cong: "resume (env\<lparr>ev_other := o1\<rparr>) t pc st = resume env t pc st"
proof -
  have "dispatch_phase (env\<lparr>ev_other := o1\<rparr>) = dispatch_phase env" by (simp add: dispatch_phase_def fun_eq_iff)
  then show ?thesis by (cases pc) (simp_all add: resume.simps poll_reports_def Let_def)
qed

lemma resume_await: "\<not> has_ended pc \<Longrightarrow> resume env t pc st = (pc', st') \<Longrightarrow> o_await st' = o_await st \<and> pc' \<noteq> Created"
  using own_step_resume [of pc t st env] by (simp add: own_step_def)

lemma coroutine_ends_cong:
  assumes "coroutine_ends (env\<lparr>ev_other := o1\<rparr>) t pc st r st'" and "\<forall>i\<ge>o_await st. o2 i = o1 i"
  shows "coroutine_ends (env\<lparr>ev_other := o2\<rparr>) t pc st r st'"
  using assms
proof (induction rule: coroutine_ends.induct)
  case (ends_created st pc' st' r st'')
  then show ?case using resume_await [of Created env t st pc' st'] by (intro coroutine_ends.ends_created) (simp_all add: resume_cong)
next
  case (ends_gather k ks rs st pc' st' r st'')
  have "await (env\<lparr>ev_other := o2\<rparr>) st = await (env\<lparr>ev_other := o1\<rparr>) st" using ends_gather.prems by (simp add: await_def)
  then show ?case using ends_gather resume_await [of "Gathering k ks rs" env t "await (env\<lparr>ev_other := o1\<rparr>) st" pc' st']
    by (intro coroutine_ends.ends_gather) (simp_all only: resume_cong, simp add: await_def)
next
  case (ends_poll k ks deadline st pc' st' r st'')
  have "await (env\<lparr>ev_other := o2\<rparr>) st = await (env\<lparr>ev_other := o1\<rparr>) st" using ends_poll.prems by (simp add: await_def)
  then show ?case using ends_poll resume_await [of "Polling k ks deadline" env t "await (env\<lparr>ev_other := o1\<rparr>) st" pc' st']
    by (intro coroutine_ends.ends_poll) (simp_all only: resume_cong, simp add: await_def)
qed simp

text \<open>
  At an await, what the others do may be seen from another state of the store that they could
  have reached.
\<close>

lemma coroutine_ends_from:
  assumes "coroutine_ends (env\<lparr>ev_other := o1\<rparr>) t pc (st\<lparr>o_srv := s1\<rparr>) r st'" and "pc \<noteq> Created" and "\<not> has_ended pc"
  shows "coroutine_ends (env\<lparr>ev_other := o1(o_await st := \<lambda>x. if x = o_srv st then o1 (o_await st) s1 else o1 (o_await st) x)\<rparr>) t pc st r st'"
proof -
  let ?o2 = "o1(o_await st := \<lambda>x. if x = o_srv st then o1 (o_await st) s1 else o1 (o_await st) x)"
  have aw: "await (env\<lparr>ev_other := ?o2\<rparr>) st = await (env\<lparr>ev_other := o1\<rparr>) (st\<lparr>o_srv := s1\<rparr>)" by (simp add: await_def)
  have rest: "coroutine_ends (env\<lparr>ev_other := ?o2\<rparr>) t pc' st1 r st'"
    if "coroutine_ends (env\<lparr>ev_other := o1\<rparr>) t pc' st1 r st'" "o_await st1 = Suc (o_await st)" for pc' st1
    by (rule coroutine_ends_cong [OF that(1)]) (use that(2) in simp)
  show ?thesis
  proof (cases pc)
    case (Gathering k ks rs)
    obtain pc' st1 where r: "resume env t pc (await (env\<lparr>ev_other := o1\<rparr>) (st\<lparr>o_srv := s1\<rparr>)) = (pc', st1)"
      and e: "coroutine_ends (env\<lparr>ev_other := o1\<rparr>) t pc' st1 r st'"
      using assms(1) by (auto simp: Gathering resume_cong elim!: ends_gatherE)
    have "o_await st1 = Suc (o_await st)" using resume_await [OF assms(3) r] by (simp add: await_def)
    from rest [OF e this] r show ?thesis unfolding Gathering by (intro ends_gather [where pc' = pc' and st' = st1]) (simp_all only: resume_cong aw)
  next
    case (Polling k ks deadline)
    obtain pc' st1 where r: "resume env t pc (await (env\<lparr>ev_other := o1\<rparr>) (st\<lparr>o_srv := s1\<rparr>)) = (pc', st1)"
      and e: "coroutine_ends (env\<lparr>ev_other := o1\<rparr>) t pc' st1 r st'"
      using assms(1) by (auto simp: Polling resume_cong elim!: ends_pollE)
    have "o_await st1 = Suc (o_await st)" using resume_await [OF assms(3) r] by (simp add: await_def)
    from rest [OF e this] r show ?thesis unfolding Polling by (intro ends_poll [where pc' = pc' and st' = st1]) (simp_all only: resume_cong aw)
  qed (use assms(2,3) in simp_all)
qed


lemma background_id: "background (\<lambda>_ x. x) j"
  by (simp add: background_def)

lemma background_update:
  assumes "background other j" and "\<And>x. store_step\<^sup>*\<^sup>* (srv_db x) (srv_db (f x))"
    and "\<And>x. store_get_job j (srv_db (f x)) = store_get_job j (srv_db x)"
  shows "background (other(a := f)) j"
  using assms by (auto simp: background_def)

text \<open>
  One step of the coroutine, before a rest that behaves as the coroutine alone: the whole does.
\<close>

lemma coroutine_step:
  assumes "\<not> has_ended (co_pc c)" and "run_coroutine s c = c1" and "background other j"
    and "coroutine_ends ((co_env c)\<lparr>ev_other := other\<rparr>) (co_task c) (co_pc c1) (co_st c1) r st'"
  shows "\<exists>other. background other j
     \<and> coroutine_ends ((co_env c)\<lparr>ev_other := other\<rparr>) (co_task c) (co_pc c) ((co_st c)\<lparr>o_srv := s\<rparr>) r st'"
proof (cases "co_pc c = Created")
  case True
  obtain pc1 st1 where res: "resume (co_env c) (co_task c) Created ((co_st c)\<lparr>o_srv := s\<rparr>) = (pc1, st1)" by fastforce
  then have "co_pc c1 = pc1" "co_st c1 = st1" using assms(2) True by (auto simp: run_coroutine_def wake_def)
  with res assms(3,4) show ?thesis
    unfolding True by (intro exI [of _ other]) (auto intro!: ends_created simp: resume_cong)
next
  case False
  let ?st = "(co_st c)\<lparr>o_srv := s\<rparr>" and ?o = "other(o_await (co_st c) := \<lambda>x. x)"
  obtain pc1 st1 where res: "resume (co_env c) (co_task c) (co_pc c) (wake s c) = (pc1, st1)" by fastforce
  then have c1: "co_pc c1 = pc1" "co_st c1 = st1" using assms(2) by (auto simp: run_coroutine_def)
  have aw: "await ((co_env c)\<lparr>ev_other := ?o\<rparr>) ?st = wake s c" using False assms(1)
    by (cases "co_pc c") (simp_all add: wake_def await_def)
  have "o_await st1 = Suc (o_await (co_st c))" using resume_await [OF assms(1) res] aw [symmetric] by (simp add: await_def)
  then have rest: "coroutine_ends ((co_env c)\<lparr>ev_other := ?o\<rparr>) (co_task c) pc1 st1 r st'"
    by (intro coroutine_ends_cong [OF assms(4) [unfolded c1]]) simp
  have "coroutine_ends ((co_env c)\<lparr>ev_other := ?o\<rparr>) (co_task c) (co_pc c) ?st r st'"
  proof (cases "co_pc c")
    case (Gathering k ks rs)
    show ?thesis unfolding Gathering
      by (rule ends_gather [OF _ rest]) (simp only: resume_cong aw res [unfolded Gathering])
  next
    case (Polling k ks deadline)
    show ?thesis unfolding Polling
      by (rule ends_poll [OF _ rest]) (simp only: resume_cong aw res [unfolded Polling])
  qed (use False assms(1) in simp_all)
  moreover have "background ?o j" by (rule background_update [OF assms(3)]) simp_all
  ultimately show ?thesis by blast
qed

lemma resume_step:
  assumes "proc_step pb pe clk peer avg hosts (ResumeJob j) p p'" and "pr_cos p j = Some c"
  shows "\<not> has_ended (co_pc c) \<and> p' = p\<lparr>pr_sys := set_srv (o_srv (co_st (run_coroutine (pr_srv p) c))) (pr_sys p),
    pr_cos := (pr_cos p)(j \<mapsto> run_coroutine (pr_srv p) c)\<rparr>"
  using assms by (auto elim: proc_step.cases)

text \<open>A job that has ended stays as it is, and its row too.\<close>

lemma ended_stays:
  assumes "proc_run pb pe clk peer avg hosts es p p'" and "wf_process p"
    and "pr_cos p j = Some c" and "has_ended (co_pc c)"
  shows "pr_cos p' j = Some c \<and> store_step\<^sup>*\<^sup>* (srv_db (pr_srv p)) (srv_db (pr_srv p'))
    \<and> store_get_job j (srv_db (pr_srv p')) = store_get_job j (srv_db (pr_srv p))"
  using assms
proof (induction rule: proc_run.induct)
  case (proc_cons e p p' es p'')
  have "e \<noteq> ResumeJob j" using resume_step [of _ _ _ _ _ _ j p p' c] proc_cons by blast
  moreover have "store_get_job j (srv_db (pr_srv p)) \<noteq> None" using proc_cons.prems by (auto simp: wf_process_def)
  ultimately show ?case using other_step [OF proc_cons.hyps(1)] wf_process_step [OF proc_cons.hyps(1)] proc_cons.IH proc_cons.prems
    by (metis rtranclp_trans)
qed simp

text \<open>
  The simulation: what a job does in the process until it ends, it does alone, from a state of
  the store that the others can reach, in an environment that keeps the contract of
  \<open>background\<close>.
\<close>

definition later_row :: "string \<Rightarrow> server \<Rightarrow> server \<Rightarrow> bool" where
  "later_row j s s' \<longleftrightarrow> store_step\<^sup>*\<^sup>* (srv_db s) (srv_db s') \<and> store_get_job j (srv_db s') = store_get_job j (srv_db s)"

lemma later_row_trans: "later_row j s s' \<Longrightarrow> later_row j s' s'' \<Longrightarrow> later_row j s s''"
  by (auto simp: later_row_def)

lemma later_row_refl [simp]: "later_row j s s"
  by (simp add: later_row_def)

lemma job_alone:
  assumes "proc_run pb pe clk peer avg hosts es p p'" and "wf_process p"
    and "pr_cos p j = Some c" and "pr_cos p' j = Some c'" and "\<not> has_ended (co_pc c)" and "co_pc c' = Ended r"
  shows "later_row j (o_srv (co_st c')) (pr_srv p') \<and> (\<exists>s other. later_row j (pr_srv p) s \<and> background other j
     \<and> coroutine_ends ((co_env c)\<lparr>ev_other := other\<rparr>) (co_task c) (co_pc c) ((co_st c)\<lparr>o_srv := s\<rparr>) r (co_st c'))"
  using assms
proof (induction arbitrary: c rule: proc_run.induct)
  case (proc_nil p)
  then show ?case by simp
next
  case (proc_cons e p p1 es p2)
  have row: "store_get_job j (srv_db (pr_srv p)) \<noteq> None" using proc_cons.prems by (auto simp: wf_process_def)
  have wf: "wf_process p1" using wf_process_step [OF proc_cons.hyps(1) proc_cons.prems(1)] .
  show ?case
  proof (cases "e = ResumeJob j")
    case False
    from other_step [OF proc_cons.hyps(1) this proc_cons.prems(1) row] proc_cons.prems(2)
    have "later_row j (pr_srv p) (pr_srv p1)" and "pr_cos p1 j = Some c" by (simp_all add: later_row_def)
    with proc_cons.IH [OF wf _ proc_cons.prems(3-5)] show ?thesis using later_row_trans by blast
  next
    case True
    let ?c1 = "run_coroutine (pr_srv p) c"
    from resume_step [OF proc_cons.hyps(1) [unfolded True] proc_cons.prems(2)]
    have p1: "pr_cos p1 j = Some ?c1" "pr_srv p1 = o_srv (co_st ?c1)" by (simp_all add: set_srv_def)
    show ?thesis
    proof (cases "has_ended (co_pc ?c1)")
      case True
      from ended_stays [OF proc_cons.hyps(2) wf p1(1) True] proc_cons.prems(3) p1(2)
      have c': "c' = ?c1" and fin: "later_row j (o_srv (co_st c')) (pr_srv p2)" by (simp_all add: later_row_def)
      have "coroutine_ends ((co_env c)\<lparr>ev_other := \<lambda>_ x. x\<rparr>) (co_task c) (co_pc ?c1) (co_st ?c1) r (co_st c')"
        using proc_cons.prems(5) by (simp add: c')
      from coroutine_step [OF proc_cons.prems(4) refl background_id this] fin show ?thesis using later_row_refl by blast
    next
      case False
      from proc_cons.IH [OF wf p1(1) proc_cons.prems(3) False proc_cons.prems(5)] p1(2)
      obtain s other where fin: "later_row j (o_srv (co_st c')) (pr_srv p2)" and s: "later_row j (o_srv (co_st ?c1)) s"
        and b: "background other j"
        and e: "coroutine_ends ((co_env c)\<lparr>ev_other := other\<rparr>) (co_task c) (co_pc ?c1) ((co_st ?c1)\<lparr>o_srv := s\<rparr>) r (co_st c')"
        by (auto simp: p1(2))
      let ?a = "o_await (co_st ?c1)"
      let ?f = "\<lambda>x. if x = o_srv (co_st ?c1) then other ?a s else other ?a x"
      have "co_pc ?c1 \<noteq> Created" using own_step_run [OF proc_cons.prems(4), of "pr_srv p"] by (simp add: own_step_def)
      note e2 = coroutine_ends_from [OF e this False]
      have "background (other(?a := ?f)) j"
      proof (rule background_update [OF b])
        fix x
        show "store_step\<^sup>*\<^sup>* (srv_db x) (srv_db (?f x))" "store_get_job j (srv_db (?f x)) = store_get_job j (srv_db x)"
          using s background.grows [OF b] background.keeps_job [OF b] by (auto simp: later_row_def intro: rtranclp_trans)
      qed
      from coroutine_step [OF proc_cons.prems(4) refl this e2] fin show ?thesis using later_row_refl by blast
    qed
  qed
qed


text \<open>The process with the database file \<open>d\<close>, when \<open>lifespan\<close> has opened it.\<close>

definition boot_process :: "db \<Rightarrow> process" where
  "boot_process d = \<lparr>pr_sys = \<lparr>sys_srv = \<lparr>srv_db = d, srv_log = [], srv_ticks = 0\<rparr>, sys_conns = (\<lambda>_. None)\<rparr>,
     pr_cos = Map.empty\<rparr>"

definition resumes :: "string \<Rightarrow> process_event list \<Rightarrow> nat" where
  "resumes j es = length (filter (\<lambda>e. e = ResumeJob j) es)"

lemma wf_boot [simp]: "wf_process (boot_process d)"
  by (simp add: wf_process_def boot_process_def)

lemma wf_process_run: "proc_run pb pe clk peer avg hosts es p p' \<Longrightarrow> wf_process p \<Longrightarrow> wf_process p'"
  by (induction rule: proc_run.induct) (auto intro: wf_process_step)

lemma proc_step_store:
  assumes "proc_step pb pe clk peer avg hosts e p p'"
  shows "store_step\<^sup>*\<^sup>* (srv_db (pr_srv p)) (srv_db (pr_srv p'))"
  using assms
proof cases
  case (proc_traffic e sys')
  then show ?thesis using sys_step_store [of pb pe clk peer e "pr_sys p" sys'] by simp
next
  case (proc_refresh err d)
  then show ?thesis using rtranclp_store_refresh [of "srv_db (pr_srv p)" avg]
    by (auto simp: set_srv_def refresh_rollups_def) (metis snd_conv)
next
  case (proc_start uuid request t s env)
  from start_job_store [OF this(3), unfolded sum.case] proc_start show ?thesis by (auto simp: set_srv_def)
next
  case (proc_refused uuid request e s env)
  then show ?thesis using start_job_store [OF proc_refused(3)] by (simp add: set_srv_def)
next
  case (proc_resume j' c c')
  then show ?thesis using own_step_run [of c "pr_srv p"] by (simp add: own_step_def set_srv_def)
qed

text \<open>Every job was started by a request that \<open>start_job\<close> accepted, and keeps its task.\<close>

lemma started_task: "start_job hosts clk uuid request s = (Inr t, s') \<Longrightarrow> jt_hosts t = hosts \<and> jt_phase_count t = sj_phase_count request
   \<and> jt_sieve_limit t = sj_sieve_limit request \<and> jt_fault t = map_option model_dump (sj_fault request)"
  by (auto simp: start_job_def launch_job_def split: if_splits option.splits prod.splits sum.splits)

lemma same_task:
  assumes "proc_run pb pe clk peer avg hosts es p p'" and "wf_process p" and "pr_cos p j = Some c"
  shows "\<exists>c'. pr_cos p' j = Some c' \<and> co_task c' = co_task c \<and> co_env c' = co_env c"
  using assms
proof (induction arbitrary: c rule: proc_run.induct)
  case (proc_cons e p p1 es p2)
  have "\<exists>c1. pr_cos p1 j = Some c1 \<and> co_task c1 = co_task c \<and> co_env c1 = co_env c"
  proof (cases "e = ResumeJob j")
    case True
    with resume_step [of pb pe clk peer avg hosts j p p1 c] proc_cons show ?thesis by auto
  next
    case False
    with other_step [OF proc_cons.hyps(1) False] proc_cons.prems show ?thesis by (auto simp: wf_process_def)
  qed
  with proc_cons.IH wf_process_step [OF proc_cons.hyps(1)] proc_cons.prems show ?case by fastforce
qed simp

lemma job_origin:
  assumes "proc_run pb pe clk peer avg hosts es p p'" and "pr_cos p j = None" and "pr_cos p' j = Some c"
  shows "\<exists>es1 request env es2 p1 p2 t. es = es1 @ StartJob j request env # es2 \<and> resumes j es1 = 0
     \<and> proc_run pb pe clk peer avg hosts es1 p p1 \<and> start_job hosts clk j request (pr_srv p1) = (Inr t, pr_srv p2)
     \<and> proc_step pb pe clk peer avg hosts (StartJob j request env) p1 p2
     \<and> pr_cos p2 j = Some (new_coroutine env t (pr_srv p2)) \<and> proc_run pb pe clk peer avg hosts es2 p2 p'"
  using assms
proof (induction rule: proc_run.induct)
  case (proc_cons e p p1 es p2)
  show ?case
  proof (cases "pr_cos p1 j")
    case None
    from proc_cons.IH [OF None proc_cons.prems(2)] obtain es1 request env es2 q1 q2 t where *:
      "es = es1 @ StartJob j request env # es2" "resumes j es1 = 0" "proc_run pb pe clk peer avg hosts es1 p1 q1"
      "start_job hosts clk j request (pr_srv q1) = (Inr t, pr_srv q2)" "proc_step pb pe clk peer avg hosts (StartJob j request env) q1 q2"
      "pr_cos q2 j = Some (new_coroutine env t (pr_srv q2))" "proc_run pb pe clk peer avg hosts es2 q2 p2" by blast
    have "e \<noteq> ResumeJob j" using proc_cons.hyps(1) None proc_cons.prems(1) by (auto elim: proc_step.cases)
    with * proc_run.proc_cons [OF proc_cons.hyps(1) *(3)] show ?thesis
      by (intro exI [of _ "e # es1"] exI [of _ request] exI [of _ env] exI [of _ es2] exI [of _ q1] exI [of _ q2] exI [of _ t])
        (auto simp: resumes_def)
  next
    case (Some c1)
    from proc_cons.hyps(1) show ?thesis
    proof cases
      case (proc_start uuid request t s env)
      then have "uuid = j" using Some proc_cons.prems(1) by (auto split: if_splits)
      with proc_start proc_cons.hyps show ?thesis
        by (intro exI [of _ "[]"] exI [of _ request] exI [of _ env] exI [of _ es] exI [of _ p] exI [of _ p1] exI [of _ t])
          (auto simp: resumes_def set_srv_def intro: proc_run.proc_nil)
    qed (use Some proc_cons.prems(1) in \<open>auto split: if_splits\<close>)
  qed
qed simp

lemma proc_run_store:
  "proc_run pb pe clk peer avg hosts es p p' \<Longrightarrow> store_step\<^sup>*\<^sup>* (srv_db (pr_srv p)) (srv_db (pr_srv p'))"
  by (induction rule: proc_run.induct) (auto dest: proc_step_store)

text \<open>A job of the process, from its request to its end.\<close>

lemma concurrent_job:
  assumes run: "proc_run pb pe clk peer avg hosts es (boot_process d) p" and c: "pr_cos p j = Some c" "co_pc c = Ended r"
  obtains other s now where "background other j" and "store_step\<^sup>*\<^sup>* d (srv_db s)"
    and "store_get_job j (srv_db s) = Some (started_row (co_task c) now)"
    and "task_result ((co_env c)\<lparr>ev_other := other\<rparr>) (co_task c) \<lparr>o_srv = s, o_mono = 0, o_await = 0, o_sent = []\<rparr> = Some (r, co_st c)"
    and "later_row j (o_srv (co_st c)) (pr_srv p)" and "jt_job_id (co_task c) = j" and "jt_hosts (co_task c) = hosts"
proof -
  from job_origin [OF run _ c(1)] obtain es1 request env es2 p1 p2 t where
    o: "proc_run pb pe clk peer avg hosts es1 (boot_process d) p1" "start_job hosts clk j request (pr_srv p1) = (Inr t, pr_srv p2)"
      "proc_step pb pe clk peer avg hosts (StartJob j request env) p1 p2" "pr_cos p2 j = Some (new_coroutine env t (pr_srv p2))"
      "proc_run pb pe clk peer avg hosts es2 p2 p" by (auto simp: boot_process_def)
  note wf = wf_process_step [OF o(3) wf_process_run [OF o(1) wf_boot]]
  from start_job_store [OF o(2), unfolded sum.case]
  have t: "jt_job_id t = j" "jt_hosts t = hosts" "j \<notin> set (map jr_job_id (jobs (srv_db (pr_srv p1))))"
    and jobs: "srv_db (pr_srv p2) = (srv_db (pr_srv p1))\<lparr>jobs := jobs (srv_db (pr_srv p1)) @ [started_row t (clk (srv_ticks (pr_srv p1)))]\<rparr>"
    by blast+
  have "find (\<lambda>x. jr_job_id x = j) (jobs (srv_db (pr_srv p1))) = None" using t(3) by (auto simp: find_None_iff)
  then have row: "store_get_job j (srv_db (pr_srv p2)) = Some (started_row t (clk (srv_ticks (pr_srv p1))))"
    using t(1) by (simp add: jobs store_get_job_def find_snoc started_row_def)
  have d: "store_step\<^sup>*\<^sup>* d (srv_db (pr_srv p2))"
    using proc_run_store [OF o(1)] proc_step_store [OF o(3)] by (simp add: boot_process_def)
  from same_task [OF o(5) wf o(4)] c have same: "co_task c = t" "co_env c = env" by (simp_all add: new_coroutine_def)
  from job_alone [OF o(5) wf o(4) c(1) _ c(2)] obtain s other where "later_row j (o_srv (co_st c)) (pr_srv p)"
    and s: "later_row j (pr_srv p2) s" and "background other j"
    and "coroutine_ends (env\<lparr>ev_other := other\<rparr>) t Created \<lparr>o_srv = s, o_mono = 0, o_await = 0, o_sent = []\<rparr> r (co_st c)"
    by (auto simp: new_coroutine_def)
  with t row d same show thesis
    by (intro that [of other s]) (auto simp: coroutine_iff later_row_def intro: rtranclp_trans)
qed


section \<open>How often a job is resumed\<close>

text \<open>
  The readings of \<open>time.monotonic\<close>: they never go back, and the first \<open>n\<close> are below two to the 40
  seconds. Two readings without a sleep between them may be equal.
\<close>

definition monotonic_clock :: "nat \<Rightarrow> environment \<Rightarrow> bool" where
  "monotonic_clock n env \<longleftrightarrow> 0 \<le> ev_mono env 0 \<and> (\<forall>i. ev_mono env i \<le> ev_mono env (Suc i)) \<and> (\<forall>i<n. ev_mono env i \<le> 2 ^ 40)"

text \<open>
  A coroutine that waits for its reports sleeps 0.2 seconds after its last reading of the clock;
  when it is resumed, its next reading is a tenth of a second later at least.
\<close>

definition sleep_lasts :: "coroutine \<Rightarrow> bool" where
  "sleep_lasts c \<longleftrightarrow> (case co_pc c of
     Polling k ks deadline \<Rightarrow> (case o_mono (co_st c) of 0 \<Rightarrow> True
       | Suc i \<Rightarrow> ev_mono (co_env c) i + 1/10 \<le> ev_mono (co_env c) (Suc i))
   | _ \<Rightarrow> True)"

text \<open>A run that resumes the job \<open>j\<close> after its sleeps only.\<close>

inductive paced_run :: "batch_parser \<Rightarrow> event_parser \<Rightarrow> clock \<Rightarrow> (nat \<Rightarrow> string) \<Rightarrow> (pyfloat list \<Rightarrow> pyfloat) \<Rightarrow> string list
    \<Rightarrow> string \<Rightarrow> process_event list \<Rightarrow> process \<Rightarrow> process \<Rightarrow> bool"
  for pb :: batch_parser and pe :: event_parser and clk :: clock and peer :: "nat \<Rightarrow> string"
    and avg :: "pyfloat list \<Rightarrow> pyfloat" and hosts :: "string list" and j :: string where
  paced_nil: "paced_run pb pe clk peer avg hosts j [] p p"
| paced_cons: "proc_step pb pe clk peer avg hosts e p p' \<Longrightarrow> (\<forall>c. e = ResumeJob j \<longrightarrow> pr_cos p j = Some c \<longrightarrow> sleep_lasts c) \<Longrightarrow>
    paced_run pb pe clk peer avg hosts j es p' p'' \<Longrightarrow> paced_run pb pe clk peer avg hosts j (e # es) p p''"

lemma paced_proc_run: "paced_run pb pe clk peer avg hosts j es p p' \<Longrightarrow> proc_run pb pe clk peer avg hosts es p p'"
  by (induction rule: paced_run.induct) (auto intro: proc_run.intros)

lemma clock_deadline:
  assumes "monotonic_clock n env" and "i < n"
  shows "rnd (ev_mono env i + PHASE_REPORT_TIMEOUT_S) \<le> ev_mono env (Suc i) + of_nat 302 / 10"
proof -
  have "0 \<le> ev_mono env k" for k
  proof (induction k)
    case (Suc k)
    have "ev_mono env k \<le> ev_mono env (Suc k)" using assms(1) by (simp add: monotonic_clock_def)
    with Suc show ?case by (rule order_trans)
  qed (use assms(1) in \<open>simp add: monotonic_clock_def\<close>)
  moreover have "ev_mono env i \<le> ev_mono env (Suc i)" "ev_mono env i \<le> 2 ^ 40" using assms by (simp_all add: monotonic_clock_def)
  ultimately show ?thesis using float_deadline [of "ev_mono env i"] by (simp add: PHASE_REPORT_TIMEOUT_S_def)
qed

text \<open>
  \<open>in_budget env n pc st b\<close>: of \<open>n\<close> phases, a job suspended at \<open>pc\<close> is resumed at most \<open>b\<close> times more, and has
  read the clock at most 304 times a phase. While it polls, \<open>m\<close> sleeps reach the deadline.
\<close>

fun in_budget :: "environment \<Rightarrow> nat \<Rightarrow> job_pc \<Rightarrow> orchestrator \<Rightarrow> nat \<Rightarrow> bool" where
  "in_budget env n Created st b \<longleftrightarrow> o_mono st = 0 \<and> 1 + 303 * n \<le> b"
| "in_budget env n (Gathering k ks rs) st b \<longleftrightarrow> o_mono st + 304 * (length ks + 1) \<le> 304 * n \<and> 303 * (length ks + 1) \<le> b"
| "in_budget env n (Polling k ks deadline) st b \<longleftrightarrow> (\<exists>i m. o_mono st = Suc i \<and> 0 < m \<and> Suc i + m + 304 * length ks \<le> 304 * n
     \<and> deadline \<le> ev_mono env i + of_nat m / 10 \<and> m + 303 * length ks \<le> b)"
| "in_budget env n (Ended r) st b \<longleftrightarrow> True"

lemma enter_within:
  "o_mono st + 304 * length ks \<le> 304 * n \<Longrightarrow> 303 * length ks \<le> b \<Longrightarrow> case enter_phases t ks st of (pc, st') \<Rightarrow> in_budget env n pc st' b"
  by (auto simp: enter_phases_def split: list.split sum.split)

lemma poll_within:
  assumes "Suc (o_mono st) + 304 * length ks \<le> 304 * n" and "303 * length ks \<le> b"
    and "ev_mono env (o_mono st) < deadline \<Longrightarrow> \<exists>m>0. Suc (o_mono st) + m + 304 * length ks \<le> 304 * n
      \<and> deadline \<le> ev_mono env (o_mono st) + of_nat m / 10 \<and> m + 303 * length ks \<le> b"
  shows "case poll_reports env t k ks deadline st of (pc, st') \<Rightarrow> in_budget env n pc st' b"
proof -
  have "case enter_phases t ks (tick st) of (pc, st') \<Rightarrow> in_budget env n pc st' b" using assms by (intro enter_within) simp_all
  moreover have "in_budget env n (Polling k ks deadline) (tick st) b" if "ev_mono env (o_mono st) < deadline"
    using assms(3) [OF that] by simp
  ultimately show ?thesis by (simp add: poll_reports_def Let_def)
qed

lemma resume_within:
  assumes "in_budget env n pc st (Suc b)" and "monotonic_clock (304 * n) env" and "o_mono st' = o_mono st"
    and "n = nat (jt_phase_count t)"
    and "\<And>k ks deadline i. pc = Polling k ks deadline \<Longrightarrow> o_mono st = Suc i \<Longrightarrow> ev_mono env i + 1/10 \<le> ev_mono env (Suc i)"
  shows "case resume env t pc st' of (pc', st'') \<Rightarrow> in_budget env n pc' st'' b"
proof (cases pc)
  case Created
  then show ?thesis using assms enter_within [of st' "[0..jt_phase_count t - 1]" n b] by (simp add: resume.simps)
next
  case (Gathering k ks rs)
  let ?st = "on_srv (fold (dispatch_phase env) (ev_finish env rs)) st'"
  let ?deadline = "rnd (ev_mono env (o_mono st') + PHASE_REPORT_TIMEOUT_S)"
  have budget: "o_mono st' + 304 * (length ks + 1) \<le> 304 * n" "303 * (length ks + 1) \<le> Suc b" using assms Gathering by simp_all
  then have "?deadline \<le> ev_mono env (Suc (o_mono st')) + of_nat 302 / 10"
    by (intro clock_deadline [OF assms(2)]) simp
  then have "case poll_reports env t k ks ?deadline (tick ?st) of (pc, st') \<Rightarrow> in_budget env n pc st' b"
    using budget by (intro poll_within exI [of _ 302]) (simp_all add: on_srv_def)
  then show ?thesis using Gathering by (simp add: resume.simps Let_def on_srv_def)
next
  case (Polling k ks deadline)
  then obtain i m where m: "o_mono st = Suc i" "0 < m" "Suc i + m + 304 * length ks \<le> 304 * n"
    "deadline \<le> ev_mono env i + of_nat m / 10" "m + 303 * length ks \<le> Suc b" using assms(1) by auto
  have slept: "ev_mono env i + 1/10 \<le> ev_mono env (Suc i)" using assms(5) [OF Polling m(1)] .
  have "case poll_reports env t k ks deadline st' of (pc, st') \<Rightarrow> in_budget env n pc st' b"
  proof (rule poll_within)
    show "Suc (o_mono st') + 304 * length ks \<le> 304 * n" "303 * length ks \<le> b" using m assms(3) by simp_all
    assume early: "ev_mono env (o_mono st') < deadline"
    have "of_nat m / 10 = (of_nat (m - 1) / 10 + 1/10 :: rat)" using m(2) by (cases m) (simp_all add: add_divide_distrib)
    then have next_: "deadline \<le> ev_mono env (Suc i) + of_nat (m - 1) / 10" using m(4) slept by linarith
    then have "0 < m - 1" using early assms(3) m(1) by (cases "m - 1 = 0") simp_all
    then show "\<exists>m>0. Suc (o_mono st') + m + 304 * length ks \<le> 304 * n
        \<and> deadline \<le> ev_mono env (o_mono st') + of_nat m / 10 \<and> m + 303 * length ks \<le> b"
      using m next_ assms(3) by (intro exI [of _ "m - 1"]) auto
  qed
  then show ?thesis using Polling by (simp add: resume.simps)
qed (simp add: resume.simps)

lemma within_positive: "in_budget env n pc st b \<Longrightarrow> \<not> has_ended pc \<Longrightarrow> 0 < b"
  by (cases pc) auto

text \<open>What is left to a job: nothing before it is started, then its budget.\<close>

definition left_over :: "string \<Rightarrow> nat \<Rightarrow> process \<Rightarrow> nat \<Rightarrow> bool" where
  "left_over j n p b \<longleftrightarrow> (case pr_cos p j of None \<Rightarrow> 1 + 303 * n \<le> b | Some c \<Rightarrow> in_budget (co_env c) n (co_pc c) (co_st c) b)"

lemma starting_within:
  assumes "proc_step pb pe clk peer avg hosts e p p'" and "pr_cos p j = None" and "1 + 303 * n \<le> b"
  shows "e \<noteq> ResumeJob j \<and> left_over j n p' b"
  using assms by (cases rule: proc_step.cases) (auto simp: left_over_def new_coroutine_def)

lemma resumes_within:
  assumes "paced_run pb pe clk peer avg hosts j es p p'" and "wf_process p" and "pr_cos p' j = Some c"
    and "left_over j n p b" and "monotonic_clock (304 * n) (co_env c)" and "n = nat (jt_phase_count (co_task c))"
  shows "resumes j es \<le> b"
  using assms
proof (induction arbitrary: b rule: paced_run.induct)
  case (paced_cons e p p1 es p2)
  note wf = wf_process_step [OF paced_cons.hyps(1) paced_cons.prems(1)]
  show ?case
  proof (cases "pr_cos p j")
    case None
    from starting_within [OF paced_cons.hyps(1) None] paced_cons.prems(3) None
    have "e \<noteq> ResumeJob j" "left_over j n p1 b" by (simp_all add: left_over_def)
    with paced_cons.IH [OF wf paced_cons.prems(2) _ paced_cons.prems(4,5)] show ?thesis by (simp add: resumes_def)
  next
    case (Some c0)
    then have budget: "in_budget (co_env c0) n (co_pc c0) (co_st c0) b" using paced_cons.prems(3) by (simp add: left_over_def)
    from same_task [OF proc_run.proc_cons [OF paced_cons.hyps(1) paced_proc_run [OF paced_cons.hyps(3)]] paced_cons.prems(1) Some] paced_cons.prems(2)
    have same: "co_task c = co_task c0" "co_env c = co_env c0" by simp_all
    show ?thesis
    proof (cases "e = ResumeJob j")
      case True
      let ?c1 = "run_coroutine (pr_srv p) c0"
      from resume_step [OF paced_cons.hyps(1) [unfolded True] Some]
      have live: "\<not> has_ended (co_pc c0)" and c1: "pr_cos p1 j = Some ?c1" by auto
      obtain b' where b: "b = Suc b'" using within_positive [OF budget live] gr0_implies_Suc by blast
      have mono: "o_mono (wake (pr_srv p) c0) = o_mono (co_st c0)" by (simp add: wake_def split: job_pc.split)
      have "sleep_lasts c0" using paced_cons.hyps(2) True Some by blast
      then have slept: "ev_mono (co_env c0) i + 1/10 \<le> ev_mono (co_env c0) (Suc i)"
        if "co_pc c0 = Polling k ks deadline" "o_mono (co_st c0) = Suc i" for k ks deadline i
        using that by (simp add: sleep_lasts_def)
      have "case resume (co_env c0) (co_task c0) (co_pc c0) (wake (pr_srv p) c0) of (pc', st'') \<Rightarrow> in_budget (co_env c0) n pc' st'' b'"
        by (rule resume_within [OF budget [unfolded b] _ mono]) (use paced_cons.prems(4,5) same slept in simp_all)
      then have "in_budget (co_env c0) n (co_pc ?c1) (co_st ?c1) b'" by (auto simp: run_coroutine_def split: prod.splits)
      moreover have "co_env ?c1 = co_env c0" by (simp add: run_coroutine_def split: prod.split)
      ultimately have "left_over j n p1 b'" using c1 by (simp add: left_over_def)
      from paced_cons.IH [OF wf paced_cons.prems(2) this paced_cons.prems(4,5)] show ?thesis by (simp add: b True resumes_def)
    next
      case False
      with other_step [OF paced_cons.hyps(1) False paced_cons.prems(1)] paced_cons.prems Some have "pr_cos p1 j = Some c0"
        by (auto simp: wf_process_def)
      then have "left_over j n p1 b" using budget by (simp add: left_over_def)
      from paced_cons.IH [OF wf paced_cons.prems(2) this paced_cons.prems(4,5)] False show ?thesis by (simp add: resumes_def)
    qed
  qed
qed (simp add: resumes_def)


section \<open>Two jobs at once\<close>

text \<open>
  Two jobs are started, each sends its request, the report of the first arrives, and the first
  goes on. The second is still waiting.
\<close>

definition demo_request :: start_job_request where
  "demo_request = \<lparr>sj_phase_count = 1, sj_sieve_limit = None, sj_fault = None\<rparr>"

definition demo_two_jobs :: "process_event list" where
  "demo_two_jobs = [StartJob ''j'' demo_request demo_env, StartJob ''k'' demo_request demo_env, ResumeJob ''k'',
     ResumeJob ''j'', Traffic (Connect 0), Traffic (Data 0 (demo_frame 9)), RefreshRound, ResumeJob ''j'']"

definition demo_task :: job_task where
  "demo_task = \<lparr>jt_job_id = ''j'', jt_hosts = [''a''], jt_phase_count = 1, jt_sieve_limit = None, jt_fault = None\<rparr>"

lemma demo_start:
  assumes "j \<notin> set (map jr_job_id (jobs (srv_db s)))"
  shows "start_job [''a''] demo_clock j demo_request s =
    (Inr (demo_task\<lparr>jt_job_id := j\<rparr>), s\<lparr>srv_ticks := Suc (srv_ticks s), srv_db := (srv_db s)\<lparr>jobs := jobs (srv_db s) @
       [started_row (demo_task\<lparr>jt_job_id := j\<rparr>) (demo_clock (srv_ticks s))]\<rparr>\<rparr>)"
  using assms by (simp add: start_job_def launch_job_def create_job_def store_create_job_def time_ns_def demo_request_def
      demo_task_def started_row_def)

lemma demo_first_step:
  "run_coroutine s (new_coroutine demo_env (demo_task\<lparr>jt_job_id := j\<rparr>) s0) = 
     \<lparr>co_task = demo_task\<lparr>jt_job_id := j\<rparr>, co_env = demo_env, co_pc = Gathering 0 [] [request_to None j None 0 ''a''],
      co_st = \<lparr>o_srv = s, o_mono = 0, o_await = 0, o_sent = [request_to None j None 0 ''a'']\<rparr>\<rparr>"
  by (simp add: run_coroutine_def new_coroutine_def wake_def resume.simps enter_phases_def demo_task_def fault_for_host_def
      request_to_def fault_of_def)


lemma demo_second_step:
  assumes "count_phase_reports j 0 (srv_db s) = 1"
    and "co_task c = demo_task\<lparr>jt_job_id := j\<rparr>" and "co_env c = demo_env" and "co_pc c = Gathering 0 [] [request_to None j None 0 ''a'']"
    and "o_mono (co_st c) = 0"
  shows "co_pc (run_coroutine s c) = Ended (Inr ()) \<and> count_phase_reports j 0 (srv_db (o_srv (co_st (run_coroutine s c)))) = 1"
proof -
  have "rnd 30 = 30" using rnd_of_int [of 30] by simp
  then show ?thesis using assms
    by (simp add: run_coroutine_def wake_def resume.simps poll_reports_def Let_def on_srv_def dispatch_phase_def demo_env_def
        PHASE_REPORT_TIMEOUT_S_def tick_def reports_def demo_task_def enter_phases_def finish_job_def
        count_phase_reports_def set_job_status_def)
qed

lemma demo_report:
  "drain_frames demo_pb demo_pe demo_clock ''p'' ([] @ demo_frame 9) s =
     ([], handle_all demo_pb demo_pe demo_clock [\<lparr>tag = 2, payload = [9]\<rparr>] s, None)"
  using drain_clean [OF demo_clean [of 9 "[]"], of demo_clock "''p''" s] by (simp add: decode_frame_def FRAME_HEADER_LENGTH_def)

lemma demo_report_db:
  "srv_db (handle_all demo_pb demo_pe demo_clock [\<lparr>tag = 2, payload = [9]\<rparr>] s) = insert_phase_event (event_row_of demo_event_msg) (srv_db s)"
  by (simp add: handle_frame_def handle_phase_event_def demo_pe_def FRAME_TAG_SAMPLE_BATCH_def FRAME_TAG_PHASE_EVENT_def)

lemma demo_report_counted:
  "phase_events d = [] \<Longrightarrow> count_phase_reports ''j'' 0 (insert_phase_event (event_row_of demo_event_msg) d) = 1"
  by (simp add: count_phase_reports_def insert_phase_event_def insert_event_row_def insert_or_ignore_def of_phase_def
      event_row_of_def demo_event_msg_def)

lemma refresh_nothing: "samples d = [] \<Longrightarrow> refresh_rollups avg d = (None, d)"
  by (simp add: refresh_rollups_def distinct_node_metric_pairs_def)

lemma refreshed: "p\<lparr>pr_sys := set_srv ((pr_srv p)\<lparr>srv_db := srv_db (pr_srv p)\<rparr>) (pr_sys p)\<rparr> = p"
  by (simp add: set_srv_def)

lemma demo_tail:
  assumes "sys_conns (pr_sys p) 0 = Some []" and "pr_cos p ''j'' = Some c" and "phase_events (srv_db (pr_srv p)) = []" 
    and "samples (srv_db (pr_srv p)) = []"
    and "co_task c = demo_task" and "co_env c = demo_env" and "co_pc c = Gathering 0 [] [request_to None ''j'' None 0 ''a'']"
    and "o_mono (co_st c) = 0"
  shows "\<exists>p' c'. proc_run demo_pb demo_pe demo_clock (\<lambda>_. ''p'') sum_average [''a''] 
      [Traffic (Data 0 (demo_frame 9)), RefreshRound, ResumeJob ''j''] p p'
     \<and> pr_cos p' ''j'' = Some c' \<and> co_pc c' = Ended (Inr ()) \<and> co_task c' = demo_task \<and> co_env c' = demo_env
     \<and> count_phase_reports ''j'' 0 (srv_db (o_srv (co_st c'))) = 1"
proof -
  define s1 where "s1 = handle_all demo_pb demo_pe demo_clock [\<lparr>tag = 2, payload = [9]\<rparr>] (pr_srv p)"
  define p1 where "p1 = p\<lparr>pr_sys := (pr_sys p)\<lparr>sys_srv := s1, sys_conns := (sys_conns (pr_sys p))(0 \<mapsto> [])\<rparr>\<rparr>"
  have d1: "srv_db s1 = insert_phase_event (event_row_of demo_event_msg) (srv_db (pr_srv p))" by (simp add: s1_def demo_report_db del: handle_all_simps)
  have cnt: "count_phase_reports ''j'' 0 (srv_db s1) = 1" unfolding d1 by (rule demo_report_counted [OF assms(3)])
  have none: "samples (srv_db s1) = []" using assms(4) by (simp add: d1 insert_phase_event_def)
  have st1: "proc_step demo_pb demo_pe demo_clock (\<lambda>_. ''p'') sum_average [''a''] (Traffic (Data 0 (demo_frame 9))) p p1"
    unfolding p1_def by (rule proc_traffic, rule sys_data [OF assms(1) _ demo_report [of "pr_srv p", folded s1_def]]) (simp_all add: demo_frame_def)
  have st2: "proc_step demo_pb demo_pe demo_clock (\<lambda>_. ''p'') sum_average [''a''] RefreshRound p1 p1"
    using proc_refresh [OF refresh_nothing [of "srv_db (pr_srv p1)"]] none refreshed [of p1] by (simp add: p1_def)
  define c2 where "c2 = run_coroutine s1 c"
  define p2 where "p2 = p1\<lparr>pr_sys := set_srv (o_srv (co_st c2)) (pr_sys p1), pr_cos := (pr_cos p1)(''j'' \<mapsto> c2)\<rparr>"
  have "pr_cos p1 ''j'' = Some c" "pr_srv p1 = s1" using assms(2) by (simp_all add: p1_def)
  then have "proc_step demo_pb demo_pe demo_clock (\<lambda>_. ''p'') sum_average [''a''] (ResumeJob ''j'') p1 p2"
    unfolding p2_def using assms(7) by (intro proc_resume [where c = c]) (simp_all add: c2_def)
  from proc_cons [OF st1 proc_cons [OF st2 proc_cons [OF this proc_nil]]]
  have run: "proc_run demo_pb demo_pe demo_clock (\<lambda>_. ''p'') sum_average [''a'']
      [Traffic (Data 0 (demo_frame 9)), RefreshRound, ResumeJob ''j''] p p2" .
  have "demo_task\<lparr>jt_job_id := ''j''\<rparr> = demo_task" by (simp add: demo_task_def)
  then have "co_pc c2 = Ended (Inr ()) \<and> count_phase_reports ''j'' 0 (srv_db (o_srv (co_st c2))) = 1"
    using demo_second_step [OF cnt, of c] assms(5-8) by (simp add: c2_def)
  moreover have "co_task c2 = demo_task" "co_env c2 = demo_env" using assms(5,6) by (simp_all add: c2_def)
  moreover have "pr_cos p2 ''j'' = Some c2" by (simp add: p2_def)
  ultimately show ?thesis using run by blast
qed

lemma proc_run_append:
  "proc_run pb pe clk peer avg hosts es p p' \<Longrightarrow> proc_run pb pe clk peer avg hosts es' p' p'' \<Longrightarrow>
    proc_run pb pe clk peer avg hosts (es @ es') p p''"
  by (induction rule: proc_run.induct) (auto intro: proc_run.intros)

lemma demo_head:
  obtains p c where "proc_run demo_pb demo_pe demo_clock (\<lambda>_. ''p'') sum_average [''a'']
      [StartJob ''j'' demo_request demo_env, StartJob ''k'' demo_request demo_env, ResumeJob ''k'', ResumeJob ''j'', Traffic (Connect 0)]
      (boot_process empty_db) p"
    "sys_conns (pr_sys p) 0 = Some []" "pr_cos p ''j'' = Some c" "phase_events (srv_db (pr_srv p)) = []"
    "samples (srv_db (pr_srv p)) = []" "co_task c = demo_task" "co_env c = demo_env"
    "co_pc c = Gathering 0 [] [request_to None ''j'' None 0 ''a'']" "o_mono (co_st c) = 0"
proof -
  let ?run = "proc_run demo_pb demo_pe demo_clock (\<lambda>_. ''p'') sum_average [''a'']"
  let ?t = "\<lambda>j. demo_task\<lparr>jt_job_id := j\<rparr>"
  let ?jobs = "[started_row (?t ''j'') 5000, started_row (?t ''k'') 5001]"
  let ?s = "\<lparr>srv_db = empty_db\<lparr>jobs := ?jobs\<rparr>, srv_log = [], srv_ticks = 2\<rparr>"
  let ?boot = "\<lparr>srv_db = empty_db\<lparr>jobs := [started_row (?t ''j'') 5000]\<rparr>, srv_log = [], srv_ticks = 1\<rparr>"
  let ?sys = "\<lambda>s. \<lparr>sys_srv = s, sys_conns = \<lambda>_. None\<rparr>"
  let ?c = "\<lambda>j. new_coroutine demo_env (?t j)"
  let ?d = "\<lambda>j. \<lparr>co_task = ?t j, co_env = demo_env, co_pc = Gathering 0 [] [request_to None j None 0 ''a''],
      co_st = \<lparr>o_srv = ?s, o_mono = 0, o_await = 0, o_sent = [request_to None j None 0 ''a'']\<rparr>\<rparr>"
  let ?step = "proc_step demo_pb demo_pe demo_clock (\<lambda>_. ''p'') sum_average [''a'']"
  have id: "?t ''j'' = demo_task" by (simp add: demo_task_def)
  have 1: "?step (StartJob ''j'' demo_request demo_env) (boot_process empty_db) \<lparr>pr_sys = ?sys ?boot, pr_cos = [''j'' \<mapsto> ?c ''j'' ?boot]\<rparr>"
    by (rule back_subst [where P = "?step e p" for e p, OF proc_start [OF demo_start]])
      (simp_all add: boot_process_def empty_db_def set_srv_def demo_clock_def)
  have 2: "?step (StartJob ''k'' demo_request demo_env) \<lparr>pr_sys = ?sys ?boot, pr_cos = [''j'' \<mapsto> ?c ''j'' ?boot]\<rparr>
      \<lparr>pr_sys = ?sys ?s, pr_cos = [''j'' \<mapsto> ?c ''j'' ?boot, ''k'' \<mapsto> ?c ''k'' ?s]\<rparr>"
    by (rule back_subst [where P = "?step e p" for e p, OF proc_start [OF demo_start]])
      (simp_all add: empty_db_def set_srv_def demo_clock_def started_row_def demo_task_def numeral_2_eq_2)
  have 3: "?step (ResumeJob ''k'') \<lparr>pr_sys = ?sys ?s, pr_cos = [''j'' \<mapsto> ?c ''j'' ?boot, ''k'' \<mapsto> ?c ''k'' ?s]\<rparr>
      \<lparr>pr_sys = ?sys ?s, pr_cos = [''j'' \<mapsto> ?c ''j'' ?boot, ''k'' \<mapsto> ?d ''k'']\<rparr>"
    by (rule back_subst [where P = "?step e p" for e p, OF proc_resume [where c = "?c ''k'' ?s", OF _ _ demo_first_step]])
      (simp_all add: set_srv_def, simp add: new_coroutine_def)
  have 4: "?step (ResumeJob ''j'') \<lparr>pr_sys = ?sys ?s, pr_cos = [''j'' \<mapsto> ?c ''j'' ?boot, ''k'' \<mapsto> ?d ''k'']\<rparr>
      \<lparr>pr_sys = ?sys ?s, pr_cos = [''j'' \<mapsto> ?d ''j'', ''k'' \<mapsto> ?d ''k'']\<rparr>"
    by (rule back_subst [where P = "?step e p" for e p, OF proc_resume [where c = "?c ''j'' ?boot", OF _ _ demo_first_step]])
      (simp_all add: set_srv_def fun_eq_iff new_coroutine_def)
  let ?p = "\<lparr>pr_sys = ?sys ?s, pr_cos = [''j'' \<mapsto> ?d ''j'', ''k'' \<mapsto> ?d ''k'']\<rparr>"
  obtain sys' where sys': "sys_step demo_pb demo_pe demo_clock (\<lambda>_. ''p'') (Connect 0) (pr_sys ?p) sys'"
    "sys_conns sys' 0 = Some []" "srv_db (sys_srv sys') = srv_db ?s"
    using sys_connect [of "pr_sys ?p" 0] by fastforce
  have 5: "?step (Traffic (Connect 0)) ?p (?p\<lparr>pr_sys := sys'\<rparr>)" by (rule proc_traffic [OF sys'(1)]) simp
  show thesis
    by (rule that [OF proc_cons [OF 1 proc_cons [OF 2 proc_cons [OF 3 proc_cons [OF 4 proc_cons [OF 5 proc_nil]]]]], of "?d ''j''"])
      (simp_all add: id sys' empty_db_def)
qed

lemma demo_two_jobs_run:
  "\<exists>p c. proc_run demo_pb demo_pe demo_clock (\<lambda>_. ''p'') sum_average [''a''] demo_two_jobs (boot_process empty_db) p
     \<and> pr_cos p ''j'' = Some c \<and> co_pc c = Ended (Inr ()) \<and> co_task c = demo_task \<and> co_env c = demo_env
     \<and> count_phase_reports ''j'' 0 (srv_db (o_srv (co_st c))) = 1"
proof (rule demo_head)
  fix p c
  assume head: "proc_run demo_pb demo_pe demo_clock (\<lambda>_. ''p'') sum_average [''a'']
      [StartJob ''j'' demo_request demo_env, StartJob ''k'' demo_request demo_env, ResumeJob ''k'', ResumeJob ''j'', Traffic (Connect 0)]
      (boot_process empty_db) p"
    "sys_conns (pr_sys p) 0 = Some []" "pr_cos p ''j'' = Some c" "phase_events (srv_db (pr_srv p)) = []"
    "samples (srv_db (pr_srv p)) = []" "co_task c = demo_task" "co_env c = demo_env"
    "co_pc c = Gathering 0 [] [request_to None ''j'' None 0 ''a'']" "o_mono (co_st c) = 0"
  from demo_tail [OF head(2-9)] show ?thesis
    unfolding demo_two_jobs_def
    by (elim exE conjE, intro exI conjI) (rule proc_run_append [OF head(1), unfolded append.simps], assumption+)
qed

section \<open>Properties of concurrent jobs\<close>

text \<open>
  C2. Refinement of concurrent jobs by jobs alone. Whatever runs in the process, in whatever
  order (connections of agents, rounds of the refresh, requests, the steps of other jobs), a job
  that has ended did what \<open>execute_job\<close> does alone: from a state of the store in which its row has
  just been created, with the same result, requests and final state, in some environment whose
  other tasks only call the store and never touch the row of the job. And after its end its row
  stays as it left it.
\<close>

theorem concurrent_job_alone:
  assumes "proc_run pb pe clk peer avg hosts es (boot_process d) p"
    and "pr_cos p j = Some c" and "co_pc c = Ended r"
  shows "\<exists>other s now. (\<forall>k x. store_step\<^sup>*\<^sup>* (srv_db x) (srv_db (other k x)) \<and> store_get_job j (srv_db (other k x)) = store_get_job j (srv_db x))
     \<and> store_step\<^sup>*\<^sup>* d (srv_db s) \<and> store_get_job j (srv_db s) = Some (started_row (co_task c) now)
     \<and> execute_job ((co_env c)\<lparr>ev_other := other\<rparr>) j hosts (jt_phase_count (co_task c)) (jt_sieve_limit (co_task c)) (jt_fault (co_task c))
         \<lparr>o_srv = s, o_mono = 0, o_await = 0, o_sent = []\<rparr> = Some (r, co_st c)
     \<and> store_step\<^sup>*\<^sup>* (srv_db (o_srv (co_st c))) (srv_db (pr_srv p))
     \<and> store_get_job j (srv_db (pr_srv p)) = store_get_job j (srv_db (o_srv (co_st c)))"
proof -
  obtain other s now where "background other j" "store_step\<^sup>*\<^sup>* d (srv_db s)"
    "store_get_job j (srv_db s) = Some (started_row (co_task c) now)" "later_row j (o_srv (co_st c)) (pr_srv p)"
    "task_result ((co_env c)\<lparr>ev_other := other\<rparr>) (co_task c) \<lparr>o_srv = s, o_mono = 0, o_await = 0, o_sent = []\<rparr> = Some (r, co_st c)"
    "jt_job_id (co_task c) = j" "jt_hosts (co_task c) = hosts" by (rule concurrent_job [OF assms])
  then show ?thesis by (intro exI [of _ other] exI [of _ s] exI [of _ now]) (simp add: task_result_def later_row_def background_def)
qed

theorem concurrent_job_alone_witness:
  "\<exists>other s. (\<forall>k x. store_get_job ''j'' (srv_db (other k x)) = store_get_job ''j'' (srv_db x))
     \<and> (\<exists>st'. execute_job (demo_env\<lparr>ev_other := other\<rparr>) ''j'' [''a''] 1 None None \<lparr>o_srv = s, o_mono = 0, o_await = 0, o_sent = []\<rparr>
          = Some (Inr (), st'))"
proof -
  from demo_two_jobs_run obtain p c where
    "proc_run demo_pb demo_pe demo_clock (\<lambda>_. ''p'') sum_average [''a''] demo_two_jobs (boot_process empty_db) p"
    "pr_cos p ''j'' = Some c" "co_pc c = Ended (Inr ())" and c: "co_task c = demo_task" "co_env c = demo_env"
    by (elim exE conjE) (rule that)
  from concurrent_job_alone [OF this(1-3)] show ?thesis
    unfolding c demo_task_def job_task.select_convs by (elim exE conjE, intro exI conjI) (rule allI, rule allI, elim allE conjE, assumption)
qed

text \<open>
  C3. The verdict of every job of the process, whatever the others do: a job that ended without an
  exception has sent the requests of a prefix of its phases, in order, one to each host, and
  nothing else. Its row, at any later time, is the row of its creation with the status
  \<open>completed\<close> exactly when every phase had as many reports as there are hosts when it ended;
  otherwise the status is \<open>timed_out\<close> and the last phase dispatched lacked reports.
\<close>

theorem concurrent_job_verdict:
  assumes "proc_run pb pe clk peer avg hosts es (boot_process d) p"
    and "pr_cos p j = Some c" and "co_pc c = Ended (Inr ())"
  shows "\<exists>m \<le> nat (jt_phase_count (co_task c)). \<exists>now.
      o_sent (co_st c) = concat (map (\<lambda>k. map (request_to (jt_fault (co_task c)) j (jt_sieve_limit (co_task c)) k) hosts) [0..int m - 1])
    \<and> (if \<forall>k\<in>{0..<jt_phase_count (co_task c)}. length hosts \<le> count_phase_reports j k (srv_db (o_srv (co_st c)))
       then m = nat (jt_phase_count (co_task c))
         \<and> store_get_job j (srv_db (pr_srv p)) = Some ((started_row (co_task c) now)\<lparr>jr_status := ''completed''\<rparr>)
       else 0 < m \<and> count_phase_reports j (int m - 1) (srv_db (o_srv (co_st c))) < length hosts
         \<and> store_get_job j (srv_db (pr_srv p)) = Some ((started_row (co_task c) now)\<lparr>jr_status := ''timed_out''\<rparr>))"
proof -
  obtain other s now where b: "background other j"
    and s: "store_get_job j (srv_db s) = Some (started_row (co_task c) now)" and l: "later_row j (o_srv (co_st c)) (pr_srv p)"
    and r: "task_result ((co_env c)\<lparr>ev_other := other\<rparr>) (co_task c) \<lparr>o_srv = s, o_mono = 0, o_await = 0, o_sent = []\<rparr> = Some (Inr (), co_st c)"
    and t: "jt_job_id (co_task c) = j" "jt_hosts (co_task c) = hosts" by (rule concurrent_job [OF assms])
  have row: "store_get_job j (srv_db (pr_srv p)) = store_get_job j (srv_db (o_srv (co_st c)))" using l by (simp add: later_row_def)
  have "store_step\<^sup>*\<^sup>* (srv_db x) (srv_db (ev_other ((co_env c)\<lparr>ev_other := other\<rparr>) k x))"
    "store_get_job j (srv_db (ev_other ((co_env c)\<lparr>ev_other := other\<rparr>) k x)) = store_get_job j (srv_db x)" for k x
    by (simp_all add: background.grows [OF b] background.keeps_job [OF b])
  from job_verdict [OF this r [unfolded task_result_def t], unfolded orchestrator.select_convs append_Nil, OF s] show ?thesis
    unfolding row by (elim exE conjE, intro exI conjI)
qed

theorem concurrent_job_verdict_witness:
  "\<exists>p now. proc_run demo_pb demo_pe demo_clock (\<lambda>_. ''p'') sum_average [''a''] demo_two_jobs (boot_process empty_db) p
     \<and> store_get_job ''j'' (srv_db (pr_srv p)) = Some ((started_row demo_task now)\<lparr>jr_status := ''completed''\<rparr>)"
proof -
  from demo_two_jobs_run obtain p c where
    run: "proc_run demo_pb demo_pe demo_clock (\<lambda>_. ''p'') sum_average [''a''] demo_two_jobs (boot_process empty_db) p"
    "pr_cos p ''j'' = Some c" "co_pc c = Ended (Inr ())" and c: "co_task c = demo_task" "co_env c = demo_env"
    and n: "count_phase_reports ''j'' 0 (srv_db (o_srv (co_st c))) = 1"
    by (elim exE conjE) (rule that)
  have "\<forall>k\<in>{0..<jt_phase_count (co_task c)}. length [''a''] \<le> count_phase_reports ''j'' k (srv_db (o_srv (co_st c)))"
  proof
    fix k
    assume "k \<in> {0..<jt_phase_count (co_task c)}"
    then have "k = 0" by (simp add: c demo_task_def)
    then show "length [''a''] \<le> count_phase_reports ''j'' k (srv_db (o_srv (co_st c)))" using n by simp
  qed
  from concurrent_job_verdict [OF run, unfolded if_P [OF this], unfolded c] run(1) show ?thesis
    by (elim exE conjE, intro exI conjI)
qed

text \<open>
  C4. Every job ends, whatever else runs in the process. When its clock never goes back and stays below
  two to the 40 seconds, and every sleep of 0.2 seconds between two polls lasts a tenth of a second at
  least, no run resumes a job of \<open>n\<close> phases more than \<open>1 + 303 n\<close> times; the two readings with no
  sleep between them may be equal. A job that has not ended can be resumed at any time.
\<close>

theorem job_ends_within:
  assumes "paced_run pb pe clk peer avg hosts j es (boot_process d) p" and "pr_cos p j = Some c"
    and "monotonic_clock (304 * nat (jt_phase_count (co_task c))) (co_env c)"
  shows "resumes j es \<le> 1 + 303 * nat (jt_phase_count (co_task c))
     \<and> (has_ended (co_pc c) \<or> (\<exists>p'. proc_step pb pe clk peer avg hosts (ResumeJob j) p p'))"
proof -
  have "left_over j (nat (jt_phase_count (co_task c))) (boot_process d) (1 + 303 * nat (jt_phase_count (co_task c)))"
    by (simp add: left_over_def boot_process_def)
  from resumes_within [OF assms(1) wf_boot assms(2) this assms(3) refl]
  have "resumes j es \<le> 1 + 303 * nat (jt_phase_count (co_task c))" .
  moreover have "\<exists>p'. proc_step pb pe clk peer avg hosts (ResumeJob j) p p'" if "\<not> has_ended (co_pc c)"
    using proc_resume [OF assms(2) that refl] by blast
  ultimately show ?thesis by blast
qed

text \<open>
  A clock as a job of one phase reads it: twice at once for the deadline and the first poll, then
  after every sleep.
\<close>

definition slept_env :: environment where
  "slept_env = demo_env\<lparr>ev_mono := \<lambda>i. of_nat (i - 1) / 5\<rparr>"

lemma slept_first_step:
  "run_coroutine s (new_coroutine slept_env demo_task s0) =
     \<lparr>co_task = demo_task, co_env = slept_env, co_pc = Gathering 0 [] [request_to None ''j'' None 0 ''a''],
      co_st = \<lparr>o_srv = s, o_mono = 0, o_await = 0, o_sent = [request_to None ''j'' None 0 ''a'']\<rparr>\<rparr>"
  by (simp add: run_coroutine_def new_coroutine_def wake_def resume.simps enter_phases_def demo_task_def fault_for_host_def
      request_to_def fault_of_def)

lemma slept_next_step:
  assumes "co_task c = demo_task" and "co_env c = slept_env" and "phase_events (srv_db s) = []"
    and "co_pc c = Gathering 0 [] [request_to None ''j'' None 0 ''a''] \<and> o_mono (co_st c) = 0 \<or> co_pc c = Polling 0 [] 30 \<and> o_mono (co_st c) = 2"
  shows "co_pc (run_coroutine s c) = Polling 0 [] 30 \<and> o_mono (co_st (run_coroutine s c)) = (if o_mono (co_st c) = 0 then 2 else 3)
    \<and> phase_events (srv_db (o_srv (co_st (run_coroutine s c)))) = []
    \<and> co_task (run_coroutine s c) = demo_task \<and> co_env (run_coroutine s c) = slept_env \<and> sleep_lasts c"
proof -
  have "rnd 30 = 30" using rnd_of_int [of 30] by simp
  then show ?thesis using assms
    by (auto simp: run_coroutine_def wake_def resume.simps poll_reports_def Let_def on_srv_def dispatch_phase_def slept_env_def
        demo_env_def PHASE_REPORT_TIMEOUT_S_def tick_def reports_def demo_task_def count_phase_reports_def sleep_lasts_def)
qed

lemma slept_resume:
  assumes "pr_cos p ''j'' = Some c" and "co_task c = demo_task" and "co_env c = slept_env" and "phase_events (srv_db (pr_srv p)) = []"
    and "co_pc c = Gathering 0 [] [request_to None ''j'' None 0 ''a''] \<and> o_mono (co_st c) = 0 \<or> co_pc c = Polling 0 [] 30 \<and> o_mono (co_st c) = 2"
  obtains p' c' where "proc_step demo_pb demo_pe demo_clock (\<lambda>_. ''p'') sum_average [''a''] (ResumeJob ''j'') p p'" and "sleep_lasts c"
    and "pr_cos p' ''j'' = Some c'" and "co_task c' = demo_task" and "co_env c' = slept_env" and "phase_events (srv_db (pr_srv p')) = []"
    and "co_pc c' = Polling 0 [] 30" and "o_mono (co_st c') = (if o_mono (co_st c) = 0 then 2 else 3)"
proof -
  from slept_next_step [OF assms(2-5)] have next_:
    "co_pc (run_coroutine (pr_srv p) c) = Polling 0 [] 30" "o_mono (co_st (run_coroutine (pr_srv p) c)) = (if o_mono (co_st c) = 0 then 2 else 3)"
    "phase_events (srv_db (o_srv (co_st (run_coroutine (pr_srv p) c)))) = []"
    "co_task (run_coroutine (pr_srv p) c) = demo_task" "co_env (run_coroutine (pr_srv p) c) = slept_env" "sleep_lasts c" by blast+
  have "\<not> has_ended (co_pc c)" using assms(5) by auto
  from proc_resume [OF assms(1) this refl] show thesis by (rule that) (use next_ in \<open>simp_all add: set_srv_def\<close>)
qed

lemma slept_run:
  obtains p c where "paced_run demo_pb demo_pe demo_clock (\<lambda>_. ''p'') sum_average [''a''] ''j''
      [StartJob ''j'' demo_request slept_env, ResumeJob ''j'', ResumeJob ''j'', ResumeJob ''j''] (boot_process empty_db) p"
    and "pr_cos p ''j'' = Some c" and "co_task c = demo_task" and "co_env c = slept_env"
proof -
  let ?step = "proc_step demo_pb demo_pe demo_clock (\<lambda>_. ''p'') sum_average [''a'']"
  have task: "demo_task\<lparr>jt_job_id := ''j''\<rparr> = demo_task" by (simp add: demo_task_def)
  have "''j'' \<notin> set (map jr_job_id (jobs (srv_db (pr_srv (boot_process empty_db)))))" by (simp add: boot_process_def empty_db_def)
  from demo_start [OF this] obtain s where s: "start_job [''a''] demo_clock ''j'' demo_request (pr_srv (boot_process empty_db)) = (Inr demo_task, s)"
    "phase_events (srv_db s) = []" by (simp add: task boot_process_def empty_db_def)
  obtain p1 where p1: "?step (StartJob ''j'' demo_request slept_env) (boot_process empty_db) p1"
    "pr_cos p1 ''j'' = Some (new_coroutine slept_env demo_task s)" "pr_srv p1 = s"
    using proc_start [OF s(1)] by (fastforce simp: set_srv_def)
  have "\<not> has_ended (co_pc (new_coroutine slept_env demo_task s))" by (simp add: new_coroutine_def)
  from proc_resume [OF p1(2) this refl] obtain p2 where p2: "?step (ResumeJob ''j'') p1 p2"
    "pr_cos p2 ''j'' = Some (run_coroutine s (new_coroutine slept_env demo_task s))" "pr_srv p2 = s"
    by (simp add: p1(3) slept_first_step) (fastforce simp: set_srv_def)
  obtain p3 c3 where p3: "?step (ResumeJob ''j'') p2 p3" "pr_cos p3 ''j'' = Some c3" "co_task c3 = demo_task" "co_env c3 = slept_env"
      "phase_events (srv_db (pr_srv p3)) = []" "co_pc c3 = Polling 0 [] 30" "o_mono (co_st c3) = 2"
    using s(2) by (rule_tac slept_resume [OF p2(2)]) (simp_all add: p2(3) slept_first_step)
  obtain p4 c4 where p4: "?step (ResumeJob ''j'') p3 p4" "sleep_lasts c3" "pr_cos p4 ''j'' = Some c4" "co_task c4 = demo_task" "co_env c4 = slept_env"
    using p3 by (rule_tac slept_resume [OF p3(2-5)]) simp_all
  have slept: "sleep_lasts (new_coroutine slept_env demo_task s)" "sleep_lasts (run_coroutine s (new_coroutine slept_env demo_task s))"
    by (simp_all add: sleep_lasts_def new_coroutine_def slept_first_step [unfolded new_coroutine_def])
  have "paced_run demo_pb demo_pe demo_clock (\<lambda>_. ''p'') sum_average [''a''] ''j''
      [StartJob ''j'' demo_request slept_env, ResumeJob ''j'', ResumeJob ''j'', ResumeJob ''j''] (boot_process empty_db) p4"
    by (intro paced_cons [OF p1(1)] paced_cons [OF p2(1)] paced_cons [OF p3(1)] paced_cons [OF p4(1)] paced_nil)
      (use slept p1(2) p2(2) p3(2) p4(2) in simp_all)
  then show thesis using p4(3-5) by (rule that)
qed

theorem job_ends_within_witness:
  "\<exists>p. paced_run demo_pb demo_pe demo_clock (\<lambda>_. ''p'') sum_average [''a''] ''j''
       [StartJob ''j'' demo_request slept_env, ResumeJob ''j'', ResumeJob ''j'', ResumeJob ''j''] (boot_process empty_db) p
     \<and> resumes ''j'' [StartJob ''j'' demo_request slept_env, ResumeJob ''j'', ResumeJob ''j'', ResumeJob ''j''] \<le> 304"
proof -
  obtain p c where run: "paced_run demo_pb demo_pe demo_clock (\<lambda>_. ''p'') sum_average [''a''] ''j''
      [StartJob ''j'' demo_request slept_env, ResumeJob ''j'', ResumeJob ''j'', ResumeJob ''j''] (boot_process empty_db) p"
    "pr_cos p ''j'' = Some c" and c: "co_task c = demo_task" "co_env c = slept_env" by (rule slept_run)
  have "(of_nat (i - 1) / 5 :: rat) \<le> 2 ^ 40" if "i < 304" for i
  proof -
    have "(of_nat (i - 1) :: rat) \<le> of_nat 304" using that by (subst of_nat_le_iff) simp
    then show ?thesis by simp
  qed
  moreover have "(of_nat (i - 1) / 5 :: rat) \<le> of_nat (Suc i - 1) / 5" for i by (intro divide_right_mono) simp_all
  ultimately have "monotonic_clock (304 * nat (jt_phase_count (co_task c))) (co_env c)"
    unfolding monotonic_clock_def c by (simp add: demo_task_def slept_env_def)
  from job_ends_within [OF run this] run(1) show ?thesis by (intro exI [of _ p]) (simp add: c demo_task_def)
qed

end
