(* ===== verification/Service.thy ===== *)
theory Service
  imports Process
begin

text \<open>
  The life of the service: \<open>lifespan\<close> and \<open>_refresh_rollups_periodically\<close> of \<open>api.py\<close>, \<open>run_tcp_server\<close> of
  \<open>ingest_server.py\<close>, and the opening and closing of the store, around the process of \<open>Process\<close>.
  A service is serving, closing (the \<open>finally\<close> block waits in \<open>wait_closed\<close>) or closed (the store is
  closed, and the event loop still runs the tasks that are left until it is cancelled).
\<close>

section \<open>The stages of the service\<close>

datatype stage = Serving | Closing | Closed

text \<open>The task of the refresh: asleep or at work, ended by an exception, cancelled.\<close>

datatype refresh_task = Alive | Died | Cancelled

text \<open>Who called a method of the store after it was closed.\<close>

datatype store_user = Handler nat | Refresh | JobTask string

record service_state =
  svc_proc :: process
  svc_stage :: stage
  svc_refresh :: refresh_task
  svc_misuses :: "store_user list"

abbreviation svc_srv :: "service_state \<Rightarrow> server" where
  "svc_srv v \<equiv> pr_srv (svc_proc v)"

abbreviation svc_db :: "service_state \<Rightarrow> db" where
  "svc_db v \<equiv> srv_db (svc_srv v)"

abbreviation open_conns :: "service_state \<Rightarrow> nat \<Rightarrow> bytes option" where
  "open_conns v \<equiv> sys_conns (pr_sys (svc_proc v))"

text \<open>
  The constructor of \<open>TSDBStore\<close> on a database file or none: its statements create the tables and the index that are
  missing, and leave the others.
\<close>

definition open_store :: "db option \<Rightarrow> db" where
  "open_store file = (case file of None \<Rightarrow> empty_db | Some d \<Rightarrow> d)"

text \<open>The first half of \<open>lifespan\<close>: without the port there is no service.\<close>

definition start_service :: "bool \<Rightarrow> db option \<Rightarrow> service_state option" where
  "start_service port_free file = (if port_free
     then Some \<lparr>svc_proc = boot_process (open_store file), svc_stage = Serving, svc_refresh = Alive, svc_misuses = []\<rparr> else None)"

text \<open>\<open>rollup_task.cancel()\<close>: a task that has ended stays as it is.\<close>

definition cancel_refresh :: "refresh_task \<Rightarrow> refresh_task" where
  "cancel_refresh t = (if t = Alive then Cancelled else t)"

text \<open>The \<open>finally\<close> block up to its await, and after it.\<close>

definition begin_shutdown :: "service_state \<Rightarrow> service_state" where
  "begin_shutdown v = v\<lparr>svc_refresh := cancel_refresh (svc_refresh v), svc_stage := Closing\<rparr>"

definition close_store :: "service_state \<Rightarrow> service_state" where
  "close_store v = v\<lparr>svc_stage := Closed\<rparr>"

text \<open>A round of the refresh; an exception ends the task.\<close>

definition refresh_round :: "(pyfloat list \<Rightarrow> pyfloat) \<Rightarrow> service_state \<Rightarrow> service_state" where
  "refresh_round avg v = (case refresh_rollups avg (svc_db v) of (e, d) \<Rightarrow>
     v\<lparr>svc_proc := (svc_proc v)\<lparr>pr_sys := set_srv ((svc_srv v)\<lparr>srv_db := d\<rparr>) (pr_sys (svc_proc v))\<rparr>,
       svc_refresh := (if e = None then Alive else Died)\<rparr>)"

text \<open>Does the next step of a job call the store?\<close>

fun uses_store :: "environment \<Rightarrow> job_task \<Rightarrow> job_pc \<Rightarrow> bool" where
  "uses_store env t Created \<longleftrightarrow> jt_phase_count t < 1"
| "uses_store env t (Gathering k ks rs) \<longleftrightarrow> \<not> (\<exists>r\<in>set rs. ev_post env r = OtherError)"
| "uses_store env t (Polling k ks deadline) \<longleftrightarrow> True"
| "uses_store env t (Ended r) \<longleftrightarrow> False"

text \<open>
  The steps. \<open>close()\<close> of the server stops new connections and leaves the open ones; \<open>wait_closed\<close> returns
  when the last of them has ended. A call of the closed store raises \<open>ProgrammingError\<close> out of the task that makes it.
\<close>

datatype service_event = Step process_event | Shutdown | CloseStore

inductive svc_step :: "batch_parser \<Rightarrow> event_parser \<Rightarrow> clock \<Rightarrow> (nat \<Rightarrow> string) \<Rightarrow> (pyfloat list \<Rightarrow> pyfloat) \<Rightarrow> string list
    \<Rightarrow> service_event \<Rightarrow> service_state \<Rightarrow> service_state \<Rightarrow> bool"
  for pb :: batch_parser and pe :: event_parser and clk :: clock and peer :: "nat \<Rightarrow> string"
    and avg :: "pyfloat list \<Rightarrow> pyfloat" and hosts :: "string list" where
  svc_connect: "svc_stage v = Serving \<Longrightarrow> proc_step pb pe clk peer avg hosts (Traffic (Connect i)) (svc_proc v) p \<Longrightarrow>
    svc_step pb pe clk peer avg hosts (Step (Traffic (Connect i))) v (v\<lparr>svc_proc := p\<rparr>)"
| svc_traffic: "svc_stage v \<noteq> Closed \<Longrightarrow> \<forall>i. e \<noteq> Connect i \<Longrightarrow> proc_step pb pe clk peer avg hosts (Traffic e) (svc_proc v) p \<Longrightarrow>
    svc_step pb pe clk peer avg hosts (Step (Traffic e)) v (v\<lparr>svc_proc := p\<rparr>)"
| svc_late_data: "svc_stage v = Closed \<Longrightarrow> open_conns v i = Some b \<Longrightarrow>
    svc_step pb pe clk peer avg hosts (Step (Traffic (Data i c))) v (v\<lparr>svc_misuses := svc_misuses v @ [Handler i]\<rparr>)"
| svc_request: "svc_stage v = Serving \<Longrightarrow> proc_step pb pe clk peer avg hosts (StartJob j request env) (svc_proc v) p \<Longrightarrow>
    svc_step pb pe clk peer avg hosts (Step (StartJob j request env)) v (v\<lparr>svc_proc := p\<rparr>)"
| svc_refresh_round: "svc_stage v \<noteq> Closed \<Longrightarrow> svc_refresh v = Alive \<Longrightarrow>
    svc_step pb pe clk peer avg hosts (Step RefreshRound) v (refresh_round avg v)"
| svc_late_refresh: "svc_stage v = Closed \<Longrightarrow> svc_refresh v = Alive \<Longrightarrow>
    svc_step pb pe clk peer avg hosts (Step RefreshRound) v (v\<lparr>svc_refresh := Died, svc_misuses := svc_misuses v @ [Refresh]\<rparr>)"
| svc_job: "pr_cos (svc_proc v) j = Some c \<Longrightarrow> svc_stage v \<noteq> Closed \<or> \<not> uses_store (co_env c) (co_task c) (co_pc c) \<Longrightarrow>
    proc_step pb pe clk peer avg hosts (ResumeJob j) (svc_proc v) p \<Longrightarrow>
    svc_step pb pe clk peer avg hosts (Step (ResumeJob j)) v (v\<lparr>svc_proc := p\<rparr>)"
| svc_late_job: "svc_stage v = Closed \<Longrightarrow> pr_cos (svc_proc v) j = Some c \<Longrightarrow> uses_store (co_env c) (co_task c) (co_pc c) \<Longrightarrow>
    svc_step pb pe clk peer avg hosts (Step (ResumeJob j)) v
      (v\<lparr>svc_proc := (svc_proc v)\<lparr>pr_cos := (pr_cos (svc_proc v))(j := None)\<rparr>, svc_misuses := svc_misuses v @ [JobTask j]\<rparr>)"
| svc_shutdown: "svc_stage v = Serving \<Longrightarrow> svc_step pb pe clk peer avg hosts Shutdown v (begin_shutdown v)"
| svc_close: "svc_stage v = Closing \<Longrightarrow> \<forall>i. open_conns v i = None \<Longrightarrow>
    svc_step pb pe clk peer avg hosts CloseStore v (close_store v)"

inductive svc_run :: "batch_parser \<Rightarrow> event_parser \<Rightarrow> clock \<Rightarrow> (nat \<Rightarrow> string) \<Rightarrow> (pyfloat list \<Rightarrow> pyfloat) \<Rightarrow> string list
    \<Rightarrow> service_event list \<Rightarrow> service_state \<Rightarrow> service_state \<Rightarrow> bool"
  for pb :: batch_parser and pe :: event_parser and clk :: clock and peer :: "nat \<Rightarrow> string"
    and avg :: "pyfloat list \<Rightarrow> pyfloat" and hosts :: "string list" where
  svc_nil: "svc_run pb pe clk peer avg hosts [] v v"
| svc_cons: "svc_step pb pe clk peer avg hosts e v v' \<Longrightarrow> svc_run pb pe clk peer avg hosts es v' v'' \<Longrightarrow>
    svc_run pb pe clk peer avg hosts (e # es) v v''"


section \<open>What the service keeps\<close>

lemma svc_step_proc:
  assumes "svc_step pb pe clk peer avg hosts e v v'"
  obtains (process) pr where "e = Step pr" and "proc_step pb pe clk peer avg hosts pr (svc_proc v) (svc_proc v')"
  | (same) "svc_proc v' = svc_proc v"
  | (crash) j where "svc_proc v' = (svc_proc v)\<lparr>pr_cos := (pr_cos (svc_proc v))(j := None)\<rparr>"
  using assms
proof cases
  case svc_refresh_round
  obtain err d where r: "refresh_rollups avg (svc_db v) = (err, d)" by fastforce
  show ?thesis
    by (rule process [of RefreshRound]) (use svc_refresh_round r proc_refresh [OF r, of pb pe clk peer hosts] in \<open>simp_all add: refresh_round_def\<close>)
qed (auto simp: begin_shutdown_def close_store_def intro: that)

lemma wf_crash: "wf_process p \<Longrightarrow> wf_process (p\<lparr>pr_cos := (pr_cos p)(j := None)\<rparr>)"
  by (simp add: wf_process_def)

lemma svc_step_wf:
  assumes "svc_step pb pe clk peer avg hosts e v v'" and "wf_process (svc_proc v)"
  shows "wf_process (svc_proc v')"
  using assms(1) by (cases rule: svc_step_proc) (use assms(2) in \<open>auto intro: wf_process_step wf_crash\<close>)

lemma svc_step_store:
  assumes "svc_step pb pe clk peer avg hosts e v v'"
  shows "store_step\<^sup>*\<^sup>* (svc_db v) (svc_db v')"
  using assms by (cases rule: svc_step_proc) (auto dest: proc_step_store)

text \<open>The next step of a job that does not call the store leaves it as it is.\<close>

lemma resume_no_store:
  assumes "\<not> uses_store env t pc"
  shows "srv_db (o_srv (snd (resume env t pc st))) = srv_db (o_srv st)"
proof (cases pc)
  case Created
  then have "[0..jt_phase_count t - 1] \<noteq> []" using assms by simp
  then show ?thesis using Created by (auto simp: resume.simps enter_phases_def split: list.split sum.split)
next
  case (Gathering k ks rs)
  then have "\<exists>r\<in>set rs. ev_post env r = OtherError" using assms by simp
  then show ?thesis using Gathering by (simp add: resume.simps Let_def on_srv_def)
qed (use assms in \<open>simp_all add: resume.simps\<close>)

text \<open>
  The invariant of the life cycle: once the shutdown has begun the refresh does not run, and when the store is
  closed no connection is open, and only jobs may have called it.
\<close>

definition lifecycle_ok :: "service_state \<Rightarrow> bool" where
  "lifecycle_ok v \<longleftrightarrow> (svc_stage v \<noteq> Serving \<longrightarrow> svc_refresh v \<noteq> Alive)
     \<and> (svc_stage v = Closed \<longrightarrow> (\<forall>i. open_conns v i = None))
     \<and> (svc_stage v \<noteq> Closed \<longrightarrow> svc_misuses v = []) \<and> (\<forall>u\<in>set (svc_misuses v). \<exists>j. u = JobTask j)"

lemma resume_conns:
  assumes "proc_step pb pe clk peer avg hosts (ResumeJob j) p p'"
  shows "sys_conns (pr_sys p') = sys_conns (pr_sys p)"
  using assms by cases (simp add: set_srv_def)

lemma svc_step_lifecycle:
  assumes "svc_step pb pe clk peer avg hosts e v v'" and "lifecycle_ok v"
  shows "lifecycle_ok v'"
  using assms
proof cases
  case (svc_job j c p)
  then show ?thesis using assms(2) resume_conns [OF svc_job(5)] by (auto simp: lifecycle_ok_def)
next
  case svc_refresh_round
  then show ?thesis using assms(2) by (auto simp: lifecycle_ok_def refresh_round_def split: prod.split)
qed (auto simp: lifecycle_ok_def begin_shutdown_def cancel_refresh_def close_store_def)

lemma closed_step:
  assumes "svc_step pb pe clk peer avg hosts e v v'" and "svc_stage v = Closed"
  shows "svc_stage v' = Closed \<and> svc_db v' = svc_db v"
  using assms
proof cases
  case (svc_job j c p)
  then have "\<not> uses_store (co_env c) (co_task c) (co_pc c)" using assms(2) by simp
  from resume_no_store [OF this, of "wake (svc_srv v) c"]
  have "srv_db (o_srv (co_st (run_coroutine (svc_srv v) c))) = svc_db v"
    by (cases "resume (co_env c) (co_task c) (co_pc c) (wake (svc_srv v) c)") (simp add: run_coroutine_def)
  then show ?thesis using svc_job assms(2) resume_step [OF svc_job(5,3)] by (simp add: set_srv_def)
qed (simp_all add: begin_shutdown_def)

lemma closed_run:
  assumes "svc_run pb pe clk peer avg hosts es v v'" and "svc_stage v = Closed"
  shows "svc_stage v' = Closed \<and> svc_db v' = svc_db v"
  using assms by (induction rule: svc_run.induct) (auto dest: closed_step)

lemma svc_run_invariants:
  assumes "svc_run pb pe clk peer avg hosts es v v'" and "lifecycle_ok v" and "wf_process (svc_proc v)"
  shows "lifecycle_ok v' \<and> wf_process (svc_proc v') \<and> store_step\<^sup>*\<^sup>* (svc_db v) (svc_db v')"
  using assms
  by (induction rule: svc_run.induct) (auto dest: svc_step_lifecycle svc_step_wf svc_step_store intro: rtranclp_trans)

lemma start_ok:
  "start_service True file = Some v \<Longrightarrow> lifecycle_ok v \<and> wf_process (svc_proc v) \<and> svc_db v = open_store file \<and> pr_cos (svc_proc v) = Map.empty"
  by (auto simp: start_service_def lifecycle_ok_def) (simp_all add: boot_process_def)

text \<open>The row of a job without a task stays.\<close>

lemma taskless_step:
  assumes "proc_step pb pe clk peer avg hosts e p p'" and "wf_process p" and "pr_cos p j = None"
    and "store_get_job j (srv_db (pr_srv p)) \<noteq> None"
  shows "pr_cos p' j = None \<and> store_get_job j (srv_db (pr_srv p')) = store_get_job j (srv_db (pr_srv p))"
proof -
  have "e \<noteq> ResumeJob j" using assms(1,3) by (auto elim: proc_step.cases)
  with other_step [OF assms(1) this assms(2,4)] assms(3) show ?thesis by simp
qed

lemma taskless_run:
  assumes "svc_run pb pe clk peer avg hosts es v v'" and "wf_process (svc_proc v)" and "pr_cos (svc_proc v) j = None"
    and "store_get_job j (svc_db v) \<noteq> None"
  shows "store_get_job j (svc_db v') = store_get_job j (svc_db v)"
  using assms
proof (induction rule: svc_run.induct)
  case (svc_cons e v v' es v'')
  have "pr_cos (svc_proc v') j = None \<and> store_get_job j (svc_db v') = store_get_job j (svc_db v)"
    using svc_cons.hyps(1)
  proof (cases rule: svc_step_proc)
    case (process pr)
    from taskless_step [OF process(2) svc_cons.prems] show ?thesis .
  qed (use svc_cons.prems in simp_all)
  with svc_cons.IH svc_step_wf [OF svc_cons.hyps(1)] svc_cons.prems show ?case by simp
qed simp

text \<open>A refresh that has ended never runs again, and nothing else writes the rollups.\<close>

definition rollups :: "db \<Rightarrow> rollup_row list \<times> rollup_row list" where
  "rollups d = (rollup_1m d, rollup_1h d)"

lemma resume_rollups: "rollups (srv_db (o_srv (snd (resume env t pc st)))) = rollups (srv_db (o_srv st))"
proof -
  have enter: "rollups (srv_db (o_srv (snd (enter_phases t ks x)))) = rollups (srv_db (o_srv x))" for ks x
    by (auto simp: enter_phases_def finish_job_def set_job_status_def rollups_def split: list.split sum.split)
  have "rollups (srv_db (o_srv (snd (poll_reports env t k ks deadline x)))) = rollups (srv_db (o_srv x))" for k ks deadline x
    by (auto simp: poll_reports_def Let_def enter) (simp add: finish_job_def set_job_status_def rollups_def)
  then show ?thesis by (cases pc) (simp_all add: resume.simps enter Let_def)
qed

lemma proc_step_rollups:
  assumes "proc_step pb pe clk peer avg hosts e p p'" and "e \<noteq> RefreshRound"
  shows "rollups (srv_db (pr_srv p')) = rollups (srv_db (pr_srv p))"
  using assms(1)
proof cases
  case (proc_traffic e sys')
  then show ?thesis using traffic_tables [of pb pe clk peer e "pr_sys p" sys'] by (simp add: rollups_def other_tables_def)
next
  case (proc_start uuid request t s env)
  from start_job_store [OF this(3), unfolded sum.case] proc_start show ?thesis by (auto simp: set_srv_def rollups_def)
next
  case (proc_refused uuid request e s env)
  then show ?thesis using start_job_store [OF proc_refused(3)] by (simp add: set_srv_def)
next
  case (proc_resume j c c')
  then show ?thesis using resume_rollups [of "co_env c" "co_task c" "co_pc c" "wake (pr_srv p) c"]
    by (cases "resume (co_env c) (co_task c) (co_pc c) (wake (pr_srv p) c)") (auto simp: run_coroutine_def set_srv_def)
qed (use assms(2) in simp)

lemma rollups_step:
  assumes "svc_step pb pe clk peer avg hosts e v v'" and "svc_refresh v \<noteq> Alive"
  shows "svc_refresh v' \<noteq> Alive \<and> rollups (svc_db v') = rollups (svc_db v)"
  using assms
proof cases
  case (svc_connect i p)
  then show ?thesis using assms(2) proc_step_rollups [OF svc_connect(4)] by simp
next
  case (svc_traffic e p)
  then show ?thesis using assms(2) proc_step_rollups [OF svc_traffic(5)] by simp
next
  case (svc_request j request env p)
  then show ?thesis using assms(2) proc_step_rollups [OF svc_request(4)] by simp
next
  case (svc_job j c p)
  then show ?thesis using assms(2) proc_step_rollups [OF svc_job(5)] by simp
qed (simp_all add: begin_shutdown_def close_store_def cancel_refresh_def)

lemma rollups_run:
  assumes "svc_run pb pe clk peer avg hosts es v v'" and "svc_refresh v \<noteq> Alive"
  shows "svc_refresh v' \<noteq> Alive \<and> rollups (svc_db v') = rollups (svc_db v)"
  using assms by (induction rule: svc_run.induct) (auto dest: rollups_step)



lemma svc_run_append:
  "svc_run pb pe clk peer avg hosts es v v' \<Longrightarrow> svc_run pb pe clk peer avg hosts es' v' v'' \<Longrightarrow>
    svc_run pb pe clk peer avg hosts (es @ es') v v''"
  by (induction rule: svc_run.induct) (auto intro: svc_run.intros)




section \<open>Properties of the service\<close>

text \<open>
  C6. After the store is closed it is never written, and only a job can run into it: no connection is open, the refresh
  does not run, and whoever called the closed store was the task of a job. Until then nobody has, and all writes were
  calls of the store, so a well-formed file stays well-formed to the end.
\<close>

theorem closed_store_untouched:
  assumes "start_service True file = Some v0" and "svc_run pb pe clk peer avg hosts es v0 v"
  shows "(\<forall>u\<in>set (svc_misuses v). \<exists>j. u = JobTask j) \<and> store_step\<^sup>*\<^sup>* (open_store file) (svc_db v)
     \<and> (wf_db (open_store file) \<longrightarrow> wf_db (svc_db v))
     \<and> (if svc_stage v = Closed
        then (\<forall>i. open_conns v i = None) \<and> svc_refresh v \<noteq> Alive
          \<and> (\<forall>es' v'. \<not> svc_run pb pe clk peer avg hosts es' v v' \<or> svc_stage v' = Closed \<and> svc_db v' = svc_db v)
        else svc_misuses v = [])"
proof -
  from svc_run_invariants [OF assms(2)] start_ok [OF assms(1)]
  have v: "lifecycle_ok v" "store_step\<^sup>*\<^sup>* (open_store file) (svc_db v)" by simp_all
  have "wf_db (svc_db v)" if "wf_db (open_store file)" using v(2) that by (induction rule: rtranclp_induct) (auto dest: store_step_wf)
  then show ?thesis using v closed_run by (auto simp: lifecycle_ok_def)
qed

theorem closed_store_untouched_witness:
  "\<exists>v. svc_run demo_pb demo_pe demo_clock (\<lambda>_. ''p'') sum_average [''a''] [Shutdown, CloseStore]
      (the (start_service True (Some demo_db))) v \<and> svc_stage v = Closed \<and> svc_db v = demo_db"
proof -
  let ?v0 = "the (start_service True (Some demo_db))"
  have v0: "start_service True (Some demo_db) = Some ?v0" by (simp add: start_service_def)
  have "svc_run demo_pb demo_pe demo_clock (\<lambda>_. ''p'') sum_average [''a''] [Shutdown] ?v0 (begin_shutdown ?v0)"
    by (rule svc_cons [OF svc_shutdown svc_nil]) (simp add: start_service_def)
  moreover have "svc_run demo_pb demo_pe demo_clock (\<lambda>_. ''p'') sum_average [''a''] [CloseStore] (begin_shutdown ?v0) (close_store (begin_shutdown ?v0))"
    by (rule svc_cons [OF svc_close svc_nil]) (simp_all add: start_service_def begin_shutdown_def boot_process_def)
  ultimately have run: "svc_run demo_pb demo_pe demo_clock (\<lambda>_. ''p'') sum_average [''a''] [Shutdown, CloseStore] ?v0 (close_store (begin_shutdown ?v0))"
    using svc_run_append [where es = "[Shutdown]" and es' = "[CloseStore]"] by fastforce
  from closed_store_untouched [OF v0 run] run show ?thesis
    by (intro exI [of _ "close_store (begin_shutdown ?v0)"]) (simp add: close_store_def begin_shutdown_def start_service_def boot_process_def open_store_def)
qed




text \<open>
  C8. A job that a restart interrupted is never finished: a job whose row is in the file when the service starts keeps that
  row, its status included, in every run, and no task is ever started for it.
\<close>

theorem interrupted_job_stays:
  assumes "start_service True (Some d) = Some v0" and "store_get_job j d = Some row" and "svc_run pb pe clk peer avg hosts es v0 v"
  shows "api_get_job j (svc_db v) = Inr (row, select_phase_events j None (svc_db v))"
  using taskless_run [OF assms(3), of j] start_ok [OF assms(1)] assms(2) by (simp add: api_get_job_cases open_store_def)

theorem interrupted_job_stays_witness:
  "jr_status demo_row = ''running'' \<and> api_get_job ''j'' (svc_db (the (start_service True (Some (empty_db\<lparr>jobs := [demo_row]\<rparr>))))) =
     Inr (demo_row, [])"
proof -
  let ?d = "empty_db\<lparr>jobs := [demo_row]\<rparr>"
  have "store_get_job ''j'' ?d = Some demo_row" by (simp add: store_get_job_def demo_row_def)
  moreover have "start_service True (Some ?d) = Some (the (start_service True (Some ?d)))" by (simp add: start_service_def)
  ultimately have "api_get_job ''j'' (svc_db (the (start_service True (Some ?d)))) = Inr (demo_row, select_phase_events ''j'' None (svc_db (the (start_service True (Some ?d)))))"
    using interrupted_job_stays [OF _ _ svc_nil] by blast
  then show ?thesis by (simp add: start_service_def boot_process_def open_store_def select_phase_events_def empty_db_def demo_row_def)
qed

text \<open>
  C9. A refresh that raises is the last one: from then on, in every run, every rollup query of every series answers what it
  answered then, whatever samples arrive.
\<close>

theorem dead_refresh_freezes_rollups:
  assumes "fst (refresh_rollups avg (svc_db v)) = Some err" and "svc_run pb pe clk peer avg hosts es (refresh_round avg v) v'"
  shows "query_rollup n m resolution limit (svc_db v') = query_rollup n m resolution limit (svc_db (refresh_round avg v))"
proof -
  have "svc_refresh (refresh_round avg v) \<noteq> Alive" using assms(1) by (auto simp: refresh_round_def split: prod.split)
  from rollups_run [OF assms(2) this] show ?thesis by (simp add: query_rollup_def rollup_table_def rollups_def)
qed

definition infinite_db :: db where
  "infinite_db = empty_db\<lparr>samples := [(demo_sample 100 1)\<lparr>sr_value := PInf\<rparr>, (demo_sample 200 1)\<lparr>sr_value := NInf\<rparr>]\<rparr>"

theorem dead_refresh_freezes_rollups_witness:
  "\<exists>v. fst (refresh_rollups sum_average (svc_db v)) = Some IntegrityError
     \<and> query_rollup ''node-1'' 1 ''1m'' 10 (svc_db (begin_shutdown (refresh_round sum_average v))) =
       query_rollup ''node-1'' 1 ''1m'' 10 (svc_db (refresh_round sum_average v))"
proof -
  let ?v = "the (start_service True (Some infinite_db))"
  have "fst (refresh_rollups sum_average infinite_db) = Some IntegrityError" by code_simp
  then have dies: "fst (refresh_rollups sum_average (svc_db ?v)) = Some IntegrityError" by (simp add: start_service_def boot_process_def open_store_def)
  have "svc_run demo_pb demo_pe demo_clock (\<lambda>_. ''p'') sum_average [''a''] [Shutdown] (refresh_round sum_average ?v) (begin_shutdown (refresh_round sum_average ?v))"
    by (rule svc_cons [OF svc_shutdown svc_nil]) (simp add: start_service_def refresh_round_def split: prod.split)
  from dead_refresh_freezes_rollups [OF dies this] dies show ?thesis by blast
qed

end
