(* ===== verification/Config.thy ===== *)
theory Config
  imports Py_Text Workload
begin

text \<open>
  The configuration of the two services from their environment variables: \<open>load_config\<close> of
  \<open>hpctel/config.py\<close> and of \<open>workloadrunner/config.py\<close>. The environment is a map; \<open>None\<close> is the ValueError of
  \<open>int\<close>, which ends the import of the module.
\<close>

type_synonym environ = "string \<rightharpoonup> string"

definition env_get :: "environ \<Rightarrow> string \<Rightarrow> string \<Rightarrow> string" where
  "env_get env name fallback = (case env name of None \<Rightarrow> fallback | Some v \<Rightarrow> v)"

definition workload_hosts_of :: "string \<Rightarrow> string list" where
  "workload_hosts_of raw_hosts = map py_strip (filter (\<lambda>h. py_strip h \<noteq> []) (split_comma raw_hosts))"

record service_config =
  cf_tcp_host :: string
  cf_tcp_port :: int
  cf_http_host :: string
  cf_http_port :: int
  cf_db_path :: string
  cf_workload_hosts :: "string list"

definition load_config :: "environ \<Rightarrow> service_config option" where
  "load_config env =
     (case read_int (env_get env ''INGEST_TCP_PORT'' ''7070'') of None \<Rightarrow> None | Some tcp_port \<Rightarrow>
      case read_int (env_get env ''INGEST_HTTP_PORT'' ''8080'') of None \<Rightarrow> None | Some http_port \<Rightarrow>
        Some \<lparr>cf_tcp_host = env_get env ''INGEST_TCP_HOST'' ''0.0.0.0'', cf_tcp_port = tcp_port,
          cf_http_host = env_get env ''INGEST_HTTP_HOST'' ''0.0.0.0'', cf_http_port = http_port,
          cf_db_path = env_get env ''HPCTEL_DB_PATH'' ''/data/hpctel.sqlite3'',
          cf_workload_hosts = workload_hosts_of (env_get env ''WORKLOAD_HOSTS'' '''')\<rparr>)"

text \<open>The runner's configuration: the fields of \<open>Workload\<close>, and the addresses.\<close>

record runner_network =
  rn_ingest_host :: string
  rn_ingest_tcp_port :: int
  rn_http_port :: int

definition load_runner_config :: "environ \<Rightarrow> (runner_config \<times> runner_network) option" where
  "load_runner_config env =
     (case read_int (env_get env ''INGEST_PORT'' ''7070'') of None \<Rightarrow> None | Some tcp_port \<Rightarrow>
      case read_int (env_get env ''WORKLOAD_HTTP_PORT'' ''9090'') of None \<Rightarrow> None | Some http_port \<Rightarrow>
      case read_int (env_get env ''DEFAULT_SIEVE_LIMIT'' ''500000'') of None \<Rightarrow> None | Some limit \<Rightarrow>
        Some (\<lparr>rc_node_id = env_get env ''NODE_ID'' ''node-unknown'', rc_default_sieve_limit = limit\<rparr>,
          \<lparr>rn_ingest_host = env_get env ''INGEST_HOST'' ''127.0.0.1'', rn_ingest_tcp_port = tcp_port, rn_http_port = http_port\<rparr>))"


section \<open>Environments\<close>

text \<open>The environment that sets a configuration, and the host names that can be given in it.\<close>

definition environ_of :: "service_config \<Rightarrow> environ" where
  "environ_of c = [''INGEST_TCP_HOST'' \<mapsto> cf_tcp_host c, ''INGEST_TCP_PORT'' \<mapsto> int_text (cf_tcp_port c),
     ''INGEST_HTTP_HOST'' \<mapsto> cf_http_host c, ''INGEST_HTTP_PORT'' \<mapsto> int_text (cf_http_port c),
     ''HPCTEL_DB_PATH'' \<mapsto> cf_db_path c, ''WORKLOAD_HOSTS'' \<mapsto> join_comma (cf_workload_hosts c)]"

definition host_name :: "string \<Rightarrow> bool" where
  "host_name h \<longleftrightarrow> h \<noteq> [] \<and> py_strip h = h \<and> CHR '','' \<notin> set h"

lemma hosts_clean: "\<forall>h\<in>set (workload_hosts_of raw). host_name h"
  using strip_subset split_comma_parts [of _ raw] by (fastforce simp: workload_hosts_of_def host_name_def strip_strip)

lemma hosts_join:
  assumes "\<forall>h\<in>set hs. host_name h"
  shows "workload_hosts_of (join_comma hs) = hs"
proof (cases "hs = []")
  case True
  then show ?thesis by (simp add: workload_hosts_of_def py_strip_def)
next
  case False
  then have "split_comma (join_comma hs) = hs" using assms by (intro split_join) (simp_all add: host_name_def)
  moreover have "filter (\<lambda>h. py_strip h \<noteq> []) hs = hs" using assms by (simp add: host_name_def)
  moreover have "map py_strip hs = hs" using assms by (intro map_idI) (simp add: host_name_def)
  ultimately show ?thesis by (simp add: workload_hosts_of_def)
qed

text \<open>
  The configuration of the service makes a round trip through the environment: every
  configuration whose host names are not empty, have no comma and no white space at their ends is
  what \<open>load_config\<close> reads from the environment that sets it. And whatever the environment, it
  reads such names only, and it raises exactly when one of the two ports is not an integer.
\<close>

theorem load_config_roundtrip:
  assumes "\<forall>h\<in>set (cf_workload_hosts c). host_name h"
  shows "load_config (environ_of c) = Some c
    \<and> (case load_config env of
         None \<Rightarrow> read_int (env_get env ''INGEST_TCP_PORT'' ''7070'') = None \<or> read_int (env_get env ''INGEST_HTTP_PORT'' ''8080'') = None
       | Some c' \<Rightarrow> (\<forall>h\<in>set (cf_workload_hosts c'). host_name h)
           \<and> read_int (env_get env ''INGEST_TCP_PORT'' ''7070'') = Some (cf_tcp_port c')
           \<and> read_int (env_get env ''INGEST_HTTP_PORT'' ''8080'') = Some (cf_http_port c'))"
proof
  show "load_config (environ_of c) = Some c"
    by (simp add: load_config_def environ_of_def env_get_def read_int_text hosts_join [OF assms])
  show "case load_config env of
         None \<Rightarrow> read_int (env_get env ''INGEST_TCP_PORT'' ''7070'') = None \<or> read_int (env_get env ''INGEST_HTTP_PORT'' ''8080'') = None
       | Some c' \<Rightarrow> (\<forall>h\<in>set (cf_workload_hosts c'). host_name h)
           \<and> read_int (env_get env ''INGEST_TCP_PORT'' ''7070'') = Some (cf_tcp_port c')
           \<and> read_int (env_get env ''INGEST_HTTP_PORT'' ''8080'') = Some (cf_http_port c')"
    using hosts_clean by (auto simp: load_config_def split: option.splits)
qed

theorem load_config_roundtrip_witness:
  "load_config (environ_of \<lparr>cf_tcp_host = ''h'', cf_tcp_port = 7071, cf_http_host = ''0.0.0.0'', cf_http_port = - 5,
       cf_db_path = ''d'', cf_workload_hosts = [''workload-1'', ''b c'']\<rparr>)
     = Some \<lparr>cf_tcp_host = ''h'', cf_tcp_port = 7071, cf_http_host = ''0.0.0.0'', cf_http_port = - 5,
       cf_db_path = ''d'', cf_workload_hosts = [''workload-1'', ''b c'']\<rparr>"
proof -
  have "\<forall>h\<in>set [''workload-1'', ''b c'']. host_name h" by code_simp
  then show ?thesis using load_config_roundtrip [of "\<lparr>cf_tcp_host = ''h'', cf_tcp_port = 7071, cf_http_host = ''0.0.0.0'', cf_http_port = - 5,
       cf_db_path = ''d'', cf_workload_hosts = [''workload-1'', ''b c'']\<rparr>"] by simp
qed

end
