(* ===== verification/Json.thy ===== *)
theory Json
  imports Py_Text "HOL-Library.AList"
begin

text \<open>
  JSON as the code uses it: \<open>json.dumps\<close> with \<open>indent\<close> and \<open>sort_keys\<close>, and \<open>json.loads\<close>, on texts
  that are lists of code points. Every text the code stores (the columns of a job, the result files of the
  trials, the log lines) is written by the one and read by the other. An integer is a value, a float the
  text that \<open>float.__repr__\<close> gives it.

  The recursion of the reader is bounded by fuel; \<open>fuel_enough\<close> in \<open>Json_Cut\<close> shows that the fuel of
  \<open>loads\<close>, twice the length of the text, is as good as any.
\<close>

section \<open>Values and their text\<close>

type_synonym ustr = "nat list"

datatype json = JNull | JBool bool | JInt int | JFloat ustr | JStr ustr | JArr "json list" | JObj "(ustr \<times> json) list"

definition asc :: "string \<Rightarrow> ustr" where
  "asc s = map of_char s"

definition hex_digit :: "nat \<Rightarrow> nat" where
  "hex_digit n = (if n < 10 then 48 + n else 87 + n)"

definition u_escape :: "nat \<Rightarrow> ustr" where
  "u_escape c = [92, 117, hex_digit (c div 4096), hex_digit (c div 256 mod 16), hex_digit (c div 16 mod 16), hex_digit (c mod 16)]"

definition escape_char :: "nat \<Rightarrow> ustr" where
  "escape_char c = (if c = 34 then [92, 34] else if c = 92 then [92, 92]
     else if c = 8 then [92, 98] else if c = 9 then [92, 116] else if c = 10 then [92, 110]
     else if c = 12 then [92, 102] else if c = 13 then [92, 114]
     else if 32 \<le> c \<and> c < 127 then [c]
     else if c < 0x10000 then u_escape c
     else u_escape (0xD800 + (c - 0x10000) div 1024) @ u_escape (0xDC00 + (c - 0x10000) mod 1024))"

definition quote :: "ustr \<Rightarrow> ustr" where
  "quote s = 34 # concat (map escape_char s) @ [34]"

text \<open>\<open>indent=None\<close> or \<open>indent=i\<close>: the line break before an item of level \<open>l\<close>, and the comma.\<close>

definition newline :: "nat option \<Rightarrow> nat \<Rightarrow> ustr" where
  "newline indent l = (case indent of None \<Rightarrow> [] | Some i \<Rightarrow> 10 # replicate (i * l) 32)"

definition comma :: "nat option \<Rightarrow> nat \<Rightarrow> ustr" where
  "comma indent l = (case indent of None \<Rightarrow> [44, 32] | Some _ \<Rightarrow> 44 # newline indent l)"

fun render :: "nat option \<Rightarrow> nat \<Rightarrow> json \<Rightarrow> ustr"
  and render_items :: "nat option \<Rightarrow> nat \<Rightarrow> json list \<Rightarrow> ustr"
  and render_members :: "nat option \<Rightarrow> nat \<Rightarrow> (ustr \<times> json) list \<Rightarrow> ustr" where
  "render indent l JNull = asc ''null''"
| "render indent l (JBool b) = asc (if b then ''true'' else ''false'')"
| "render indent l (JInt i) = asc (int_text i)"
| "render indent l (JFloat t) = t"
| "render indent l (JStr s) = quote s"
| "render indent l (JArr vs) = (if vs = [] then [91, 93]
     else 91 # newline indent (Suc l) @ render_items indent (Suc l) vs @ newline indent l @ [93])"
| "render indent l (JObj ms) = (if ms = [] then [123, 125]
     else 123 # newline indent (Suc l) @ render_members indent (Suc l) ms @ newline indent l @ [125])"
| "render_items indent l [] = []"
| "render_items indent l (v # vs) = render indent l v @ (if vs = [] then [] else comma indent l @ render_items indent l vs)"
| "render_members indent l [] = []"
| "render_members indent l ((k, v) # ms) = quote k @ [58, 32] @ render indent l v
     @ (if ms = [] then [] else comma indent l @ render_members indent l ms)"

text \<open>\<open>sort_keys=True\<close>: the members of every object in the order of their keys.\<close>

fun sort_json :: "json \<Rightarrow> json"
  and sort_items :: "json list \<Rightarrow> json list"
  and sort_members :: "(ustr \<times> json) list \<Rightarrow> (ustr \<times> json) list" where
  "sort_json (JArr vs) = JArr (sort_items vs)"
| "sort_json (JObj ms) = JObj (sort_key fst (sort_members ms))"
| "sort_json v = v"
| "sort_items [] = []"
| "sort_items (v # vs) = sort_json v # sort_items vs"
| "sort_members [] = []"
| "sort_members ((k, v) # ms) = (k, sort_json v) # sort_members ms"

definition dumps :: "nat option \<Rightarrow> bool \<Rightarrow> json \<Rightarrow> ustr" where
  "dumps indent sort_keys v = render indent 0 (if sort_keys then sort_json v else v)"

section \<open>Reading\<close>

definition space :: "nat \<Rightarrow> bool" where
  "space c \<longleftrightarrow> c = 32 \<or> c = 9 \<or> c = 10 \<or> c = 13"

fun skip_ws :: "ustr \<Rightarrow> ustr" where
  "skip_ws [] = []"
| "skip_ws (c # s) = (if space c then skip_ws s else c # s)"

definition hex_value :: "nat \<Rightarrow> nat option" where
  "hex_value c = (if 48 \<le> c \<and> c < 58 then Some (c - 48) else if 97 \<le> c \<and> c < 103 then Some (c - 87)
     else if 65 \<le> c \<and> c < 71 then Some (c - 55) else None)"

fun read_hex :: "nat \<Rightarrow> nat \<Rightarrow> ustr \<Rightarrow> (nat \<times> ustr) option" where
  "read_hex 0 acc s = Some (acc, s)"
| "read_hex (Suc n) acc [] = None"
| "read_hex (Suc n) acc (c # s) = (case hex_value c of None \<Rightarrow> None | Some d \<Rightarrow> read_hex n (16 * acc + d) s)"

definition simple_escape :: "nat \<Rightarrow> nat option" where
  "simple_escape c = map_of [(34, 34), (92, 92), (47, 47), (98, 8), (102, 12), (110, 10), (114, 13), (116, 9)] c"

text \<open>The second half of a surrogate pair, if it follows.\<close>

definition low_surrogate :: "ustr \<Rightarrow> (nat \<times> ustr) option" where
  "low_surrogate s = (if take 2 s = [92, 117] then (case read_hex 4 0 (drop 2 s) of
       Some (c, r) \<Rightarrow> if 0xDC00 \<le> c \<and> c < 0xE000 then Some (c, r) else None
     | None \<Rightarrow> None) else None)"

definition read_escape :: "ustr \<Rightarrow> (nat \<times> ustr) option" where
  "read_escape s = (case s of [] \<Rightarrow> None
   | e # r \<Rightarrow> if e \<noteq> 117 then map_option (\<lambda>c. (c, r)) (simple_escape e)
       else (case read_hex 4 0 r of None \<Rightarrow> None
       | Some (c, r) \<Rightarrow> if 0xD800 \<le> c \<and> c < 0xDC00
           then (case low_surrogate r of Some (d, r') \<Rightarrow> Some (0x10000 + (c - 0xD800) * 1024 + (d - 0xDC00), r') | None \<Rightarrow> Some (c, r))
           else Some (c, r)))"

lemma read_hex_shorter: "read_hex n acc s = Some (c, r) \<Longrightarrow> length r = length s - n \<and> n \<le> length s"
  by (induction n acc s rule: read_hex.induct) (auto split: option.splits)

lemma low_surrogate_shorter: "low_surrogate s = Some (c, r) \<Longrightarrow> length r < length s"
  by (auto simp: low_surrogate_def split: if_splits option.splits dest!: read_hex_shorter)

lemma read_escape_shorter: "read_escape s = Some (c, r) \<Longrightarrow> length r < length s"
  by (auto simp: read_escape_def split: list.splits if_splits option.splits dest!: read_hex_shorter low_surrogate_shorter)

text \<open>The characters of a string up to its closing quote; control characters are refused.\<close>

function read_chars :: "ustr \<Rightarrow> (ustr \<times> ustr) option" where
  "read_chars s = (case s of [] \<Rightarrow> None
   | c # r \<Rightarrow> if c = 34 then Some ([], r)
       else if c = 92 then (case read_escape r of None \<Rightarrow> None
         | Some (x, r') \<Rightarrow> map_option (apfst (Cons x)) (read_chars r'))
       else if c < 32 then None
       else map_option (apfst (Cons c)) (read_chars r))"
  by pat_completeness auto
termination
  by (relation "measure length") (auto dest: read_escape_shorter)

declare read_chars.simps [simp del]

text \<open>Numbers: an integer part, and a fraction and an exponent if they are complete.\<close>

definition digit :: "nat \<Rightarrow> bool" where
  "digit c \<longleftrightarrow> 48 \<le> c \<and> c < 58"

definition sign_of :: "nat list \<Rightarrow> ustr \<Rightarrow> ustr" where
  "sign_of signs s = (case s of [] \<Rightarrow> [] | c # _ \<Rightarrow> if c \<in> set signs then [c] else [])"

definition read_integer :: "ustr \<Rightarrow> ustr" where
  "read_integer s = (let sign = sign_of [45] s; r = drop (length sign) s in
     if take 1 r = [48] then sign @ [48]
     else let ds = takeWhile digit r in if ds = [] then [] else sign @ ds)"

definition read_fraction :: "ustr \<Rightarrow> ustr" where
  "read_fraction s = (if take 1 s = [46] then (let ds = takeWhile digit (drop 1 s) in if ds = [] then [] else 46 # ds) else [])"

definition read_exponent :: "ustr \<Rightarrow> ustr" where
  "read_exponent s = (case s of [] \<Rightarrow> [] | e # r \<Rightarrow>
     if e = 69 \<or> e = 101 then (let sign = sign_of [43, 45] r;
         ds = takeWhile digit (drop (length sign) r) in if ds = [] then [] else e # sign @ ds)
     else [])"

definition read_number :: "ustr \<Rightarrow> (json \<times> ustr) option" where
  "read_number s = (let i = read_integer s; r = drop (length i) s; f = read_fraction r; r' = drop (length f) r; x = read_exponent r' in
     if i = [] then None
     else if f @ x = [] then map_option (\<lambda>k. (JInt k, r)) (read_int (map char_of i))
     else Some (JFloat (i @ f @ x), drop (length x) r'))"

definition literal_at :: "ustr \<Rightarrow> (ustr \<times> json) option" where
  "literal_at s = (case s of [] \<Rightarrow> None | c # _ \<Rightarrow> map_of
     [(110, (asc ''null'', JNull)), (116, (asc ''true'', JBool True)), (102, (asc ''false'', JBool False)),
      (78, (asc ''NaN'', JFloat (asc ''NaN''))), (73, (asc ''Infinity'', JFloat (asc ''Infinity''))),
      (45, (asc ''-Infinity'', JFloat (asc ''-Infinity'')))] c)"

definition read_atom :: "ustr \<Rightarrow> (json \<times> ustr) option" where
  "read_atom s = (case literal_at s of
     Some (w, v) \<Rightarrow> if take (length w) s = w then Some (v, drop (length w) s) else read_number s
   | None \<Rightarrow> read_number s)"

text \<open>A later member with the same key replaces the value of the earlier one.\<close>

definition dict_of :: "(ustr \<times> json) list \<Rightarrow> (ustr \<times> json) list" where
  "dict_of ms = fold (\<lambda>(k, v). AList.update k v) ms []"

fun read_value :: "nat \<Rightarrow> ustr \<Rightarrow> (json \<times> ustr) option"
  and read_array :: "nat \<Rightarrow> ustr \<Rightarrow> (json list \<times> ustr) option"
  and read_object :: "nat \<Rightarrow> ustr \<Rightarrow> ((ustr \<times> json) list \<times> ustr) option" where
  "read_value 0 s = None"
| "read_value (Suc n) s = (case s of [] \<Rightarrow> None | c # r \<Rightarrow>
     if c = 34 then map_option (apfst JStr) (read_chars r)
     else if c = 91 then (case skip_ws r of [] \<Rightarrow> None | d # r' \<Rightarrow>
       if d = 93 then Some (JArr [], r') else map_option (apfst JArr) (read_array n (d # r')))
     else if c = 123 then (case skip_ws r of [] \<Rightarrow> None | d # r' \<Rightarrow>
       if d = 125 then Some (JObj [], r') else map_option (apfst (JObj \<circ> dict_of)) (read_object n (d # r')))
     else read_atom (c # r))"
| "read_array 0 s = None"
| "read_array (Suc n) s = (case read_value n s of None \<Rightarrow> None | Some (v, r) \<Rightarrow> (case skip_ws r of [] \<Rightarrow> None | d # r' \<Rightarrow>
     if d = 93 then Some ([v], r')
     else if d = 44 then map_option (apfst (Cons v)) (read_array n (skip_ws r')) else None))"
| "read_object 0 s = None"
| "read_object (Suc n) s = (if take 1 s \<noteq> [34] then None else case read_chars (drop 1 s) of None \<Rightarrow> None | Some (k, r) \<Rightarrow>
     if take 1 (skip_ws r) \<noteq> [58] then None
     else case read_value n (skip_ws (drop 1 (skip_ws r))) of None \<Rightarrow> None | Some (v, r) \<Rightarrow> (case skip_ws r of [] \<Rightarrow> None | d # r' \<Rightarrow>
       if d = 125 then Some ([(k, v)], r')
       else if d = 44 then map_option (apfst (Cons (k, v))) (read_object n (skip_ws r')) else None))"

definition loads :: "ustr \<Rightarrow> json option" where
  "loads s = (let t = skip_ws s in case read_value (Suc (2 * length t)) t of
     Some (v, r) \<Rightarrow> if skip_ws r = [] then Some v else None | None \<Rightarrow> None)"


section \<open>Strings come back\<close>

lemma hex_value_digit: "n < 16 \<Longrightarrow> hex_value (hex_digit n) = Some n"
  by (auto simp: hex_value_def hex_digit_def)

lemma read_hex4:
  "a < 16 \<Longrightarrow> b < 16 \<Longrightarrow> c < 16 \<Longrightarrow> d < 16 \<Longrightarrow>
    read_hex 4 0 (hex_digit a # hex_digit b # hex_digit c # hex_digit d # s) = Some (16 * (16 * (16 * a + b) + c) + d, s)"
  by (simp add: eval_nat_numeral(3) hex_value_digit numeral_eq_Suc)

lemma read_hex_u:
  assumes "c < 65536"
  shows "read_hex 4 0 (hex_digit (c div 4096) # hex_digit (c div 256 mod 16) # hex_digit (c div 16 mod 16) # hex_digit (c mod 16) # s) = Some (c, s)"
proof -
  have split: "m div 16 * 16 + m mod 16 = m" for m :: nat by simp
  have c: "c div 4096 = c div 16 div 16 div 16" "c div 256 = c div 16 div 16" by (simp_all add: div_mult2_eq [symmetric])
  have "c div 4096 < 16" using assms by (intro less_mult_imp_div_less) simp
  from read_hex4 [OF this, of "c div 256 mod 16" "c div 16 mod 16" "c mod 16" s]
  have "read_hex 4 0 (hex_digit (c div 4096) # hex_digit (c div 256 mod 16) # hex_digit (c div 16 mod 16) # hex_digit (c mod 16) # s)
    = Some (16 * (16 * (16 * (c div 4096) + c div 256 mod 16) + c div 16 mod 16) + c mod 16, s)" by simp
  moreover have "16 * (16 * (16 * (c div 4096) + c div 256 mod 16) + c div 16 mod 16) + c mod 16 = c"
    unfolding c using split [of c] split [of "c div 16"] split [of "c div 16 div 16"] by (simp only: mult.commute [of 16])
  ultimately show ?thesis by simp
qed

lemma read_escape_u:
  assumes "c < 65536" and "\<not> (0xD800 \<le> c \<and> c < 0xDC00)"
  shows "read_escape (tl (u_escape c) @ s) = Some (c, s)"
  using assms by (cases "0xD800 \<le> c") (simp_all add: read_escape_def u_escape_def read_hex_u)

lemma read_escape_pair:
  assumes "c < 1024" and "d < 1024"
  shows "read_escape (tl (u_escape (0xD800 + c)) @ u_escape (0xDC00 + d) @ s) = Some (0x10000 + c * 1024 + d, s)"
proof -
  have "low_surrogate (u_escape (0xDC00 + d) @ s) = Some (0xDC00 + d, s)"
    using read_hex_u [of "0xDC00 + d" s] assms by (simp add: low_surrogate_def u_escape_def)
  then show ?thesis using read_hex_u [of "0xD800 + c" "u_escape (0xDC00 + d) @ s"] assms
    by (simp add: read_escape_def u_escape_def [of "0xD800 + c"])
qed

lemma read_chars_plain: "c \<noteq> 34 \<Longrightarrow> c \<noteq> 92 \<Longrightarrow> \<not> c < 32 \<Longrightarrow> read_chars (c # s) = map_option (apfst (Cons c)) (read_chars s)"
  by (simp add: read_chars.simps [of "c # s"])

lemma read_chars_escape: "read_escape r = Some (x, s) \<Longrightarrow> read_chars (92 # r) = map_option (apfst (Cons x)) (read_chars s)"
  by (simp add: read_chars.simps [of "92 # r"])

lemma read_chars_char:
  assumes "scalar c"
  shows "read_chars (escape_char c @ s) = map_option (apfst (Cons c)) (read_chars s)"
proof -
  have u: "u_escape x = 92 # tl (u_escape x)" for x by (simp add: u_escape_def)
  consider (short) "c \<in> {34, 92, 8, 9, 10, 12, 13}" | (plain) "32 \<le> c" "c < 127" "c \<noteq> 34" "c \<noteq> 92"
    | (bmp) "c \<notin> {34, 92, 8, 9, 10, 12, 13}" "\<not> (32 \<le> c \<and> c < 127)" "c < 0x10000"
    | (pair) "0x10000 \<le> c"
    by (cases "c \<in> {34, 92, 8, 9, 10, 12, 13}"; cases "32 \<le> c \<and> c < 127"; cases "c < 0x10000") auto
  then show ?thesis
  proof cases
    case short
    then have "\<exists>e. escape_char c = [92, e] \<and> e \<noteq> 117 \<and> simple_escape e = Some c" by (auto simp: escape_char_def simple_escape_def)
    then show ?thesis using read_chars_escape [where x = c] by (auto simp: read_escape_def)
  next
    case plain
    then show ?thesis using read_chars_plain [of c s] by (simp add: escape_char_def)
  next
    case bmp
    then have "escape_char c = u_escape c" by (auto simp: escape_char_def)
    moreover have "read_escape (tl (u_escape c) @ s) = Some (c, s)" using bmp assms by (intro read_escape_u) (auto simp: scalar_def)
    ultimately show ?thesis using read_chars_escape u by (metis append_Cons)
  next
    case pair
    let ?h = "(c - 0x10000) div 1024" and ?l = "(c - 0x10000) mod 1024"
    have esc: "escape_char c = u_escape (0xD800 + ?h) @ u_escape (0xDC00 + ?l)" using pair by (simp add: escape_char_def)
    have "c - 0x10000 < 1024 * 1024" using assms pair unfolding scalar_def by linarith
    then have "?h < 1024" by (rule less_mult_imp_div_less)
    then have "read_escape (tl (u_escape (0xD800 + ?h)) @ u_escape (0xDC00 + ?l) @ s) = Some (0x10000 + ?h * 1024 + ?l, s)"
      by (intro read_escape_pair) simp_all
    moreover have "0x10000 + ?h * 1024 + ?l = c" using pair by simp
    ultimately have "read_chars (92 # tl (u_escape (0xD800 + ?h)) @ u_escape (0xDC00 + ?l) @ s) = map_option (apfst (Cons c)) (read_chars s)"
      using read_chars_escape by metis
    then show ?thesis unfolding esc append_assoc by (subst u) (simp only: append_Cons)
  qed
qed

lemma read_chars_quote: "\<forall>c\<in>set x. scalar c \<Longrightarrow> read_chars (concat (map escape_char x) @ 34 # s) = Some (x, s)"
proof (induction x)
  case Nil
  then show ?case by (simp add: read_chars.simps [of "34 # s"])
next
  case (Cons c x)
  then show ?case by (simp add: read_chars_char)
qed

text \<open>A quoted text is printable ASCII.\<close>

definition printable :: "ustr \<Rightarrow> bool" where
  "printable s \<longleftrightarrow> (\<forall>c\<in>set s. 32 \<le> c \<and> c < 127)"

lemma printable_simps [simp]:
  "printable []" "printable (c # s) \<longleftrightarrow> 32 \<le> c \<and> c < 127 \<and> printable s" "printable (s @ s') \<longleftrightarrow> printable s \<and> printable s'"
  by (auto simp: printable_def)

lemma hex_digit_printable: "n < 16 \<Longrightarrow> 32 \<le> hex_digit n \<and> hex_digit n < 127"
  by (simp add: hex_digit_def)

lemma u_escape_printable: "c < 65536 \<Longrightarrow> printable (u_escape c)"
proof -
  assume "c < 65536"
  then have "c div 4096 < 16" by (intro less_mult_imp_div_less) simp
  then show ?thesis by (simp add: u_escape_def hex_digit_printable del: div_less)
qed

lemma escape_printable: "c < 0x110000 \<Longrightarrow> printable (escape_char c)"
proof -
  assume c: "c < 0x110000"
  then have "c - 0x10000 < 1024 * 1024" by linarith
  then have "(c - 0x10000) div 1024 < 1024" by (rule less_mult_imp_div_less)
  moreover have "(c - 0x10000) mod 1024 < 1024" by simp
  ultimately have "printable (u_escape (0xD800 + (c - 0x10000) div 1024) @ u_escape (0xDC00 + (c - 0x10000) mod 1024))"
    by (simp add: u_escape_printable)
  then show ?thesis by (simp add: escape_char_def u_escape_printable)
qed

lemma quote_printable: "\<forall>c\<in>set s. c < 0x110000 \<Longrightarrow> printable (quote s)"
  unfolding quote_def by (induction s) (simp_all add: escape_printable)


section \<open>Numbers and literals come back\<close>

text \<open>What may follow a token: nothing, white space, a comma or a closing bracket.\<close>

definition stops :: "ustr \<Rightarrow> bool" where
  "stops s \<longleftrightarrow> (case s of [] \<Rightarrow> True | c # _ \<Rightarrow> space c \<or> c = 44 \<or> c = 93 \<or> c = 125)"

definition no_digit :: "ustr \<Rightarrow> bool" where
  "no_digit s \<longleftrightarrow> (case s of [] \<Rightarrow> True | c # _ \<Rightarrow> \<not> digit c)"

lemma stops_no_digit: "stops s \<Longrightarrow> no_digit s"
  by (auto simp: stops_def no_digit_def digit_def space_def split: list.splits)

definition digits :: "ustr \<Rightarrow> bool" where
  "digits ds \<longleftrightarrow> ds \<noteq> [] \<and> (\<forall>c\<in>set ds. digit c)"

definition is_integer :: "ustr \<Rightarrow> bool" where
  "is_integer i \<longleftrightarrow> (\<exists>sign ds. i = sign @ ds \<and> (sign = [] \<or> sign = [45]) \<and> digits ds \<and> (ds = [48] \<or> hd ds \<noteq> 48))"

definition is_fraction :: "ustr \<Rightarrow> bool" where
  "is_fraction f \<longleftrightarrow> (\<exists>ds. f = 46 # ds \<and> digits ds)"

definition is_exponent :: "ustr \<Rightarrow> bool" where
  "is_exponent x \<longleftrightarrow> (\<exists>e sign ds. x = e # sign @ ds \<and> (e = 69 \<or> e = 101) \<and> (sign = [] \<or> sign = [43] \<or> sign = [45]) \<and> digits ds)"

lemma takeWhile_digits: "digits ds \<Longrightarrow> no_digit s \<Longrightarrow> takeWhile digit (ds @ s) = ds"
  by (induction ds) (auto simp: digits_def no_digit_def split: list.splits)

lemma digits_takeWhile: "takeWhile digit s \<noteq> [] \<Longrightarrow> digits (takeWhile digit s)"
  by (auto simp: digits_def dest: set_takeWhileD)

lemma digits_hd: "digits ds \<Longrightarrow> \<exists>c cs. ds = c # cs \<and> digit c"
  by (cases ds) (auto simp: digits_def)

lemma sign_of_split: "sign_of signs s @ drop (length (sign_of signs s)) s = s"
  by (cases s) (simp_all add: sign_of_def)

lemma sign_of_cases: "sign_of signs s = [] \<or> (\<exists>c\<in>set signs. sign_of signs s = [c])"
  by (auto simp: sign_of_def split: list.split)

lemma sign_of_digit: "digit c \<Longrightarrow> \<forall>x\<in>set signs. \<not> digit x \<Longrightarrow> sign_of signs (c # s) = []"
  by (auto simp: sign_of_def)

lemma sign_of_sign: "c \<in> set signs \<Longrightarrow> sign_of signs (c # s) = [c]"
  by (simp add: sign_of_def)

lemma signs [simp]: "\<not> digit 43" "\<not> digit 45" "\<not> digit 46" "\<not> digit 69" "\<not> digit 101" "digit 48"
  by (simp_all add: digit_def)

lemma read_integer_is:
  assumes "is_integer i" and "no_digit s"
  shows "read_integer (i @ s) = i"
proof -
  from assms(1) obtain sign ds where i: "i = sign @ ds" "sign = [] \<or> sign = [45]" "digits ds" "ds = [48] \<or> hd ds \<noteq> 48"
    unfolding is_integer_def by blast
  obtain c cs where ds: "ds = c # cs" "digit c" using digits_hd [OF i(3)] by blast
  have "sign_of [45] (i @ s) = sign" using i(1,2) ds by (auto simp: sign_of_digit sign_of_sign)
  moreover have "takeWhile digit (ds @ s) = ds" by (rule takeWhile_digits [OF i(3) assms(2)])
  ultimately show ?thesis using i(1,4) ds by (auto simp: read_integer_def Let_def)
qed

lemma append_take_is: "s = a @ b \<Longrightarrow> s = a @ drop (length a) s"
  by simp

lemma integer_read:
  assumes "read_integer s \<noteq> []"
  shows "is_integer (read_integer s) \<and> s = read_integer s @ drop (length (read_integer s)) s"
proof -
  let ?sign = "sign_of [45] s"
  define r where "r = drop (length ?sign) s"
  have s: "s = ?sign @ r" unfolding r_def by (rule sign_of_split [symmetric])
  have sign: "?sign = [] \<or> ?sign = [45]" using sign_of_cases [of "[45]" s] by simp
  have i: "read_integer s = (if take 1 r = [48] then ?sign @ [48] else if takeWhile digit r = [] then [] else ?sign @ takeWhile digit r)"
    by (simp add: read_integer_def Let_def r_def)
  show ?thesis
  proof (cases "take 1 r = [48]")
    case True
    then obtain r' where "r = 48 # r'" by (cases r) auto
    then have "s = (?sign @ [48]) @ r'" using s by simp
    moreover have "is_integer (?sign @ [48])" unfolding is_integer_def using sign by (intro exI [of _ ?sign] exI [of _ "[48]"]) (simp add: digits_def)
    moreover have "read_integer s = ?sign @ [48]" using i True by simp
    ultimately show ?thesis using append_take_is by metis
  next
    case False
    then have ds: "takeWhile digit r \<noteq> []" and e: "read_integer s = ?sign @ takeWhile digit r" using i assms by (auto split: if_splits)
    have "s = (?sign @ takeWhile digit r) @ dropWhile digit r" using s by simp
    moreover have "hd (takeWhile digit r) \<noteq> 48" using False ds by (cases r) (auto split: if_splits)
    then have "is_integer (?sign @ takeWhile digit r)" unfolding is_integer_def
      using sign digits_takeWhile [OF ds] by (intro exI [of _ ?sign] exI [of _ "takeWhile digit r"]) simp
    ultimately show ?thesis unfolding e using append_take_is by blast
  qed
qed

lemma read_fraction_is: "is_fraction f \<Longrightarrow> no_digit s \<Longrightarrow> read_fraction (f @ s) = f"
  by (auto simp: is_fraction_def read_fraction_def Let_def takeWhile_digits) (auto simp: digits_def)

lemma fraction_read:
  assumes "read_fraction s \<noteq> []"
  shows "is_fraction (read_fraction s) \<and> s = read_fraction s @ drop (length (read_fraction s)) s"
proof -
  obtain r where s: "s = 46 # r" using assms by (cases s) (auto simp: read_fraction_def split: if_splits)
  have ds: "takeWhile digit r \<noteq> []" and f: "read_fraction s = 46 # takeWhile digit r"
    using assms by (auto simp: s read_fraction_def Let_def split: if_splits)
  have split: "s = (46 # takeWhile digit r) @ dropWhile digit r" by (simp add: s)
  have "is_fraction (46 # takeWhile digit r)" using digits_takeWhile [OF ds] by (simp add: is_fraction_def)
  then show ?thesis unfolding f using append_take_is [OF split] by (rule conjI)
qed

lemma read_exponent_is:
  assumes "is_exponent x" and "no_digit s"
  shows "read_exponent (x @ s) = x"
proof -
  from assms(1) obtain e sign ds where *: "x = e # sign @ ds" "e = 69 \<or> e = 101" "sign = [] \<or> sign = [43] \<or> sign = [45]" "digits ds"
    unfolding is_exponent_def by blast
  obtain c cs where ds: "ds = c # cs" "digit c" using digits_hd [OF *(4)] by blast
  have "sign_of [43, 45] (sign @ ds @ s) = sign" using *(3) ds by (auto simp: sign_of_digit sign_of_sign)
  moreover have "takeWhile digit (ds @ s) = ds" by (rule takeWhile_digits [OF *(4) assms(2)])
  ultimately show ?thesis using *(1,2) ds by (simp add: read_exponent_def Let_def)
qed

lemma exponent_read:
  assumes "read_exponent s \<noteq> []"
  shows "is_exponent (read_exponent s) \<and> s = read_exponent s @ drop (length (read_exponent s)) s"
proof (cases s)
  case (Cons e r)
  let ?sign = "sign_of [43, 45] r"
  define r' where "r' = drop (length ?sign) r"
  have r: "r = ?sign @ r'" unfolding r'_def by (rule sign_of_split [symmetric])
  have e: "e = 69 \<or> e = 101" and ds: "takeWhile digit r' \<noteq> []" and x: "read_exponent s = e # ?sign @ takeWhile digit r'"
    using assms by (auto simp: Cons read_exponent_def Let_def r'_def split: if_splits)
  have split: "s = (e # ?sign @ takeWhile digit r') @ dropWhile digit r'" unfolding Cons using r by simp
  have "?sign = [] \<or> ?sign = [43] \<or> ?sign = [45]" using sign_of_cases [of "[43, 45]" r] by auto
  then have "is_exponent (e # ?sign @ takeWhile digit r')" unfolding is_exponent_def
    using e digits_takeWhile [OF ds] by (intro exI [of _ e] exI [of _ ?sign] exI [of _ "takeWhile digit r'"]) simp
  then show ?thesis unfolding x using append_take_is [OF split] by (rule conjI)
qed (use assms in \<open>simp add: read_exponent_def\<close>)


definition is_number :: "ustr \<Rightarrow> ustr \<Rightarrow> ustr \<Rightarrow> bool" where
  "is_number i f x \<longleftrightarrow> is_integer i \<and> (f = [] \<or> is_fraction f) \<and> (x = [] \<or> is_exponent x)"

lemma read_number_parts:
  assumes "is_number i f x" and "stops u"
  shows "read_number (i @ f @ x @ u) = (if f @ x = [] then map_option (\<lambda>k. (JInt k, u)) (read_int (map char_of i))
     else Some (JFloat (i @ f @ x), u))"
proof -
  have u: "no_digit u" "read_exponent u = []" "read_fraction u = []" using assms(2)
    by (auto simp: stops_def no_digit_def digit_def space_def read_exponent_def read_fraction_def split: list.splits)
  have xu: "no_digit (x @ u)" "read_fraction (x @ u) = [] \<or> is_fraction f"
    using assms(1) u by (auto simp: is_number_def is_exponent_def no_digit_def read_fraction_def)
  have x: "read_exponent (x @ u) = x" using assms(1) u read_exponent_is [of x u] by (auto simp: is_number_def)
  have f: "read_fraction (f @ x @ u) = f" using assms(1) u xu read_fraction_is [of f "x @ u"] 
    by (cases "f = []") (auto simp: is_number_def is_fraction_def is_exponent_def read_fraction_def)
  have "no_digit (f @ x @ u)" using assms(1) xu by (auto simp: is_number_def is_fraction_def no_digit_def)
  then have i: "read_integer (i @ f @ x @ u) = i" using assms(1) by (intro read_integer_is) (simp add: is_number_def)
  have "i \<noteq> []" using assms(1) by (auto simp: is_number_def is_integer_def digits_def)
  then show ?thesis by (simp add: read_number_def Let_def i f x)
qed

lemma number_read:
  assumes "read_number s = Some (v, r)"
  obtains i f x where "s = i @ f @ x @ r" and "is_number i f x"
proof -
  let ?i = "read_integer s" let ?r = "drop (length ?i) s" let ?f = "read_fraction ?r" let ?r' = "drop (length ?f) ?r" let ?x = "read_exponent ?r'"
  have i: "?i \<noteq> []" and r: "r = drop (length ?x) ?r'"
    using assms by (auto simp: read_number_def Let_def split: if_splits)
  have 1: "s = ?i @ ?r" "is_integer ?i" using integer_read [OF i] by simp_all
  have 2: "?r = ?f @ ?r' \<and> (?f = [] \<or> is_fraction ?f)" using fraction_read [of ?r] by (cases "?f = []") auto
  have 3: "?r' = ?x @ r \<and> (?x = [] \<or> is_exponent ?x)" using exponent_read [of ?r'] r by (cases "?x = []") auto
  show thesis by (rule that [of ?i ?f ?x]) (use 1 2 3 in \<open>metis\<close>, use 1 2 3 in \<open>simp add: is_number_def\<close>)
qed

lemma read_number_append:
  assumes "read_number s = Some (v, r)" and "stops (r @ t)"
  shows "read_number (s @ t) = Some (v, r @ t)"
proof -
  from number_read [OF assms(1)] obtain i f x where s: "s = i @ f @ x @ r" and n: "is_number i f x" by blast
  have "stops r" using assms(2) by (cases r) (auto simp: stops_def)
  from read_number_parts [OF n this] assms(1) s
  have "(if f @ x = [] then map_option (\<lambda>k. (JInt k, r)) (read_int (map char_of i)) else Some (JFloat (i @ f @ x), r)) = Some (v, r)" by simp
  then show ?thesis using read_number_parts [OF n assms(2)] s by (auto split: if_splits)
qed

lemma read_atom_number:
  assumes "is_integer i"
  shows "read_atom (i @ u) = read_number (i @ u)"
proof -
  from assms obtain sign ds where i: "i = sign @ ds" "sign = [] \<or> sign = [45]" "digits ds" unfolding is_integer_def by blast
  obtain c cs where ds: "ds = c # cs" "digit c" using digits_hd [OF i(3)] by blast
  have "c \<noteq> 110" "c \<noteq> 116" "c \<noteq> 102" "c \<noteq> 78" "c \<noteq> 73" "c \<noteq> 45" using ds(2) by (auto simp: digit_def)
  with i(1,2) ds(1) show ?thesis by (auto simp: read_atom_def literal_at_def asc_def)
qed

lemma read_atom_append:
  assumes "read_atom s = Some (v, r)" and "stops (r @ t)"
  shows "read_atom (s @ t) = Some (v, r @ t)"
proof (cases "\<exists>w. literal_at s = Some (w, v) \<and> take (length w) s = w \<and> r = drop (length w) s")
  case True
  then obtain w where w: "literal_at s = Some (w, v)" "take (length w) s = w" "r = drop (length w) s" by blast
  then have "literal_at (s @ t) = Some (w, v)" by (cases s) (simp_all add: literal_at_def)
  moreover have "length w \<le> length s" using w(2) by (metis length_take min.absorb_iff2 min.commute)
  ultimately show ?thesis using w by (simp add: read_atom_def)
next
  case False
  then have "read_number s = Some (v, r)" using assms(1) by (auto simp: read_atom_def split: option.splits if_splits)
  from this number_read [OF this] read_number_append [OF this assms(2)] show ?thesis
    by (metis append_assoc is_number_def read_atom_number)
qed

lemma decimal_hd: "0 < n \<Longrightarrow> (of_char (hd (decimal n)) :: nat) \<noteq> 48"
proof (induction n rule: decimal.induct)
  case (1 n)
  show ?case
  proof (cases "n < 10")
    case True
    then show ?thesis using 1(2) by (simp add: decimal.simps [of n])
  next
    case False
    then show ?thesis using 1(1) by (simp add: decimal.simps [of n])
  qed
qed

lemma int_text_integer: "is_integer (asc (int_text i))"
proof -
  have dec: "digits (asc (decimal n)) \<and> (asc (decimal n) = [48] \<or> hd (asc (decimal n)) \<noteq> 48)" for n
  proof
    show "digits (asc (decimal n))" using decimal_digits [of _ n] by (auto simp: digits_def asc_def digit_def)
    show "asc (decimal n) = [48] \<or> hd (asc (decimal n)) \<noteq> 48"
    proof (cases "n = 0")
      case True
      then show ?thesis by (simp add: decimal.simps [of 0] asc_def)
    next
      case False
      then show ?thesis using decimal_hd [of n] by (simp add: asc_def hd_map)
    qed
  qed
  show ?thesis
  proof (cases "i < 0")
    case True
    then show ?thesis using dec [of "nat (- i)"] unfolding is_integer_def
      by (intro exI [of _ "[45]"] exI [of _ "asc (decimal (nat (- i)))"]) (auto simp: int_text_def asc_def)
  next
    case False
    then show ?thesis using dec [of "nat i"] unfolding is_integer_def
      by (intro exI [of _ "[]"] exI [of _ "asc (decimal (nat i))"]) (auto simp: int_text_def asc_def)
  qed
qed

lemma read_atom_int: "stops u \<Longrightarrow> read_atom (asc (int_text i) @ u) = Some (JInt i, u)"
  using read_number_parts [of "asc (int_text i)" "[]" "[]" u] int_text_integer [of i]
  by (simp add: read_atom_number is_number_def asc_def o_def read_int_text)


section \<open>Values come back\<close>

text \<open>
  A value that \<open>dumps\<close> writes: scalars in its strings, distinct keys in its objects, and the text of
  a float as the text of its floats.
\<close>

definition float_text :: "ustr \<Rightarrow> bool" where
  "float_text t \<longleftrightarrow> read_atom t = Some (JFloat t, [])"

fun wf_json :: "json \<Rightarrow> bool"
  and wf_items :: "json list \<Rightarrow> bool"
  and wf_members :: "(ustr \<times> json) list \<Rightarrow> bool" where
  "wf_json (JFloat t) \<longleftrightarrow> float_text t"
| "wf_json (JStr s) \<longleftrightarrow> (\<forall>c\<in>set s. scalar c)"
| "wf_json (JArr vs) \<longleftrightarrow> wf_items vs"
| "wf_json (JObj ms) \<longleftrightarrow> distinct (map fst ms) \<and> wf_members ms"
| "wf_json v \<longleftrightarrow> True"
| "wf_items [] \<longleftrightarrow> True"
| "wf_items (v # vs) \<longleftrightarrow> wf_json v \<and> wf_items vs"
| "wf_members [] \<longleftrightarrow> True"
| "wf_members ((k, v) # ms) \<longleftrightarrow> (\<forall>c\<in>set k. scalar c) \<and> wf_json v \<and> wf_members ms"

text \<open>The fuel a value needs.\<close>

fun need :: "json \<Rightarrow> nat"
  and needs :: "json list \<Rightarrow> nat"
  and member_needs :: "(ustr \<times> json) list \<Rightarrow> nat" where
  "need (JArr vs) = Suc (needs vs)"
| "need (JObj ms) = Suc (member_needs ms)"
| "need v = 1"
| "needs [] = 0"
| "needs (v # vs) = Suc (max (need v) (needs vs))"
| "member_needs [] = 0"
| "member_needs ((k, v) # ms) = Suc (max (need v) (member_needs ms))"

definition starts_value :: "ustr \<Rightarrow> bool" where
  "starts_value s \<longleftrightarrow> (case s of [] \<Rightarrow> False | c # _ \<Rightarrow> \<not> space c \<and> c \<noteq> 93 \<and> c \<noteq> 125 \<and> c \<noteq> 44)"

lemma starts_value_append: "starts_value s \<Longrightarrow> starts_value (s @ t) \<and> skip_ws (s @ t) = s @ t"
  by (cases s) (auto simp: starts_value_def)

lemma integer_starts:
  assumes "is_integer i"
  obtains c s where "i = c # s" and "digit c \<or> c = 45"
proof -
  from assms obtain sign ds where i: "i = sign @ ds" "sign = [] \<or> sign = [45]" "digits ds" unfolding is_integer_def by blast
  obtain c cs where "ds = c # cs" "digit c" using digits_hd [OF i(3)] by blast
  then show thesis using i that by (cases sign) auto
qed

lemma atom_starts: "read_atom s = Some (v, r) \<Longrightarrow> starts_value s \<and> hd s \<noteq> 34 \<and> hd s \<noteq> 91 \<and> hd s \<noteq> 123 \<and> r \<noteq> s"
proof (cases "\<exists>w v. literal_at s = Some (w, v) \<and> take (length w) s = w")
  case True
  then show "read_atom s = Some (v, r) \<Longrightarrow> starts_value s \<and> hd s \<noteq> 34 \<and> hd s \<noteq> 91 \<and> hd s \<noteq> 123 \<and> r \<noteq> s"
    by (cases s) (auto simp: literal_at_def read_atom_def starts_value_def space_def asc_def split: if_splits dest: arg_cong [of _ _ length])
next
  case False
  assume "read_atom s = Some (v, r)"
  then have "read_number s = Some (v, r)" using False by (auto simp: read_atom_def split: option.splits if_splits)
  from number_read [OF this] obtain i f x where s: "s = i @ f @ x @ r" "is_number i f x" .
  then have "is_integer i" by (simp add: is_number_def)
  note s = s(1) this
  from integer_starts [OF s(2)] obtain c cs where "i = c # cs" "digit c \<or> c = 45" by blast
  with s(1) show ?thesis by (auto simp: starts_value_def space_def digit_def)
qed

lemma int_starts: "starts_value (asc (int_text i)) \<and> hd (asc (int_text i)) \<noteq> 34 \<and> hd (asc (int_text i)) \<noteq> 91 \<and> hd (asc (int_text i)) \<noteq> 123"
proof -
  obtain c s where "asc (int_text i) = c # s" "digit c \<or> c = 45" using integer_starts [OF int_text_integer] .
  then show ?thesis by (auto simp: starts_value_def space_def digit_def)
qed

lemma starts_render: "wf_json v \<Longrightarrow> starts_value (render indent l v)"
proof (cases v)
  case (JInt i)
  then show ?thesis using int_starts [of i] by simp
next
  case (JFloat t)
  then show "wf_json v \<Longrightarrow> ?thesis" using atom_starts [of t] by (simp add: float_text_def)
qed (auto simp: starts_value_def space_def asc_def quote_def)

lemma starts_value_Cons: "starts_value s \<Longrightarrow> \<exists>c r. s = c # r \<and> c \<noteq> 93 \<and> c \<noteq> 125 \<and> \<not> space c"
  by (cases s) (auto simp: starts_value_def)

lemma read_value_array:
  "skip_ws r = d # r' \<Longrightarrow> d \<noteq> 93 \<Longrightarrow> read_array n (d # r') = Some (vs, s) \<Longrightarrow> read_value (Suc n) (91 # r) = Some (JArr vs, s)"
  by simp

lemma read_value_object:
  "skip_ws r = d # r' \<Longrightarrow> d \<noteq> 125 \<Longrightarrow> read_object n (d # r') = Some (ms, s) \<Longrightarrow> read_value (Suc n) (123 # r) = Some (JObj (dict_of ms), s)"
  by simp

lemma read_value_atom:
  "starts_value s \<Longrightarrow> hd s \<noteq> 34 \<Longrightarrow> hd s \<noteq> 91 \<Longrightarrow> hd s \<noteq> 123 \<Longrightarrow> read_value (Suc n) (s @ t) = read_atom (s @ t)"
  by (cases s) (auto simp: starts_value_def)

lemma skip_newline [simp]: "skip_ws (newline indent l @ s) = skip_ws s"
proof -
  have "skip_ws (replicate n 32 @ s) = skip_ws s" for n by (induction n) (simp_all add: space_def)
  then show ?thesis by (simp add: newline_def space_def split: option.split)
qed

lemma comma_text: "\<exists>w. comma indent l = 44 # w \<and> (\<forall>s. skip_ws (w @ s) = skip_ws s)"
  by (cases indent) (auto simp: comma_def space_def)

lemma stops_newline: "stops (newline indent l @ c # s) \<longleftrightarrow> stops (newline indent l @ [c])"
  by (auto simp: stops_def newline_def split: option.split)

lemma stops_close [simp]: "stops (newline indent l @ 93 # s)" "stops (newline indent l @ 125 # s)" "stops (44 # s)"
  by (auto simp: stops_def newline_def space_def split: option.split)

lemma dict_of_distinct: "distinct (map fst ms) \<Longrightarrow> dict_of ms = ms"
proof -
  have new: "k \<notin> fst ` set acc \<Longrightarrow> AList.update k v acc = acc @ [(k, v)]" for k :: ustr and v :: json and acc
    by (induction acc) auto
  have "distinct (map fst (acc @ ms)) \<Longrightarrow> fold (\<lambda>(k, v). AList.update k v) ms acc = acc @ ms" for acc
    by (induction ms arbitrary: acc) (auto simp: new)
  from this [of "[]"] show "distinct (map fst ms) \<Longrightarrow> dict_of ms = ms" by (simp add: dict_of_def)
qed

text \<open>What follows a value that ends by itself does not matter; a number or a literal needs a stop.\<close>

fun closed :: "json \<Rightarrow> bool" where
  "closed (JStr _) = True" | "closed (JArr _) = True" | "closed (JObj _) = True" | "closed _ = False"

lemma read_atom_render:
  assumes "wf_json v" and "\<not> closed v" and "stops s"
  shows "read_atom (render indent l v @ s) = Some (v, s)"
proof (cases v)
  case (JInt i)
  then show ?thesis using assms(3) by (simp add: read_atom_int)
next
  case (JFloat t)
  then show ?thesis using assms read_atom_append [of t "JFloat t" "[]" s] by (simp add: float_text_def)
qed (use assms(2) in \<open>simp_all add: read_atom_def literal_at_def asc_def\<close>)

lemma read_render:
  "wf_json v \<Longrightarrow> need v \<le> n \<Longrightarrow> closed v \<or> stops s \<Longrightarrow> read_value n (render indent l v @ s) = Some (v, s)"
  "wf_items vs \<Longrightarrow> needs vs \<le> n \<Longrightarrow> vs \<noteq> [] \<Longrightarrow>
     read_array n (render_items indent l vs @ newline indent k @ 93 # s) = Some (vs, s)"
  "wf_members ms \<Longrightarrow> member_needs ms \<le> n \<Longrightarrow> ms \<noteq> [] \<Longrightarrow>
     read_object n (render_members indent l ms @ newline indent k @ 125 # s) = Some (ms, s)"
proof (induction n arbitrary: v vs ms l k s)
  case 0
  {
    case 1
    then show ?case by (cases v) simp_all
  next
    case 2
    then show ?case by (cases vs) simp_all
  next
    case 3
    then show ?case by (cases ms) auto
  }
next
  case (Suc n)
  {
    case 1
    show ?case
    proof (cases v)
      case (JStr x)
      then show ?thesis using 1 by (simp add: quote_def read_chars_quote)
    next
      case (JArr vs)
      show ?thesis
      proof (cases vs)
        case (Cons w ws)
        have "starts_value (render_items indent (Suc l) vs)"
          using starts_value_append [OF starts_render [of w indent "Suc l"]] 1(1) Cons JArr by simp
        then obtain c r where c: "render_items indent (Suc l) vs = c # r" "c \<noteq> 93" "\<not> space c" using starts_value_Cons by blast
        have "read_array n (render_items indent (Suc l) vs @ newline indent l @ 93 # s) = Some (vs, s)"
          using 1 Cons JArr by (intro Suc.IH(2)) simp_all
        then have "read_value (Suc n) (91 # newline indent (Suc l) @ render_items indent (Suc l) vs @ newline indent l @ 93 # s) = Some (JArr vs, s)"
          using c by (intro read_value_array) simp_all
        then show ?thesis using Cons JArr by (simp del: render_items.simps read_value.simps)
      qed (use JArr in \<open>simp add: space_def\<close>)
    next
      case (JObj ms)
      show ?thesis
      proof (cases ms)
        case (Cons m ms')
        obtain r where r: "render_members indent (Suc l) ms = 34 # r" using Cons by (cases m) (auto simp: quote_def)
        have "read_object n (render_members indent (Suc l) ms @ newline indent l @ 125 # s) = Some (ms, s)"
          using 1 Cons JObj by (intro Suc.IH(3)) simp_all
        then have "read_value (Suc n) (123 # newline indent (Suc l) @ render_members indent (Suc l) ms @ newline indent l @ 125 # s) = Some (JObj (dict_of ms), s)"
          using r by (intro read_value_object) (simp_all add: space_def)
        moreover have "dict_of ms = ms" using 1 JObj by (intro dict_of_distinct) simp
        ultimately show ?thesis using Cons JObj by (simp del: render_members.simps read_value.simps)
      qed (use JObj in \<open>simp add: space_def\<close>)
    next
      case JNull
      then show ?thesis using 1 read_atom_render [of v s indent l] by (simp add: asc_def)
    next
      case (JBool b)
      then show ?thesis using 1 read_atom_render [of v s indent l] by (cases b) (simp_all add: asc_def)
    next
      case (JInt i)
      then show ?thesis using 1 read_atom_render [of v s indent l] read_value_atom [of "asc (int_text i)"] int_starts [of i] by simp
    next
      case (JFloat t)
      then have "read_atom t = Some (v, [])" using 1 by (simp add: float_text_def)
      from atom_starts [OF this] show ?thesis using JFloat 1 read_atom_render [of v s indent l] read_value_atom [of t] by simp
    qed
  next
    case 2
    then obtain v ws where vs: "vs = v # ws" by (cases vs) auto
    show ?case
    proof (cases ws)
      case Nil
      have "read_value n (render indent l v @ newline indent k @ 93 # s) = Some (v, newline indent k @ 93 # s)"
        using 2 vs by (intro Suc.IH(1)) simp_all
      then show ?thesis using vs Nil by (simp add: space_def)
    next
      case (Cons w ws')
      obtain c where c: "comma indent l = 44 # c" "\<And>s. skip_ws (c @ s) = skip_ws s" using comma_text by blast
      let ?rest = "render_items indent l ws @ newline indent k @ 93 # s"
      have "read_value n (render indent l v @ 44 # c @ ?rest) = Some (v, 44 # c @ ?rest)"
        using 2 vs by (intro Suc.IH(1)) simp_all
      moreover have "skip_ws ?rest = ?rest" using starts_value_append [OF starts_render [of w indent l]] 2(1) vs Cons by simp
      moreover have "read_array n ?rest = Some (ws, s)" using 2 vs Cons by (intro Suc.IH(2)) simp_all
      ultimately show ?thesis using vs Cons c by (simp add: space_def apfst_def)
    qed
  next
    case 3
    then obtain key v ms' where ms: "ms = (key, v) # ms'" by (cases ms) auto
    have key: "read_chars (concat (map escape_char key) @ 34 # s') = Some (key, s')" for s'
      using 3 ms by (intro read_chars_quote) simp
    have colon: "skip_ws (58 # r) = 58 # r" "skip_ws (32 # r) = skip_ws r" "skip_ws (render indent l v @ r) = render indent l v @ r" for r
      using starts_value_append [OF starts_render [of v indent l]] 3(1) ms by (simp_all add: space_def)
    show ?case
    proof (cases ms')
      case Nil
      have "read_value n (render indent l v @ newline indent k @ 125 # s) = Some (v, newline indent k @ 125 # s)"
        using 3 ms by (intro Suc.IH(1)) simp_all
      then show ?thesis using ms Nil by (simp add: quote_def key colon, simp add: space_def)
    next
      case (Cons m ms'')
      obtain c where c: "comma indent l = 44 # c" "\<And>s. skip_ws (c @ s) = skip_ws s" using comma_text by blast
      let ?rest = "render_members indent l ms' @ newline indent k @ 125 # s"
      have "read_value n (render indent l v @ 44 # c @ ?rest) = Some (v, 44 # c @ ?rest)"
        using 3 ms by (intro Suc.IH(1)) simp_all
      moreover obtain r where "render_members indent l ms' = 34 # r" using Cons by (cases m) (auto simp: quote_def)
      then have "skip_ws ?rest = ?rest" by (simp add: space_def)
      moreover have "read_object n ?rest = Some (ms', s)" using 3 ms Cons by (intro Suc.IH(3)) simp_all
      ultimately show ?thesis using ms Cons c by (simp add: quote_def key colon, simp add: space_def apfst_def)
    qed
  }
qed


lemma render_positive: "wf_json v \<Longrightarrow> need v \<le> 1 \<Longrightarrow> need v \<le> 2 * length (render indent l v)"
  using starts_render [of v indent l] by (cases "render indent l v") (auto simp: starts_value_def)

lemma need_length:
  "wf_json v \<Longrightarrow> need v \<le> 2 * length (render indent l v)"
  "wf_items vs \<Longrightarrow> needs vs \<le> Suc (2 * length (render_items indent l vs))"
  "wf_members ms \<Longrightarrow> member_needs ms \<le> Suc (2 * length (render_members indent l ms))"
proof (induction v and vs and ms arbitrary: l and l and l rule: need_needs_member_needs.induct)
  case (5 v vs)
  have "Suc 0 \<le> length (comma indent l)" by (simp add: comma_def split: option.split)
  then show ?case using 5(1) [of l] 5(2) [of l] 5(3) by (cases "vs = []") auto
next
  case (7 k v ms)
  have "Suc 0 \<le> length (comma indent l)" by (simp add: comma_def split: option.split)
  then show ?case using 7(1) [of l] 7(2) [of l] 7(3) by (cases "ms = []") (auto simp: quote_def)
next
  case (1 vs)
  then have "needs vs \<le> Suc (2 * length (render_items indent (Suc l) vs))" by simp
  then show ?case by (cases "vs = []") simp_all
next
  case (2 ms)
  then have "member_needs ms \<le> Suc (2 * length (render_members indent (Suc l) ms))" by simp
  then show ?case by (cases "ms = []") simp_all
qed ((rule render_positive; simp) | simp)+

lemma wf_members_all: "wf_members ms \<longleftrightarrow> (\<forall>(k, v)\<in>set ms. (\<forall>c\<in>set k. scalar c) \<and> wf_json v)"
  by (induction ms) auto

lemma wf_sort:
  "wf_json v \<Longrightarrow> wf_json (sort_json v)"
  "wf_items vs \<Longrightarrow> wf_items (sort_items vs)"
  "wf_members ms \<Longrightarrow> wf_members (sort_members ms) \<and> map fst (sort_members ms) = map fst ms"
proof (induction v and vs and ms rule: sort_json_sort_items_sort_members.induct)
  case (2 ms)
  then have ms: "wf_members (sort_members ms)" "map fst (sort_members ms) = map fst ms" "distinct (map fst ms)" by simp_all
  have "mset (map fst (sort_key fst (sort_members ms))) = mset (map fst (sort_members ms))" by simp
  then have "distinct (map fst (sort_key fst (sort_members ms)))" using ms(2,3) by (metis mset_eq_imp_distinct_iff)
  moreover have "wf_members (sort_key fst (sort_members ms))" using ms(1) by (simp add: wf_members_all)
  ultimately show ?case by simp
qed simp_all

lemma all_space: "\<forall>c\<in>set w. space c \<Longrightarrow> skip_ws (w @ s) = skip_ws s"
  by (induction w) auto

lemma loads_render:
  assumes "wf_json v" and "\<forall>c\<in>set w. space c" and "\<forall>c\<in>set w'. space c"
  shows "loads (w @ render indent l v @ w') = Some v"
proof -
  let ?t = "render indent l v @ w'"
  have t: "skip_ws (w @ ?t) = ?t" using all_space [OF assms(2)] starts_value_append [OF starts_render [OF assms(1)]] by metis
  have "stops w'" using assms(3) by (cases w') (auto simp: stops_def)
  moreover have "need v \<le> Suc (2 * length ?t)" using need_length(1) [OF assms(1), of indent l] by simp
  ultimately have "read_value (Suc (2 * length ?t)) ?t = Some (v, w')" by (intro read_render(1) [OF assms(1)]) simp_all
  moreover have "skip_ws w' = []" using all_space [OF assms(3), of "[]"] by simp
  ultimately show ?thesis unfolding loads_def Let_def t by (simp del: read_value.simps)
qed

end
