(* ===== verification/Json_Cut.thy ===== *)
theory Json_Cut
  imports Json
begin

text \<open>
  What the reader of \<open>Json\<close> does with a text that is cut short or continued: a value that ends by itself
  is read whatever follows it, so no proper prefix of a text loads; and the fuel of \<open>loads\<close> is enough.
\<close>

section \<open>A text that is cut short\<close>

lemma read_hex_append: "read_hex n acc s = Some (c, r) \<Longrightarrow> read_hex n acc (s @ t) = Some (c, r @ t)"
  by (induction n acc s rule: read_hex.induct) (auto split: option.splits)

lemma read_hex_long: "read_hex n acc s = None \<Longrightarrow> n \<le> length s \<Longrightarrow> read_hex n acc (s @ t) = None"
  by (induction n acc s rule: read_hex.induct) (auto split: option.splits)

lemma read_hex_plain: "read_hex n acc s = Some (c, r) \<Longrightarrow> \<exists>h. s = h @ r \<and> length h = n \<and> (\<forall>x\<in>set h. hex_value x \<noteq> None)"
proof (induction n acc s rule: read_hex.induct)
  case (3 n acc c s)
  then obtain d h where "hex_value c = Some d" "s = h @ r" "length h = n" "\<forall>x\<in>set h. hex_value x \<noteq> None" by (auto split: option.splits)
  then show ?case by (intro exI [of _ "c # h"]) simp
qed auto

lemma read_escape_u_None: "read_hex 4 0 r = None \<Longrightarrow> read_chars (92 # 117 # r) = None"
  by (simp add: read_chars.simps [of "92 # 117 # r"] read_escape_def)

lemma low_surrogate_append:
  assumes "read_chars r \<noteq> None"
  shows "low_surrogate (r @ t) = map_option (apsnd (\<lambda>x. x @ t)) (low_surrogate r)"
proof (cases "take 2 r = [92, 117]")
  case True
  then obtain r' where r: "r = 92 # 117 # r'" by (metis append_Cons append_Nil append_take_drop_id)
  obtain c x where h: "read_hex 4 0 r' = Some (c, x)" using assms read_escape_u_None [of r'] r by (cases "read_hex 4 0 r'") auto
  then show ?thesis using read_hex_append [OF h, of t] by (simp add: low_surrogate_def r)
next
  case False
  obtain a r' where r: "r = a # r'" using assms by (cases r) (auto simp: read_chars.simps)
  have "take 2 (r @ t) \<noteq> [92, 117]"
  proof (cases r')
    case Nil
    then have "a \<noteq> 92" using assms r by (auto simp: read_chars.simps [of "[92]"] read_escape_def)
    then show ?thesis using r Nil by (simp add: take_Cons')
  qed (use r False in \<open>simp add: take_Cons'\<close>)
  then show ?thesis using False by (simp add: low_surrogate_def)
qed

lemma read_chars_append: "read_chars s = Some (x, r) \<Longrightarrow> read_chars (s @ t) = Some (x, r @ t)"
proof (induction s arbitrary: x rule: read_chars.induct)
  case (1 s)
  from "1.prems" obtain c s' where s: "s = c # s'" by (cases s) (simp_all add: read_chars.simps)
  consider "c = 34" | (esc) "c = 92" | (plain) "c \<noteq> 34" "c \<noteq> 92" by blast
  then show ?case
  proof cases
    case 1
    then show ?thesis using "1.prems" s by (simp add: read_chars.simps [of "34 # _"])
  next
    case esc
    then obtain d u y where e: "read_escape s' = Some (d, u)" and y: "read_chars u = Some (y, r)" "x = d # y"
      using "1.prems" s by (auto simp: read_chars.simps [of "92 # s'"] split: option.splits)
    have "read_escape (s' @ t) = Some (d, u @ t)"
    proof (cases s')
      case Nil
      then show ?thesis using e by (simp add: read_escape_def)
    next
      case (Cons k z)
      show ?thesis
      proof (cases "k = 117")
        case False
        then show ?thesis using e Cons by (auto simp: read_escape_def)
      next
        case True
        then obtain c' z' where h: "read_hex 4 0 z = Some (c', z')" using e Cons by (auto simp: read_escape_def split: option.splits)
        show ?thesis
        proof (cases "0xD800 \<le> c' \<and> c' < 0xDC00")
          case False
          then show ?thesis using e Cons True h read_hex_append [OF h, of t] by (auto simp: read_escape_def)
        next
          case pair: True
          have "read_chars z' \<noteq> None"
          proof (cases "low_surrogate z'")
            case None
            then have "u = z'" using e Cons True h pair by (simp add: read_escape_def)
            then show ?thesis using y by simp
          next
            case (Some p)
            then obtain w where w: "take 2 z' = [92, 117]" "read_hex 4 0 (drop 2 z') = Some w" "0xDC00 \<le> fst w"
              and u: "u = snd w" using e Cons True h pair by (auto simp: read_escape_def low_surrogate_def split: if_splits option.splits)
            obtain z2 where "z' = 92 # 117 # z2" using w(1) by (metis append_Cons append_Nil append_take_drop_id)
            then have "read_escape (117 # z2) = Some w" using w by (auto simp: read_escape_def split: prod.split)
            then have "read_chars z' = map_option (apfst (Cons (fst w))) (read_chars u)"
              using read_chars_escape [of "117 # z2" "fst w" u] u \<open>z' = 92 # 117 # z2\<close> by simp
            then show ?thesis using y by simp
          qed
          from low_surrogate_append [OF this, of t] show ?thesis
            using e Cons True h pair read_hex_append [OF h, of t] by (auto simp: read_escape_def split: option.splits)
        qed
      qed
    qed
    moreover have "read_chars (u @ t) = Some (y, r @ t)" using "1.IH"(1) [OF s _ esc e] y esc by simp
    ultimately show ?thesis using s esc y read_chars_escape [of "s' @ t" d "u @ t"] by simp
  next
    case plain
    then have nc: "\<not> c < 32" using "1.prems" s by (auto simp: read_chars.simps [of "c # s'"])
    obtain y where y: "read_chars s' = Some (y, r)" "x = c # y" using "1.prems" s read_chars_plain [OF plain nc, of s'] by auto
    have "read_chars (s' @ t) = Some (y, r @ t)" using "1.IH"(2) [OF s] plain nc y by blast
    then show ?thesis using s y read_chars_plain [OF plain nc, of "s' @ t"] by simp
  qed
qed


lemma skip_append: "skip_ws r = d # r' \<Longrightarrow> skip_ws (r @ t) = d # r' @ t"
  by (induction r) (auto split: if_splits)

lemma skip_shorter: "skip_ws r = d # r' \<Longrightarrow> length r' < length r"
  by (induction r) (auto split: if_splits)

lemma read_number_atom: "read_number s = Some (v, r) \<Longrightarrow> \<not> closed v"
  by (auto simp: read_number_def Let_def split: if_splits)

lemma atom_not_closed: "read_atom s = Some (v, r) \<Longrightarrow> \<not> closed v"
  by (cases s) (auto simp: read_atom_def literal_at_def split: option.splits if_splits dest: read_number_atom)

lemma stops_after: "skip_ws r = d # r' \<Longrightarrow> d = 93 \<or> d = 125 \<or> d = 44 \<Longrightarrow> stops (r @ t)"
  by (cases r) (auto simp: stops_def split: if_splits)

lemma take1: "take 1 s = [c] \<longleftrightarrow> (\<exists>r. s = c # r)"
  by (cases s) auto

lemma read_array_Some:
  "read_array (Suc n) s = Some (vs, r) \<longleftrightarrow> (\<exists>v u d u'. read_value n s = Some (v, u) \<and> skip_ws u = d # u'
     \<and> (d = 93 \<and> vs = [v] \<and> r = u' \<or> d = 44 \<and> (\<exists>ws. read_array n (skip_ws u') = Some (ws, r) \<and> vs = v # ws)))"
  by (cases "read_value n s") (auto split: list.splits if_splits)

lemma read_object_Some:
  "read_object (Suc n) s = Some (ms, r) \<longleftrightarrow> (\<exists>k s1 s2 s3 v u d u'. s = 34 # s1 \<and> read_chars s1 = Some (k, s2)
     \<and> skip_ws s2 = 58 # s3 \<and> read_value n (skip_ws s3) = Some (v, u) \<and> skip_ws u = d # u'
     \<and> (d = 125 \<and> ms = [(k, v)] \<and> r = u' \<or> d = 44 \<and> (\<exists>ms'. read_object n (skip_ws u') = Some (ms', r) \<and> ms = (k, v) # ms')))"
proof (cases "take 1 s = [34]")
  case True
  then obtain s1 where s: "s = 34 # s1" unfolding take1 by blast
  show ?thesis
  proof (cases "read_chars s1")
    case (Some ks)
    obtain k s2 where ks: "ks = (k, s2)" by fastforce
    show ?thesis
    proof (cases "take 1 (skip_ws s2) = [58]")
      case True
      then obtain s3 where "skip_ws s2 = 58 # s3" unfolding take1 by blast
      then show ?thesis using s Some ks by (cases "read_value n (skip_ws s3)") (auto split: list.splits if_splits)
    next
      case False
      then have "skip_ws s2 \<noteq> 58 # s3" for s3 by auto
      then show ?thesis using s Some ks False by simp
    qed
  qed (simp add: s)
next
  case False
  then have "s \<noteq> 34 # s1" for s1 by auto
  then show ?thesis using False by simp
qed

declare read_array.simps(2) [simp del] read_object.simps(2) [simp del]

lemma read_value_nothing [simp]: "read_value n [] = None"
  by (cases n) (simp_all add: read_atom_def)

lemma read_array_nothing [simp]: "read_array n [] = None"
  by (cases n) (simp_all add: read_array.simps(2))

lemma read_object_nothing [simp]: "read_object n [] = None"
  by (cases n) (simp_all add: read_object.simps(2))

lemma skip_keep: "skip_ws u \<noteq> [] \<Longrightarrow> skip_ws (u @ t) = skip_ws u @ t"
  using skip_append by (cases "skip_ws u") auto

lemma read_append:
  "read_value n s = Some (v, r) \<Longrightarrow> closed v \<or> stops (r @ t) \<Longrightarrow> read_value n (s @ t) = Some (v, r @ t)"
  "read_array n s = Some (vs, r) \<Longrightarrow> read_array n (s @ t) = Some (vs, r @ t)"
  "read_object n s = Some (ms, r) \<Longrightarrow> read_object n (s @ t) = Some (ms, r @ t)"
proof (induction n arbitrary: s v vs ms r)
  case (Suc n)
  {
    case 1
    obtain c s' where s: "s = c # s'" using 1 by (cases s) simp_all
    consider "c = 34" | (arr) "c = 91" | (obj) "c = 123" | (atom) "c \<noteq> 34" "c \<noteq> 91" "c \<noteq> 123" by blast
    then show ?case
    proof cases
      case 1
      then show ?thesis using "1.prems" s read_chars_append by auto
    next
      case arr
      then obtain d u where d: "skip_ws s' = d # u" using "1.prems" s by (cases "skip_ws s'") simp_all
      show ?thesis using "1.prems" s arr d skip_append [OF d, of t] Suc.IH(2) [of "d # u"] by (auto split: if_splits)
    next
      case obj
      then obtain d u where d: "skip_ws s' = d # u" using "1.prems" s by (cases "skip_ws s'") simp_all
      show ?thesis using "1.prems" s obj d skip_append [OF d, of t] Suc.IH(3) [of "d # u"] by (auto split: if_splits)
    next
      case atom
      then show ?thesis using "1.prems" s read_atom_append [of s v r t] atom_not_closed [of s v r] by auto
    qed
  next
    case 2
    then obtain v u d u' where v: "read_value n s = Some (v, u)" and d: "skip_ws u = d # u'"
      and rest: "d = 93 \<and> vs = [v] \<and> r = u' \<or> d = 44 \<and> (\<exists>ws. read_array n (skip_ws u') = Some (ws, r) \<and> vs = v # ws)"
      unfolding read_array_Some by blast
    have v': "read_value n (s @ t) = Some (v, u @ t)" using stops_after [OF d] rest by (intro Suc.IH(1) [OF v]) blast
    from rest show ?case
    proof (elim disjE conjE exE)
      assume "d = 93" "vs = [v]" "r = u'"
      then show ?thesis using v' skip_append [OF d, of t] unfolding read_array_Some by (intro exI conjI disjI1) simp_all
    next
      fix ws
      assume ws: "d = 44" "read_array n (skip_ws u') = Some (ws, r)" "vs = v # ws"
      then have "skip_ws u' \<noteq> []" by auto
      then have "read_array n (skip_ws (u' @ t)) = Some (ws, r @ t)" using Suc.IH(2) [OF ws(2)] skip_keep by simp
      then show ?thesis using v' ws skip_append [OF d, of t] unfolding read_array_Some by blast
    qed
  next
    case 3
    then obtain k s1 s2 s3 v u d u' where s: "s = 34 # s1" "read_chars s1 = Some (k, s2)" "skip_ws s2 = 58 # s3"
      and v: "read_value n (skip_ws s3) = Some (v, u)" and d: "skip_ws u = d # u'"
      and rest: "d = 125 \<and> ms = [(k, v)] \<and> r = u' \<or> d = 44 \<and> (\<exists>ms'. read_object n (skip_ws u') = Some (ms', r) \<and> ms = (k, v) # ms')"
      unfolding read_object_Some by blast
    have "skip_ws s3 \<noteq> []" using v by auto
    moreover have "read_value n (skip_ws s3 @ t) = Some (v, u @ t)" using stops_after [OF d] rest by (intro Suc.IH(1) [OF v]) blast
    ultimately have v': "read_value n (skip_ws (s3 @ t)) = Some (v, u @ t)" using skip_keep by simp
    have s': "s @ t = 34 # s1 @ t" "read_chars (s1 @ t) = Some (k, s2 @ t)" "skip_ws (s2 @ t) = 58 # s3 @ t"
      using s read_chars_append skip_append by auto
    from rest show ?case
    proof (elim disjE conjE exE)
      assume "d = 125" "ms = [(k, v)]" "r = u'"
      then show ?thesis using s' v' skip_append [OF d, of t] unfolding read_object_Some by blast
    next
      fix ms'
      assume ms': "d = 44" "read_object n (skip_ws u') = Some (ms', r)" "ms = (k, v) # ms'"
      then have "skip_ws u' \<noteq> []" by auto
      then have "read_object n (skip_ws (u' @ t)) = Some (ms', r @ t)" using Suc.IH(3) [OF ms'(2)] skip_keep by simp
      then show ?thesis using s' v' ms' skip_append [OF d, of t] unfolding read_object_Some by blast
    qed
  }
qed simp_all

text \<open>Every reader consumes something, so the fuel of \<open>loads\<close> is as good as any greater one.\<close>

lemma read_chars_Some:
  "read_chars (c # s) = Some (x, r) \<longleftrightarrow> (c = 34 \<and> x = [] \<and> r = s
     \<or> c = 92 \<and> (\<exists>d u y. read_escape s = Some (d, u) \<and> read_chars u = Some (y, r) \<and> x = d # y)
     \<or> c \<noteq> 34 \<and> c \<noteq> 92 \<and> \<not> c < 32 \<and> (\<exists>y. read_chars s = Some (y, r) \<and> x = c # y))"
  by (auto simp: read_chars.simps [of "c # s"] split: option.splits)

lemma read_chars_shorter: "read_chars s = Some (x, r) \<Longrightarrow> length r < length s"
proof (induction "length s" arbitrary: s x rule: less_induct)
  case less
  then obtain c s' where s: "s = c # s'" by (cases s) (simp_all add: read_chars.simps)
  from less.prems consider "r = s'" | d u y where "read_escape s' = Some (d, u)" "read_chars u = Some (y, r)"
    | y where "read_chars s' = Some (y, r)" unfolding s read_chars_Some by blast
  then show ?case
  proof cases
    case 2
    then show ?thesis using less.hyps [of u y] read_escape_shorter [OF 2(1)] s by simp
  next
    case 3
    then show ?thesis using less.hyps [of s' y] s by simp
  qed (simp add: s)
qed

lemma read_number_shorter: "read_number s = Some (v, r) \<Longrightarrow> length r < length s"
proof -
  assume "read_number s = Some (v, r)"
  from number_read [OF this] obtain i f x where "s = i @ f @ x @ r" "is_number i f x" .
  moreover then have "i \<noteq> []" by (auto simp: is_number_def is_integer_def digits_def)
  ultimately show ?thesis by (cases i) simp_all
qed

lemma read_atom_shorter: "read_atom s = Some (v, r) \<Longrightarrow> length r < length s"
  by (cases s) (auto simp: read_atom_def literal_at_def asc_def split: option.splits if_splits dest!: read_number_shorter simp: less_Suc_eq_le)

lemma skip_le: "length (skip_ws s) \<le> length s"
  by (induction s) auto

lemma read_shorter:
  "read_value n s = Some (v, r) \<Longrightarrow> length r < length s"
  "read_array n s = Some (vs, r) \<Longrightarrow> length r < length s"
  "read_object n s = Some (ms, r) \<Longrightarrow> length r < length s"
proof (induction n arbitrary: s v vs ms r)
  case (Suc n)
  {
    case 1
    then obtain c s' where s: "s = c # s'" by (cases s) simp_all
    show ?case
    proof (cases "c = 34 \<or> c = 91 \<or> c = 123")
      case True
      show ?thesis
      proof (cases "c = 34")
        case False
        then obtain d u where d: "skip_ws s' = d # u" using 1 s True by (cases "skip_ws s'") auto
        then have "r = u \<or> (\<exists>vs. read_array n (d # u) = Some (vs, r)) \<or> (\<exists>ms. read_object n (d # u) = Some (ms, r))"
          using 1 s True False by (auto split: if_splits)
        then have "length r < length (d # u)" by (elim disjE exE) (simp, (erule Suc.IH(2) Suc.IH(3))+)
        then show ?thesis using s skip_le [of s'] d by simp
      qed (use 1 s in \<open>auto dest: read_chars_shorter\<close>)
    next
      case False
      then have "read_atom s = Some (v, r)" using 1 s by simp
      then show ?thesis by (rule read_atom_shorter)
    qed
  next
    case 2
    then obtain v u d u' where v: "read_value n s = Some (v, u)" and d: "skip_ws u = d # u'"
      and "r = u' \<or> (\<exists>ws. read_array n (skip_ws u') = Some (ws, r))" unfolding read_array_Some by blast
    then have "length r \<le> length u'" using Suc.IH(2) [of "skip_ws u'"] skip_le [of u'] by (auto intro: order.strict_implies_order less_le_trans)
    then show ?case using Suc.IH(1) [OF v] skip_shorter [OF d] by simp
  next
    case 3
    then obtain k s1 s2 s3 v u d u' where s: "s = 34 # s1" "read_chars s1 = Some (k, s2)" "skip_ws s2 = 58 # s3"
      and v: "read_value n (skip_ws s3) = Some (v, u)" and d: "skip_ws u = d # u'"
      and "r = u' \<or> (\<exists>ms'. read_object n (skip_ws u') = Some (ms', r))" unfolding read_object_Some by blast
    then have "length r \<le> length u'" using Suc.IH(3) [of "skip_ws u'"] skip_le [of u'] by (auto intro: order.strict_implies_order less_le_trans)
    then show ?case using Suc.IH(1) [OF v] skip_shorter [OF d] skip_shorter [OF s(3)] skip_le [of s3] read_chars_shorter [OF s(2)] s(1) by simp
  }
qed simp_all

lemma fuel_step:
  "2 * length s \<le> n \<Longrightarrow> read_value (Suc n) s = read_value n s"
  "2 * length s < n \<Longrightarrow> read_array (Suc n) s = read_array n s"
  "2 * length s < n \<Longrightarrow> read_object (Suc n) s = read_object n s"
proof (induction n arbitrary: s)
  case (Suc n)
  {
    case 1
    have inner: "read_array (Suc n) (d # u) = read_array n (d # u) \<and> read_object (Suc n) (d # u) = read_object n (d # u)"
      if "s = c # s'" "skip_ws s' = d # u" for c s' d u
      using 1 that skip_le [of s'] Suc.IH(2,3) [of "d # u"] by simp
    show ?case
    proof (cases s)
      case (Cons c s')
      then show ?thesis using inner [OF Cons]
        by (cases "skip_ws s'") (simp_all add: read_value.simps(2) del: read_array.simps read_object.simps)
    qed simp
  next
    case 2
    have rest: "read_array (Suc n) (skip_ws u') = read_array n (skip_ws u')" if "read_value n s = Some (v, u)" "skip_ws u = d # u'" for v u d u'
      using 2 read_shorter(1) [OF that(1)] skip_shorter [OF that(2)] skip_le [of u'] by (intro Suc.IH(2)) simp
    have "read_value (Suc n) s = read_value n s" using 2 by (intro Suc.IH(1)) simp
    then show ?case unfolding read_array.simps(2) [of "Suc n" s] read_array.simps(2) [of n s]
      by (auto dest: rest split: option.split list.split simp del: read_value.simps)
  next
    case 3
    have len: "length (skip_ws (drop 1 (skip_ws r))) \<le> length r" "length r < length s" if "read_chars (drop 1 s) = Some (k, r)" for k r
      using read_chars_shorter [OF that] skip_le [of r] skip_le [of "drop 1 (skip_ws r)"] by simp_all
    have head: "read_value (Suc n) (skip_ws (drop 1 (skip_ws r))) = read_value n (skip_ws (drop 1 (skip_ws r)))"
      if "read_chars (drop 1 s) = Some (k, r)" for k r
      using 3 len [OF that] by (intro Suc.IH(1)) simp
    have rest: "read_object (Suc n) (skip_ws u') = read_object n (skip_ws u')"
      if "read_chars (drop 1 s) = Some (k, r)" "read_value n (skip_ws (drop 1 (skip_ws r))) = Some (v, u)" "skip_ws u = d # u'" for k r v u d u'
      using 3 len [OF that(1)] read_shorter(1) [OF that(2)] skip_shorter [OF that(3)] skip_le [of u'] by (intro Suc.IH(3)) simp
    note unfold = read_object.simps(2) [of "Suc n" s] read_object.simps(2) [of n s]
    show ?case
    proof (cases "read_chars (drop 1 s)")
      case None
      then show ?thesis unfolding unfold by simp
    next
      case (Some kr)
      then obtain k r where kr: "read_chars (drop 1 s) = Some (k, r)" by (cases kr) simp
      have more: "read_value (Suc n) (skip_ws (drop (Suc 0) (skip_ws r))) = read_value n (skip_ws (drop (Suc 0) (skip_ws r)))"
        using head [OF kr] by (simp del: read_value.simps)
      show ?thesis
      proof (cases "read_value n (skip_ws (drop 1 (skip_ws r)))")
        case None
        then show ?thesis unfolding unfold by (simp add: kr [simplified] more del: read_value.simps)
      next
        case (Some vu)
        then obtain v u where vu: "read_value n (skip_ws (drop 1 (skip_ws r))) = Some (v, u)" by (cases vu) simp
        show ?thesis unfolding unfold using rest [OF kr vu]
          by (cases "skip_ws u") (simp_all add: kr [simplified] vu [simplified] more del: read_value.simps)
      qed
    qed
  }
qed simp_all

text \<open>More fuel than \<open>loads\<close> gives changes nothing.\<close>

lemma fuel_enough: "2 * length s \<le> n \<Longrightarrow> n \<le> m \<Longrightarrow> read_value m s = read_value n s"
proof (induction m)
  case (Suc m)
  then show ?case by (cases "n = Suc m") (simp_all add: fuel_step(1) del: read_value.simps)
qed simp

text \<open>A text that holds a string, an array or an object is no proper prefix of another text that loads.\<close>

lemma loads_read: "loads s = Some v \<longleftrightarrow> (\<exists>r n. read_value n (skip_ws s) = Some (v, r) \<and> skip_ws r = [] \<and> 2 * length s < n)"
proof
  assume "loads s = Some v"
  then obtain r where r: "read_value (Suc (2 * length (skip_ws s))) (skip_ws s) = Some (v, r)" "skip_ws r = []"
    by (auto simp: loads_def Let_def split: option.splits if_splits simp del: read_value.simps)
  have "read_value (Suc (2 * length s)) (skip_ws s) = read_value (Suc (2 * length (skip_ws s))) (skip_ws s)"
    using skip_le [of s] by (intro fuel_enough) simp_all
  then show "\<exists>r n. read_value n (skip_ws s) = Some (v, r) \<and> skip_ws r = [] \<and> 2 * length s < n"
    using r by (intro exI [of _ r] exI [of _ "Suc (2 * length s)"]) simp
next
  assume "\<exists>r n. read_value n (skip_ws s) = Some (v, r) \<and> skip_ws r = [] \<and> 2 * length s < n"
  then obtain r n where r: "read_value n (skip_ws s) = Some (v, r)" "skip_ws r = []" "2 * length s < n" by blast
  have "read_value n (skip_ws s) = read_value (Suc (2 * length (skip_ws s))) (skip_ws s)"
    using skip_le [of s] r(3) by (intro fuel_enough) simp_all
  then have "read_value (Suc (2 * length (skip_ws s))) (skip_ws s) = Some (v, r)" using r(1) by simp
  then show "loads s = Some v" using r(2) unfolding loads_def Let_def by (simp del: read_value.simps)
qed

lemma loads_prefix:
  assumes "loads p = Some v" and "closed v" and "loads (p @ t) = Some w"
  shows "w = v \<and> skip_ws t = []"
proof -
  obtain r n where r: "read_value n (skip_ws p) = Some (v, r)" "skip_ws r = []" "2 * length p < n" using assms(1) loads_read by blast
  obtain r' m where r': "read_value m (skip_ws (p @ t)) = Some (w, r')" "skip_ws r' = []" "2 * length (p @ t) < m" using assms(3) loads_read by blast
  have "skip_ws p \<noteq> []" using r(1) by auto
  then have p: "skip_ws (p @ t) = skip_ws p @ t" by (rule skip_keep)
  have "read_value m (skip_ws p) = read_value n (skip_ws p)"
    using fuel_enough [of "skip_ws p" n "max n m"] fuel_enough [of "skip_ws p" m "max n m"] skip_le [of p] r(3) r'(3) by simp
  then have "read_value m (skip_ws p @ t) = Some (v, r @ t)" using r(1) by (intro read_append(1)) (simp_all add: assms(2))
  then have "w = v" "r' = r @ t" using r'(1) p by simp_all
  moreover have "skip_ws (r @ t) = skip_ws t" using r(2) by (induction r) (auto split: if_splits)
  ultimately show ?thesis using r'(2) by simp
qed

end
