(* ===== verification/Stored.thy ===== *)
theory Stored
  imports Trials Ingest_Server Json_Cut
begin

text \<open>
  The texts the code keeps: the JSON columns of a job (\<open>storage/tsdb.py\<close>), the manifest of the trials
  (\<open>eval/generate_trial_seeds.py\<close>), their result files (\<open>eval/run_trials.py\<close>) and the lines of the log
  (\<open>logging_utils.py\<close>), as \<open>json.dumps\<close> writes and \<open>json.loads\<close> reads them. A string of the model is the
  UTF-8 encoding of Python's, a JSON string its code points. A float is written by \<open>float.__repr__\<close>, a
  parameter \<open>repr\<close> with its documented round trip.
\<close>

section \<open>Fields\<close>

definition json_str :: "string \<Rightarrow> json" where
  "json_str s = JStr (code_points s)"

fun json_opt :: "('a \<Rightarrow> json) \<Rightarrow> 'a option \<Rightarrow> json" where
  "json_opt f None = JNull"
| "json_opt f (Some x) = f x"

text \<open>\<open>v[k]\<close> of a dict; \<open>None\<close> is a KeyError or a TypeError.\<close>

fun field :: "string \<Rightarrow> json \<Rightarrow> json option" where
  "field k (JObj ms) = map_of ms (asc k)"
| "field k _ = None"

fun str_of :: "json \<Rightarrow> string option" where
  "str_of (JStr s) = Some (utf8 s)"
| "str_of _ = None"

fun int_of :: "json \<Rightarrow> int option" where
  "int_of (JInt i) = Some i"
| "int_of _ = None"

fun bool_of :: "json \<Rightarrow> bool option" where
  "bool_of (JBool b) = Some b"
| "bool_of _ = None"

fun items_of :: "json \<Rightarrow> json list option" where
  "items_of (JArr vs) = Some vs"
| "items_of _ = None"

definition opt_of :: "(json \<Rightarrow> 'a option) \<Rightarrow> json \<Rightarrow> 'a option option" where
  "opt_of f v = (if v = JNull then Some None else map_option Some (f v))"

definition get :: "string \<Rightarrow> (json \<Rightarrow> 'a option) \<Rightarrow> json \<Rightarrow> 'a option" where
  "get k f v = Option.bind (field k v) f"

fun all_of :: "(json \<Rightarrow> 'a option) \<Rightarrow> json list \<Rightarrow> 'a list option" where
  "all_of f [] = Some []"
| "all_of f (v # vs) = (case f v of None \<Rightarrow> None | Some x \<Rightarrow> map_option (Cons x) (all_of f vs))"

definition list_of :: "(json \<Rightarrow> 'a option) \<Rightarrow> json \<Rightarrow> 'a list option" where
  "list_of f v = Option.bind (items_of v) (all_of f)"

text \<open>\<open>float(t)\<close> for the text of a finite float: the exact value of the decimal, rounded.\<close>

definition digits_value :: "ustr \<Rightarrow> nat" where
  "digits_value ds = foldl (\<lambda>a c. 10 * a + (c - 48)) 0 ds"

definition scale10 :: "int \<Rightarrow> rat \<Rightarrow> rat" where
  "scale10 e m = (if e < 0 then m / 10 ^ nat (- e) else m * 10 ^ nat e)"

definition exponent_value :: "ustr \<Rightarrow> int" where
  "exponent_value x = (let s = sign_of [43, 45] (drop 1 x); n = int (digits_value (drop (length s) (drop 1 x)))
     in if s = [45] then - n else n)"

definition float_value :: "ustr \<Rightarrow> rat" where
  "float_value t = (let i = read_integer t; f = read_fraction (drop (length i) t);
       x = read_exponent (drop (length i + length f) t); negative = (take 1 i = [45]);
       ds = (if negative then drop 1 i else i) @ drop 1 f;
       m = scale10 (exponent_value x - int (length (drop 1 f))) (of_nat (digits_value ds))
     in rnd (if negative then - m else m))"

fun float_of :: "json \<Rightarrow> rat option" where
  "float_of (JFloat t) = Some (float_value t)"
| "float_of _ = None"

text \<open>What is documented of \<open>repr\<close>: \<open>float(repr(x)) == x\<close>, and the text is a number of JSON.\<close>

definition repr_ok :: "(rat \<Rightarrow> ustr) \<Rightarrow> rat \<Rightarrow> bool" where
  "repr_ok repr z \<longleftrightarrow> float_text (repr z) \<and> float_value (repr z) = z"

section \<open>The texts\<close>

definition node_ids_text :: "string list \<Rightarrow> ustr" where
  "node_ids_text node_ids = dumps None False (JArr (map json_str node_ids))"

definition read_node_ids :: "ustr \<Rightarrow> string list option" where
  "read_node_ids t = Option.bind (loads t) (list_of str_of)"

text \<open>A key that the dict does not have is not written.\<close>

definition fault_json :: "fault_manifest \<Rightarrow> json" where
  "fault_json m = JObj (List.map_filter (\<lambda>(k, v). map_option (Pair (asc k)) v)
     [(''target_host'', map_option json_str (fm_target_host m)), (''phase_index'', map_option JInt (fm_phase_index m)),
      (''fault_type'', map_option json_str (fm_fault_type m)), (''intensity'', map_option JInt (fm_intensity m))])"

definition fault_text :: "fault_manifest \<Rightarrow> ustr" where
  "fault_text m = dumps None False (fault_json m)"

definition read_fault :: "ustr \<Rightarrow> fault_manifest option" where
  "read_fault t = map_option (\<lambda>v. \<lparr>fm_target_host = get ''target_host'' str_of v, fm_phase_index = get ''phase_index'' int_of v,
     fm_fault_type = get ''fault_type'' str_of v, fm_intensity = get ''intensity'' int_of v\<rparr>) (loads t)"

text \<open>A row of the table \<open>jobs\<close> as SQLite holds it, and what \<open>get_job\<close> makes of it.\<close>

record job_text_row =
  jt_job_id :: string
  jt_phase_count :: int
  jt_node_ids_json :: ustr
  jt_fault_manifest_json :: "ustr option"
  jt_status :: string
  jt_created_ts_ns :: int

definition text_row :: "job_row \<Rightarrow> job_text_row" where
  "text_row j = \<lparr>jt_job_id = jr_job_id j, jt_phase_count = jr_phase_count j,
     jt_node_ids_json = node_ids_text (jr_node_ids_json j),
     jt_fault_manifest_json = map_option fault_text (jr_fault_manifest_json j),
     jt_status = jr_status j, jt_created_ts_ns = jr_created_ts_ns j\<rparr>"

definition fetch_row :: "job_text_row \<Rightarrow> job_row option" where
  "fetch_row r = do {
     node_ids \<leftarrow> read_node_ids (jt_node_ids_json r);
     manifest \<leftarrow> (case jt_fault_manifest_json r of None \<Rightarrow> Some None | Some t \<Rightarrow> map_option Some (read_fault t));
     Some \<lparr>jr_job_id = jt_job_id r, jr_phase_count = jt_phase_count r, jr_node_ids_json = node_ids,
       jr_fault_manifest_json = manifest, jr_status = jt_status r, jr_created_ts_ns = jt_created_ts_ns r\<rparr> }"

text \<open>The manifest file of the trials.\<close>

definition trial_json :: "trial \<Rightarrow> json" where
  "trial_json t = JObj [(asc ''trial_id'', json_str (tr_trial_id t)), (asc ''fault_type'', json_opt json_str (tr_fault_type t)),
     (asc ''target_host'', json_opt json_str (tr_target_host t)), (asc ''intensity'', json_opt JInt (tr_intensity t)),
     (asc ''phase_index'', JInt (tr_phase_index t)), (asc ''sieve_limit'', JInt (tr_sieve_limit t)), (asc ''seed'', JInt (tr_seed t))]"

definition manifest_text :: "manifest \<Rightarrow> ustr" where
  "manifest_text mf = dumps (Some 2) True (JObj [(asc ''schema_version'', JInt 1),
     (asc ''fault_trials'', JArr (map trial_json (mf_fault_trials mf))),
     (asc ''no_fault_trials'', JArr (map trial_json (mf_no_fault_trials mf)))]) @ [10]"

definition trial_of_json :: "json \<Rightarrow> trial option" where
  "trial_of_json v = do {
     trial_id \<leftarrow> get ''trial_id'' str_of v;
     fault_type \<leftarrow> get ''fault_type'' (opt_of str_of) v;
     target_host \<leftarrow> get ''target_host'' (opt_of str_of) v;
     intensity \<leftarrow> get ''intensity'' (opt_of int_of) v;
     phase_index \<leftarrow> get ''phase_index'' int_of v;
     sieve_limit \<leftarrow> get ''sieve_limit'' int_of v;
     seed \<leftarrow> get ''seed'' int_of v;
     Some \<lparr>tr_trial_id = trial_id, tr_fault_type = fault_type, tr_target_host = target_host, tr_intensity = intensity,
       tr_phase_index = phase_index, tr_sieve_limit = sieve_limit, tr_seed = seed\<rparr> }"

definition read_manifest :: "ustr \<Rightarrow> manifest option" where
  "read_manifest t = do {
     v \<leftarrow> loads t;
     fault \<leftarrow> get ''fault_trials'' (list_of trial_of_json) v;
     no_fault \<leftarrow> get ''no_fault_trials'' (list_of trial_of_json) v;
     Some \<lparr>mf_fault_trials = fault, mf_no_fault_trials = no_fault\<rparr> }"

text \<open>The result of a trial.\<close>

definition status_text :: "report_status \<Rightarrow> string" where
  "status_text s = (case s of Ranked \<Rightarrow> ''ranked'' | InsufficientEvidence \<Rightarrow> ''insufficient_evidence'')"

definition status_of :: "json \<Rightarrow> report_status option" where
  "status_of v = Option.bind (str_of v) (\<lambda>s. if s = ''ranked'' then Some Ranked
     else if s = ''insufficient_evidence'' then Some InsufficientEvidence else None)"

definition node_json :: "(rat \<Rightarrow> ustr) \<Rightarrow> ranked_node \<Rightarrow> json" where
  "node_json repr n = JObj [(asc ''node_id'', json_str (rn_node_id n)), (asc ''duration_ns'', JInt (rn_duration_ns n)),
     (asc ''z_score'', JFloat (repr (rn_z_score n))), (asc ''flagged'', JBool (rn_flagged n))]"

definition node_of_json :: "json \<Rightarrow> ranked_node option" where
  "node_of_json v = do {
     node_id \<leftarrow> get ''node_id'' str_of v;
     duration \<leftarrow> get ''duration_ns'' int_of v;
     z_score \<leftarrow> get ''z_score'' float_of v;
     flagged \<leftarrow> get ''flagged'' bool_of v;
     Some \<lparr>rn_node_id = node_id, rn_duration_ns = duration, rn_z_score = z_score, rn_flagged = flagged\<rparr> }"

fun outcome_json :: "(rat \<Rightarrow> ustr) \<Rightarrow> string \<Rightarrow> trial_outcome \<Rightarrow> json" where
  "outcome_json repr trial_id (Aborted reason) = JObj [(asc ''trial_id'', json_str trial_id),
     (asc ''outcome'', json_str ''ABORTED''), (asc ''reason'', json_str reason)]"
| "outcome_json repr trial_id (Completed c) = JObj [(asc ''trial_id'', json_str trial_id),
     (asc ''outcome'', json_str ''COMPLETED''), (asc ''job_id'', json_str (ct_job_id c)),
     (asc ''fault_type'', json_opt json_str (ct_fault_type c)), (asc ''target_host'', json_opt json_str (ct_target_host c)),
     (asc ''expected_target_node_id'', json_opt json_str (ct_expected c)),
     (asc ''straggler_status'', json_str (status_text (ct_status c))),
     (asc ''top_candidate'', json_opt json_str (ct_top_candidate c)),
     (asc ''naive_baseline_candidate'', json_opt json_str (ct_naive_candidate c)),
     (asc ''root_cause'', json_opt json_str (ct_root_cause c)),
     (asc ''ranked_nodes'', JArr (map (node_json repr) (ct_ranked_nodes c)))]"

definition outcome_of_json :: "json \<Rightarrow> trial_outcome option" where
  "outcome_of_json v = do {
     outcome \<leftarrow> get ''outcome'' str_of v;
     if outcome \<noteq> ''COMPLETED'' then map_option Aborted (get ''reason'' str_of v)
     else do {
       job_id \<leftarrow> get ''job_id'' str_of v;
       fault_type \<leftarrow> get ''fault_type'' (opt_of str_of) v;
       target_host \<leftarrow> get ''target_host'' (opt_of str_of) v;
       expected \<leftarrow> get ''expected_target_node_id'' (opt_of str_of) v;
       status \<leftarrow> get ''straggler_status'' status_of v;
       top \<leftarrow> get ''top_candidate'' (opt_of str_of) v;
       naive \<leftarrow> get ''naive_baseline_candidate'' (opt_of str_of) v;
       root_cause \<leftarrow> get ''root_cause'' (opt_of str_of) v;
       ranked \<leftarrow> get ''ranked_nodes'' (list_of node_of_json) v;
       Some (Completed \<lparr>ct_job_id = job_id, ct_fault_type = fault_type, ct_target_host = target_host, ct_expected = expected,
         ct_status = status, ct_top_candidate = top, ct_naive_candidate = naive, ct_root_cause = root_cause,
         ct_ranked_nodes = ranked\<rparr>) } }"

definition result_text :: "(rat \<Rightarrow> ustr) \<Rightarrow> string \<Rightarrow> trial_outcome \<Rightarrow> ustr" where
  "result_text repr trial_id r = dumps (Some 2) True (outcome_json repr trial_id r) @ [10]"

text \<open>The batch on files of text.\<close>

type_synonym result_files = "string \<rightharpoonup> ustr"

fun run_missing_files :: "'w service \<Rightarrow> (rat \<Rightarrow> ustr) \<Rightarrow> trial list \<Rightarrow> result_files \<Rightarrow> 'w
    \<Rightarrow> (trial_error option \<times> result_files \<times> 'w) option" where
  "run_missing_files sv repr [] files w = Some (None, files, w)"
| "run_missing_files sv repr (t # ts) files w =
     (if tr_trial_id t \<in> dom files then run_missing_files sv repr ts files w
      else case run_trial sv t w of
        None \<Rightarrow> None
      | Some (Inl e, w') \<Rightarrow> Some (Some e, files, w')
      | Some (Inr r, w') \<Rightarrow> run_missing_files sv repr ts (files(tr_trial_id t \<mapsto> result_text repr (tr_trial_id t) r)) w')"

datatype file_error = JSONDecodeError | BadResult | Undecided decide_error

fun load_files :: "result_files \<Rightarrow> string list \<Rightarrow> file_error + json list" where
  "load_files files [] = Inr []"
| "load_files files (t # ts) = (case files t of
     None \<Rightarrow> load_files files ts
   | Some s \<Rightarrow> (case loads s of None \<Rightarrow> Inl JSONDecodeError
       | Some v \<Rightarrow> and_then (load_files files ts) (\<lambda>vs. Inr (v # vs))))"

text \<open>The results behind the files, for the estimates, which read their fields.\<close>

definition results_of :: "result_files \<Rightarrow> trial_results" where
  "results_of files t = Option.bind (files t) (\<lambda>s. Option.bind (loads s) outcome_of_json)"

definition summarize_files :: "manifest \<Rightarrow> result_files \<Rightarrow> file_error + summary" where
  "summarize_files mf files =
     and_then (load_files files (map tr_trial_id (mf_fault_trials mf))) (\<lambda>fault.
     and_then (load_files files (map tr_trial_id (mf_no_fault_trials mf))) (\<lambda>no_fault.
       if \<exists>v\<in>set (fault @ no_fault). outcome_of_json v = None then Inl BadResult
       else map_sum Undecided id (summarize mf (results_of files))))"

text \<open>
  A log record as \<open>JsonFormatter.format\<close> sees it, with the clock reading, the name of the logger and the
  formatted exception; \<open>trial_id\<close> is never set by the code.
\<close>

definition log_payload :: "ustr \<Rightarrow> string \<Rightarrow> string option \<Rightarrow> log_record \<Rightarrow> json" where
  "log_payload ts logger exc_info l = JObj ([(asc ''ts'', JFloat ts), (asc ''level'', json_str (lg_level l)),
     (asc ''logger'', json_str logger), (asc ''message'', json_str (lg_message l))]
     @ List.map_filter (\<lambda>(k, v). map_option (\<lambda>s. (asc k, json_str s)) v)
       [(''node_id'', lg_node_id l), (''job_id'', lg_job_id l), (''reason_code'', lg_reason_code l), (''exc_info'', exc_info)])"

definition format_record :: "ustr \<Rightarrow> string \<Rightarrow> string option \<Rightarrow> log_record \<Rightarrow> ustr" where
  "format_record ts logger exc_info l = dumps None True (log_payload ts logger exc_info l)"

text \<open>The stream handler ends every record with a line break.\<close>

definition log_stream :: "(ustr \<times> string \<times> string option \<times> log_record) list \<Rightarrow> ustr" where
  "log_stream rs = concat (map (\<lambda>(ts, logger, exc, l). format_record ts logger exc l @ [10]) rs)"

fun lines_of :: "ustr \<Rightarrow> ustr list" where
  "lines_of [] = []"
| "lines_of (c # s) = (if c = 10 then [] # lines_of s else case lines_of s of [] \<Rightarrow> [[c]] | l # ls \<Rightarrow> (c # l) # ls)"

section \<open>Fields come back\<close>

lemma asc_inj [simp]: "asc a = asc b \<longleftrightarrow> a = b"
  unfolding asc_def by (intro inj_map_eq_map) (simp add: inj_on_def)

lemma asc_scalar [simp]: "c \<in> set (asc s) \<Longrightarrow> scalar c"
proof -
  assume "c \<in> set (asc s)"
  then have "c < 256" using nat_of_char_less_256 by (auto simp: asc_def)
  then show "scalar c" by (simp add: scalar_def)
qed

lemma wf_json_str [simp]: "unicode s \<Longrightarrow> wf_json (json_str s)"
  by (simp add: json_str_def unicode_code_points)

lemma wf_json_opt [simp]: "(\<And>x. o' = Some x \<Longrightarrow> wf_json (f x)) \<Longrightarrow> wf_json (json_opt f o')"
  by (cases o') simp_all

lemma str_of_json [simp]: "unicode s \<Longrightarrow> str_of (json_str s) = Some s"
  by (simp add: json_str_def unicode_code_points)

lemma opt_of_json [simp]: "(\<And>x. o' = Some x \<Longrightarrow> f (g x) = Some x \<and> g x \<noteq> JNull) \<Longrightarrow> opt_of f (json_opt g o') = Some o'"
  by (cases o') (simp_all add: opt_of_def)

lemma json_str_not_null [simp]: "json_str s \<noteq> JNull"
  by (simp add: json_str_def)

lemma sort_json_str [simp]: "sort_json (json_str s) = json_str s"
  by (simp add: json_str_def)

lemma sort_json_opt [simp]: "(\<And>x. sort_json (f x) = f x) \<Longrightarrow> sort_json (json_opt f o') = json_opt f o'"
  by (cases o') simp_all

lemma wf_items_all: "wf_items vs \<longleftrightarrow> (\<forall>v\<in>set vs. wf_json v)"
  by (induction vs) auto

lemma sort_items_map: "sort_items vs = map sort_json vs"
  by (induction vs) auto

lemma sort_members_map: "sort_members ms = map (apsnd sort_json) ms"
  by (induction ms) auto

lemma field_sort: "wf_json v \<Longrightarrow> field k (sort_json v) = map_option sort_json (field k v)"
proof (cases v)
  case (JObj ms)
  assume wf: "wf_json v"
  have keys: "map fst (sort_members ms) = map fst ms" by (simp add: sort_members_map)
  have "mset (map fst (sort_key fst (sort_members ms))) = mset (map fst (sort_members ms))" by simp
  then have "distinct (map fst (sort_key fst (sort_members ms)))" "distinct (map fst (sort_members ms))"
    using wf JObj keys by (metis mset_eq_imp_distinct_iff wf_json.simps(4))+
  then have "map_of (sort_key fst (sort_members ms)) = map_of (sort_members ms)" by (simp add: map_of_inject_set)
  moreover have "map_of (map (apsnd sort_json) ms) k' = map_option sort_json (map_of ms k')" for k' by (induction ms) auto
  ultimately show ?thesis using JObj by (simp add: sort_members_map)
qed simp_all

lemma loads_dumps: "wf_json v \<Longrightarrow> \<forall>c\<in>set w. space c \<Longrightarrow> loads (dumps indent sk v @ w) = Some (if sk then sort_json v else v)"
  using loads_render [of v "[]" w indent 0] loads_render [of "sort_json v" "[]" w indent 0] wf_sort(1) [of v] by (simp add: dumps_def)

lemma all_of_map: "(\<And>x. x \<in> set xs \<Longrightarrow> f (g x) = Some x) \<Longrightarrow> all_of f (map g xs) = Some xs"
  by (induction xs) simp_all

lemma get_sort: "wf_json v \<Longrightarrow> get k f (sort_json v) = get k (f \<circ> sort_json) v"
  by (simp add: get_def field_sort bind_map_option comp_def) 

section \<open>What is written is read back\<close>

fun opt_unicode :: "string option \<Rightarrow> bool" where
  "opt_unicode None \<longleftrightarrow> True"
| "opt_unicode (Some s) \<longleftrightarrow> unicode s"

definition storable :: "(rat \<Rightarrow> ustr) \<Rightarrow> trial_outcome \<Rightarrow> bool" where
  "storable repr r \<longleftrightarrow> (case r of Aborted reason \<Rightarrow> unicode reason
     | Completed c \<Rightarrow> unicode (ct_job_id c) \<and> list_all opt_unicode [ct_fault_type c, ct_target_host c, ct_expected c,
           ct_top_candidate c, ct_naive_candidate c, ct_root_cause c]
         \<and> list_all (\<lambda>n. unicode (rn_node_id n) \<and> repr_ok repr (rn_z_score n)) (ct_ranked_nodes c))"

definition storable_trial :: "trial \<Rightarrow> bool" where
  "storable_trial t \<longleftrightarrow> unicode (tr_trial_id t) \<and> opt_unicode (tr_fault_type t) \<and> opt_unicode (tr_target_host t)"

lemma unicode_literals [simp]: "unicode ''ABORTED''" "unicode ''COMPLETED''" "unicode (status_text s)"
  by (cases s; simp add: status_text_def ascii_unicode ascii_def)+

lemma status_of_text [simp]: "status_of (json_str (status_text s)) = Some s"
  by (cases s) (simp_all add: status_of_def status_text_def ascii_unicode ascii_def)

lemma node_roundtrip:
  assumes "unicode (rn_node_id n)" and "repr_ok repr (rn_z_score n)"
  shows "wf_json (node_json repr n) \<and> node_of_json (sort_json (node_json repr n)) = Some n"
proof -
  have wf: "wf_json (node_json repr n)" using assms by (simp add: node_json_def repr_ok_def)
  moreover have "node_of_json (sort_json (node_json repr n)) = Some n"
    unfolding node_of_json_def get_sort [OF wf] using assms by (simp add: node_json_def get_def repr_ok_def)
  ultimately show ?thesis by simp
qed

lemma list_of_sort: "(\<And>x. x \<in> set xs \<Longrightarrow> f (sort_json (g x)) = Some x) \<Longrightarrow> list_of f (sort_json (JArr (map g xs))) = Some xs"
  using all_of_map [of xs f "sort_json \<circ> g"] by (simp add: list_of_def sort_items_map comp_def)

lemma outcome_roundtrip:
  assumes "unicode tid" and "storable repr r"
  shows "wf_json (outcome_json repr tid r) \<and> outcome_of_json (sort_json (outcome_json repr tid r)) = Some r"
proof (cases r)
  case (Aborted reason)
  then have wf: "wf_json (outcome_json repr tid r)" using assms by (simp add: storable_def)
  moreover have "outcome_of_json (sort_json (outcome_json repr tid r)) = Some r"
    unfolding outcome_of_json_def get_sort [OF wf] using assms Aborted by (simp add: get_def storable_def)
  ultimately show ?thesis by simp
next
  case (Completed c)
  have parts: "unicode (ct_job_id c)" "\<And>x. ct_fault_type c = Some x \<Longrightarrow> unicode x" "\<And>x. ct_target_host c = Some x \<Longrightarrow> unicode x"
    "\<And>x. ct_expected c = Some x \<Longrightarrow> unicode x" "\<And>x. ct_top_candidate c = Some x \<Longrightarrow> unicode x"
    "\<And>x. ct_naive_candidate c = Some x \<Longrightarrow> unicode x" "\<And>x. ct_root_cause c = Some x \<Longrightarrow> unicode x"
    "\<And>n. n \<in> set (ct_ranked_nodes c) \<Longrightarrow> unicode (rn_node_id n) \<and> repr_ok repr (rn_z_score n)"
    using assms(2) Completed by (simp_all add: storable_def list_all_iff)
  have nodes: "wf_json (JArr (map (node_json repr) (ct_ranked_nodes c)))"
    "list_of node_of_json (sort_json (JArr (map (node_json repr) (ct_ranked_nodes c)))) = Some (ct_ranked_nodes c)"
    using parts(8) node_roundtrip by (auto simp: wf_items_all simp del: sort_json.simps intro!: list_of_sort)
  have wf: "wf_json (outcome_json repr tid r)" using assms(1) Completed parts(1-7) nodes(1) by simp
  moreover have "outcome_of_json (sort_json (outcome_json repr tid r)) = Some r"
    unfolding outcome_of_json_def get_sort [OF wf] using assms(1) Completed parts(1-7) nodes(2)
    by (simp add: get_def comp_def del: sort_json.simps)
  ultimately show ?thesis by simp
qed

lemma result_loads:
  assumes "unicode tid" and "storable repr r"
  shows "\<exists>v. loads (result_text repr tid r) = Some v \<and> outcome_of_json v = Some r \<and> closed v"
proof -
  let ?v = "sort_json (outcome_json repr tid r)"
  have "loads (result_text repr tid r) = Some ?v"
    using outcome_roundtrip [OF assms] by (simp add: result_text_def loads_dumps space_def)
  moreover have "closed ?v" by (cases r) simp_all
  ultimately show ?thesis using outcome_roundtrip [OF assms] by blast
qed

section \<open>The batch on files\<close>

definition files_of :: "(rat \<Rightarrow> ustr) \<Rightarrow> trial_results \<Rightarrow> result_files" where
  "files_of repr results t = map_option (result_text repr t) (results t)"

lemma files_of_at: "files_of repr results t = map_option (result_text repr t) (results t)"
  by (simp add: files_of_def)

lemma files_of_upd: "(files_of repr results)(t \<mapsto> result_text repr t r) = files_of repr (results(t \<mapsto> r))"
  by (auto simp: files_of_def)

lemma files_of_dom: "t \<in> dom (files_of repr results) \<longleftrightarrow> t \<in> dom results"
  by (auto simp: files_of_def)

lemma run_missing_files_of:
  "run_missing_files sv repr ts (files_of repr results) w
     = map_option (\<lambda>(e, results', w'). (e, files_of repr results', w')) (run_missing_trials sv ts results w)"
proof (induction ts arbitrary: results w)
  case (Cons t ts)
  show ?case
  proof (cases "tr_trial_id t \<in> dom results")
    case False
    then show ?thesis unfolding run_missing_files.simps run_missing_trials.simps files_of_dom
      by (simp add: files_of_upd Cons.IH del: fun_upd_apply split: option.split sum.split prod.split)
  qed (simp only: run_missing_files.simps run_missing_trials.simps files_of_dom if_True Cons.IH)
qed simp

lemma load_files_of:
  assumes "\<forall>t r. results t = Some r \<longrightarrow> unicode t \<and> storable repr r"
  shows "\<exists>vs. load_files (files_of repr results) ts = Inr vs \<and> (\<forall>v\<in>set vs. outcome_of_json v \<noteq> None)"
proof (induction ts)
  case (Cons t ts)
  then obtain vs where vs: "load_files (files_of repr results) ts = Inr vs" "\<forall>v\<in>set vs. outcome_of_json v \<noteq> None" by blast
  show ?case
  proof (cases "results t")
    case None
    then have "files_of repr results t = None" by (simp add: files_of_at)
    then show ?thesis using vs by simp
  next
    case (Some r)
    then obtain v where "loads (result_text repr t r) = Some v" "outcome_of_json v = Some r" using assms result_loads by blast
    moreover have "files_of repr results t = Some (result_text repr t r)" using Some by (simp add: files_of_at)
    ultimately show ?thesis using vs by simp
  qed
qed simp

lemma results_of_files:
  assumes "\<forall>t r. results t = Some r \<longrightarrow> unicode t \<and> storable repr r"
  shows "results_of (files_of repr results) = results"
proof
  fix t
  show "results_of (files_of repr results) t = results t"
  proof (cases "results t")
    case (Some r)
    then obtain v where "loads (result_text repr t r) = Some v" "outcome_of_json v = Some r" using assms result_loads by blast
    then show ?thesis using Some by (simp add: results_of_def files_of_def)
  qed (simp add: results_of_def files_of_def)
qed

text \<open>
  C10. The batch on result files of JSON text does what the batch on results does: the loop over the
  trials skips, runs and stops alike and leaves the texts of the same results, and the summary
  computed from the texts is the summary of the results, with the same exceptions.
\<close>

theorem result_files_refine:
  assumes "\<forall>t r. results t = Some r \<longrightarrow> unicode t \<and> storable repr r"
  shows "run_missing_files sv repr ts (files_of repr results) w
       = map_option (\<lambda>(e, results', w'). (e, files_of repr results', w')) (run_missing_trials sv ts results w)
    \<and> summarize_files mf (files_of repr results) = map_sum Undecided id (summarize mf results)"
proof (intro conjI run_missing_files_of)
  obtain vs ws where "load_files (files_of repr results) (map tr_trial_id (mf_fault_trials mf)) = Inr vs" "\<forall>v\<in>set vs. outcome_of_json v \<noteq> None"
    "load_files (files_of repr results) (map tr_trial_id (mf_no_fault_trials mf)) = Inr ws" "\<forall>v\<in>set ws. outcome_of_json v \<noteq> None"
    using load_files_of [OF assms] by metis
  then show "summarize_files mf (files_of repr results) = map_sum Undecided id (summarize mf results)"
    by (auto simp: summarize_files_def results_of_files [OF assms])
qed

definition demo_repr :: "rat \<Rightarrow> ustr" where
  "demo_repr z = (if z = 0 then asc ''0.0'' else asc ''4.0'')"

definition demo_ranked :: completed_trial where
  "demo_ranked = demo_completed\<lparr>ct_ranked_nodes := [\<lparr>rn_node_id = ''node-1'', rn_duration_ns = 9000000, rn_z_score = 4, rn_flagged = True\<rparr>,
     \<lparr>rn_node_id = ''node-2'', rn_duration_ns = 2000000, rn_z_score = 0, rn_flagged = False\<rparr>]\<rparr>"

lemma demo_repr_ok: "repr_ok demo_repr 0" "repr_ok demo_repr 4"
proof -
  have zero: "float_text (asc ''0.0'')" "read_integer (asc ''0.0'') = [48]" "read_fraction (drop 1 (asc ''0.0'')) = [46, 48]"
    "read_exponent (drop 3 (asc ''0.0'')) = []" "take 1 [48 :: nat] \<noteq> [45]" by code_simp+
  have four: "float_text (asc ''4.0'')" "read_integer (asc ''4.0'') = [52]" "read_fraction (drop 1 (asc ''4.0'')) = [46, 48]"
    "read_exponent (drop 3 (asc ''4.0'')) = []" by code_simp+
  show "repr_ok demo_repr 0" "repr_ok demo_repr 4" using zero four rnd_of_int [of 4]
    by (simp_all add: repr_ok_def demo_repr_def float_value_def Let_def exponent_value_def sign_of_def digits_value_def scale10_def
        numeral_3_eq_3)
qed

lemma demo_storable: "storable demo_repr (Completed demo_ranked)"
  using demo_repr_ok by (simp add: storable_def demo_ranked_def demo_completed_def ascii_unicode ascii_def)

theorem result_files_refine_witness:
  "summarize_files frozen_manifest (files_of demo_repr [''cpu_contention-0000'' \<mapsto> Completed demo_ranked])
    = map_sum Undecided id (summarize frozen_manifest [''cpu_contention-0000'' \<mapsto> Completed demo_ranked])"
proof -
  have "\<forall>t r. [''cpu_contention-0000'' \<mapsto> Completed demo_ranked] t = Some r \<longrightarrow> unicode t \<and> storable demo_repr r"
    using demo_storable by (simp add: ascii_unicode ascii_def)
  from result_files_refine [OF this, where sv = dead_service and ts = "[]" and w = 0 and mf = frozen_manifest]
  show ?thesis by (rule conjunct2)
qed

section \<open>A result file that is cut short\<close>

lemma render_object_hd: "\<exists>s. render indent l (JObj ms) = 123 # s"
  by simp

lemma loads_object:
  assumes "loads (123 # s) = Some v"
  shows "closed v"
proof -
  obtain r n where "read_value n (skip_ws (123 # s)) = Some (v, r)" using assms loads_read by blast
  then have "read_value n (123 # s) = Some (v, r)" by (simp add: space_def)
  then show ?thesis by (cases n) (auto split: list.splits if_splits)
qed

lemma loads_cut:
  assumes "loads (123 # s) = Some v" and "123 # s = p @ u" and "skip_ws u \<noteq> []"
  shows "loads p = None"
proof (cases p)
  case Nil
  then show ?thesis by (simp add: loads_def)
next
  case (Cons c p')
  then have c: "c = 123" using assms(2) by simp
  show ?thesis
  proof (rule ccontr)
    assume "loads p \<noteq> None"
    then obtain v' where v': "loads p = Some v'" by blast
    then have "closed v'" using loads_object Cons c by blast
    from loads_prefix [OF v' this] have "skip_ws u = []" using assms(1,2) by metis
    then show False using assms(3) by simp
  qed
qed

lemma run_missing_files_keep:
  "run_missing_files sv repr ts files w = Some (e, files', w') \<Longrightarrow> files t = Some p \<Longrightarrow> files' t = Some p"
proof (induction ts arbitrary: files w)
  case (Cons t' ts)
  show ?case
  proof (cases "tr_trial_id t' \<in> dom files")
    case True
    then show ?thesis using Cons.IH [of files w] Cons.prems by (simp only: run_missing_files.simps if_True)
  next
    case False
    then have upd: "(files(tr_trial_id t' \<mapsto> x)) t = Some p" for x using Cons.prems(2) by auto
    obtain x w2 where x: "run_trial sv t' w = Some (x, w2)" using Cons.prems(1) False by (cases "run_trial sv t' w") auto
    show ?thesis
    proof (cases x)
      case (Inr r)
      then have "run_missing_files sv repr ts (files(tr_trial_id t' \<mapsto> result_text repr (tr_trial_id t') r)) w2 = Some (e, files', w')"
        using Cons.prems(1) False x by (simp del: fun_upd_apply)
      then show ?thesis using upd by (rule Cons.IH)
    qed (use Cons.prems False x in auto)
  qed
qed simp

lemma load_files_bad: "files t = Some p \<Longrightarrow> loads p = None \<Longrightarrow> t \<in> set ts \<Longrightarrow> load_files files ts = Inl JSONDecodeError"
  by (induction ts) (auto split: option.split)

lemma load_files_error: "load_files files ts = Inl e \<Longrightarrow> e = JSONDecodeError"
  by (induction ts) (auto simp: and_then_Inl split: option.splits)

text \<open>
  C11. A script that is killed while it writes a result leaves a part of the text. Whatever part it is,
  short of the last brace, no later run repairs it: the trial counts as done, its file stays as it
  is, and the summary of every manifest with this trial ends in JSONDecodeError.
\<close>

theorem truncated_result_stays:
  assumes "result_text repr t r = p @ u" and "skip_ws u \<noteq> []" and "unicode t" and "storable repr r"
    and "files t = Some p" and "t \<in> tr_trial_id ` set (all_trials mf)"
    and "run_missing_files sv repr (all_trials mf) files w = Some (e, files', w')"
  shows "files' t = Some p \<and> summarize_files mf files' = Inl JSONDecodeError"
proof -
  obtain ms where "outcome_json repr t r = JObj ms" by (cases r) simp_all
  then have "result_text repr t r = render (Some 2) 0 (JObj (sort_key fst (sort_members ms))) @ [10]" by (simp add: result_text_def dumps_def)
  moreover obtain s' where "render (Some 2) 0 (JObj (sort_key fst (sort_members ms))) = 123 # s'" using render_object_hd by blast
  ultimately have s: "result_text repr t r = 123 # s' @ [10]" by (simp del: render.simps)
  obtain v where v: "loads (result_text repr t r) = Some v" using result_loads assms(3,4) by blast
  have bad: "loads p = None" by (rule loads_cut [OF v [unfolded s] _ assms(2)]) (use s assms(1) in simp)
  have kept: "files' t = Some p" by (rule run_missing_files_keep [OF assms(7,5)])
  have "t \<in> set (map tr_trial_id (mf_fault_trials mf)) \<or> t \<in> set (map tr_trial_id (mf_no_fault_trials mf))"
    using assms(6) by (auto simp: all_trials_def)
  then have "summarize_files mf files' = Inl JSONDecodeError"
  proof (cases "load_files files' (map tr_trial_id (mf_fault_trials mf))")
    case (Inl e)
    then show ?thesis using load_files_error [OF Inl] by (simp add: summarize_files_def)
  next
    case (Inr vs)
    then have "load_files files' (map tr_trial_id (mf_no_fault_trials mf)) = Inl JSONDecodeError"
      using load_files_bad [of files' t p, OF kept bad] \<open>_ \<or> _\<close> by auto
    then show ?thesis using Inr by (simp add: summarize_files_def)
  qed
  then show ?thesis using kept by simp
qed

definition demo_batch :: manifest where
  "demo_batch = \<lparr>mf_fault_trials = [\<lparr>tr_trial_id = ''t'', tr_fault_type = None, tr_target_host = None, tr_intensity = None,
     tr_phase_index = 0, tr_sieve_limit = 9, tr_seed = 0\<rparr>], mf_no_fault_trials = []\<rparr>"

theorem truncated_result_stays_witness:
  "summarize_files demo_batch [''t'' \<mapsto> []] = Inl JSONDecodeError
    \<and> run_missing_files dead_service demo_repr (all_trials demo_batch) [''t'' \<mapsto> []] 0 = Some (None, [''t'' \<mapsto> []], 0)"
proof -
  have u: "skip_ws (result_text demo_repr ''t'' (Aborted ''x'')) \<noteq> []" by code_simp
  have run: "run_missing_files dead_service demo_repr (all_trials demo_batch) [''t'' \<mapsto> []] 0 = Some (None, [''t'' \<mapsto> []], 0)"
    by (simp add: demo_batch_def all_trials_def)
  have "unicode ''t''" "storable demo_repr (Aborted ''x'')" by (simp_all add: storable_def ascii_unicode ascii_def)
  from truncated_result_stays [OF _ u this _ _ run, of "[]"] show ?thesis
    using run by (simp add: demo_batch_def all_trials_def)
qed

section \<open>The manifest\<close>

lemma trial_roundtrip:
  assumes "storable_trial t"
  shows "wf_json (trial_json t) \<and> trial_of_json (sort_json (trial_json t)) = Some t"
proof -
  have parts: "unicode (tr_trial_id t)" "\<And>x. tr_fault_type t = Some x \<Longrightarrow> unicode x" "\<And>x. tr_target_host t = Some x \<Longrightarrow> unicode x"
    using assms by (simp_all add: storable_trial_def)
  have wf: "wf_json (trial_json t)" using parts by (simp add: trial_json_def)
  moreover have "trial_of_json (sort_json (trial_json t)) = Some t"
    unfolding trial_of_json_def get_sort [OF wf] using parts by (simp add: trial_json_def get_def comp_def)
  ultimately show ?thesis by simp
qed

text \<open>The manifest makes a round trip through its file: what \<open>main\<close> writes, the batch reads.\<close>

theorem manifest_file_roundtrip:
  assumes "\<forall>t\<in>set (all_trials mf). storable_trial t"
  shows "read_manifest (manifest_text mf) = Some mf"
proof -
  have trials: "\<And>t. t \<in> set (mf_fault_trials mf) \<Longrightarrow> storable_trial t" "\<And>t. t \<in> set (mf_no_fault_trials mf) \<Longrightarrow> storable_trial t"
    using assms by (simp_all add: all_trials_def)
  define v where "v = JObj [(asc ''schema_version'', JInt 1), (asc ''fault_trials'', JArr (map trial_json (mf_fault_trials mf))),
     (asc ''no_fault_trials'', JArr (map trial_json (mf_no_fault_trials mf)))]"
  have wf: "wf_json v" using trials trial_roundtrip by (simp add: v_def wf_items_all)
  have lists: "list_of trial_of_json (sort_json (JArr (map trial_json (mf_fault_trials mf)))) = Some (mf_fault_trials mf)"
    "list_of trial_of_json (sort_json (JArr (map trial_json (mf_no_fault_trials mf)))) = Some (mf_no_fault_trials mf)"
    using trials trial_roundtrip by (auto simp del: sort_json.simps intro!: list_of_sort)
  have "loads (manifest_text mf) = Some (sort_json v)"
    using wf by (simp add: manifest_text_def v_def [symmetric] loads_dumps space_def)
  moreover have "get ''fault_trials'' (list_of trial_of_json) (sort_json v) = Some (mf_fault_trials mf)"
    "get ''no_fault_trials'' (list_of trial_of_json) (sort_json v) = Some (mf_no_fault_trials mf)"
    unfolding get_sort [OF wf] using lists by (simp_all add: v_def get_def comp_def del: sort_json.simps)
  ultimately show ?thesis by (simp add: read_manifest_def)
qed

lemma unicode_decimal: "unicode (decimal n)"
  using decimal_digits [of _ n] by (intro ascii_unicode) (force simp: ascii_def)

lemma unicode_append: "unicode s \<Longrightarrow> unicode s' \<Longrightarrow> unicode (s @ s')"
  unfolding unicode_def by (elim exE conjE, rule_tac x = "cs @ csa" in exI) (auto simp: utf8_def)

lemma unicode_decimal04: "unicode (decimal04 n)"
  unfolding decimal04_def Let_def by (intro unicode_append unicode_decimal ascii_unicode) (simp add: ascii_def)

theorem manifest_file_roundtrip_witness:
  "read_manifest (manifest_text frozen_manifest) = Some frozen_manifest"
proof (rule manifest_file_roundtrip)
  have lits: "unicode ''cpu_contention''" "unicode ''io_stall''" "unicode ''no-fault-''" "unicode ''-''" "unicode ''workload-''"
    by (simp_all add: ascii_unicode ascii_def)
  have "storable_trial t" if "t \<in> set (fault_trials f i b)" "unicode f" for t f i b
    using that lits unfolding fault_trials_def
    by (auto simp: storable_trial_def simp del: append_Cons append_Nil intro!: unicode_append unicode_decimal04 unicode_decimal)
  moreover have "storable_trial t" if "t \<in> set (no_fault_trials b)" for t b
    using that lits unfolding no_fault_trials_def
    by (auto simp: storable_trial_def simp del: append_Cons append_Nil intro!: unicode_append unicode_decimal04)
  ultimately show "\<forall>t\<in>set (all_trials frozen_manifest). storable_trial t"
    using lits by (auto simp: all_trials_def frozen_manifest_def)
qed

section \<open>The columns of a job\<close>

text \<open>
  C13. The columns of a job make a round trip: \<open>get_job\<close> decodes from the two JSON columns the hosts
  and the fault that \<open>create_job\<close> encoded, for all strings and whichever keys the fault has.
\<close>

theorem job_columns_roundtrip:
  assumes "list_all unicode (jr_node_ids_json j)"
    and "\<forall>m. jr_fault_manifest_json j = Some m \<longrightarrow> opt_unicode (fm_target_host m) \<and> opt_unicode (fm_fault_type m)"
  shows "fetch_row (text_row j) = Some j"
proof -
  have "loads (node_ids_text (jr_node_ids_json j)) = Some (JArr (map json_str (jr_node_ids_json j)))"
    using loads_dumps [of "JArr (map json_str (jr_node_ids_json j))" "[]" None False] assms(1)
    by (simp add: node_ids_text_def wf_items_all list_all_iff)
  then have nodes: "read_node_ids (node_ids_text (jr_node_ids_json j)) = Some (jr_node_ids_json j)"
    using assms(1) by (simp add: read_node_ids_def list_of_def all_of_map list_all_iff)
  have fault: "read_fault (fault_text m) = Some m" if "opt_unicode (fm_target_host m)" "opt_unicode (fm_fault_type m)" for m
  proof -
    have wf: "wf_json (fault_json m)" using that
      by (cases "fm_target_host m"; cases "fm_phase_index m"; cases "fm_fault_type m"; cases "fm_intensity m")
        (simp_all add: fault_json_def List.map_filter_def)
    have "loads (fault_text m) = Some (fault_json m)"
      using loads_dumps [OF wf, of "[]" None False] by (simp add: fault_text_def)
    moreover have "get ''target_host'' str_of (fault_json m) = fm_target_host m" "get ''phase_index'' int_of (fault_json m) = fm_phase_index m"
      "get ''fault_type'' str_of (fault_json m) = fm_fault_type m" "get ''intensity'' int_of (fault_json m) = fm_intensity m"
      using that by (cases "fm_target_host m"; cases "fm_phase_index m"; cases "fm_fault_type m"; cases "fm_intensity m";
        simp add: fault_json_def get_def List.map_filter_def)+
    ultimately show ?thesis by (simp add: read_fault_def)
  qed
  show ?thesis using nodes fault assms(2) by (cases "jr_fault_manifest_json j") (simp_all add: fetch_row_def text_row_def)
qed

theorem job_columns_roundtrip_witness:
  "fetch_row (text_row \<lparr>jr_job_id = ''j'', jr_phase_count = 2, jr_node_ids_json = [''workload-1'', ''a, \"b''],
     jr_fault_manifest_json = Some \<lparr>fm_target_host = Some ''workload-1'', fm_phase_index = Some 0, fm_fault_type = None, fm_intensity = Some (-3)\<rparr>,
     jr_status = ''running'', jr_created_ts_ns = 5\<rparr>) \<noteq> None"
  by (subst job_columns_roundtrip) (simp_all add: ascii_unicode ascii_def)

section \<open>The log\<close>

definition log_texts_ok :: "ustr \<times> string \<times> string option \<times> log_record \<Rightarrow> bool" where
  "log_texts_ok r \<longleftrightarrow> (case r of (ts, logger, exc, l) \<Rightarrow> float_text ts \<and> printable ts \<and> unicode logger
     \<and> unicode (lg_level l) \<and> unicode (lg_message l)
     \<and> list_all opt_unicode [exc, lg_reason_code l, lg_node_id l, lg_job_id l])"

text \<open>What a reader of the log gets from one line.\<close>

definition record_of_json :: "json \<Rightarrow> log_record option" where
  "record_of_json v = do {
     level \<leftarrow> get ''level'' str_of v;
     message \<leftarrow> get ''message'' str_of v;
     Some \<lparr>lg_level = level, lg_message = message, lg_reason_code = get ''reason_code'' str_of v,
       lg_node_id = get ''node_id'' str_of v, lg_job_id = get ''job_id'' str_of v\<rparr> }"

definition read_log :: "ustr \<Rightarrow> log_record option list" where
  "read_log s = map (\<lambda>line. Option.bind (loads line) record_of_json) (lines_of s)"

lemma scalar_quote_printable: "\<forall>c\<in>set s. scalar c \<Longrightarrow> printable (quote s)"
  by (rule quote_printable) (auto simp: scalar_def)

lemma render_members_printable:
  "\<forall>(k, v)\<in>set ms. (\<forall>c\<in>set k. scalar c) \<and> printable (render None l v) \<Longrightarrow> printable (render_members None l ms)"
  by (induction ms) (auto simp: scalar_quote_printable comma_def simp del: render.simps)

lemma render_str_printable: "unicode s \<Longrightarrow> printable (render None l (json_str s))"
  by (simp add: json_str_def scalar_quote_printable unicode_code_points)

lemma log_payload_members:
  assumes "log_texts_ok (ts, logger, exc, l)"
  shows "\<exists>ms. log_payload ts logger exc l = JObj ms \<and> ms \<noteq> [] \<and> distinct (map fst ms)
    \<and> (\<forall>(k, v)\<in>set ms. (\<forall>c\<in>set k. scalar c) \<and> wf_json v \<and> sort_json v = v \<and> printable (render None (Suc 0) v))"
  using assms by (cases "lg_node_id l"; cases "lg_job_id l"; cases "lg_reason_code l"; cases exc)
    (simp_all add: log_payload_def List.map_filter_def log_texts_ok_def render_str_printable)

lemma format_record_line:
  assumes "log_texts_ok (ts, logger, exc, l)"
  shows "printable (format_record ts logger exc l) \<and> Option.bind (loads (format_record ts logger exc l)) record_of_json = Some l"
proof -
  obtain ms where ms: "log_payload ts logger exc l = JObj ms" "ms \<noteq> []" "distinct (map fst ms)"
    "\<forall>(k, v)\<in>set ms. (\<forall>c\<in>set k. scalar c) \<and> wf_json v \<and> sort_json v = v \<and> printable (render None (Suc 0) v)"
    using log_payload_members [OF assms] by blast
  have wf: "wf_json (log_payload ts logger exc l)" using ms by (auto simp: wf_members_all)
  have "map (apsnd sort_json) ms = ms" using ms(4) by (intro map_idI) auto
  then have "format_record ts logger exc l = render None 0 (JObj (sort_key fst ms))"
    using ms(1) by (simp add: format_record_def dumps_def sort_members_map)
  moreover have "printable (render_members None (Suc 0) (sort_key fst ms))"
    using ms(4) by (intro render_members_printable) auto
  ultimately have "printable (format_record ts logger exc l)" using ms(2) by (simp add: newline_def)
  moreover have "loads (format_record ts logger exc l) = Some (sort_json (log_payload ts logger exc l))"
    using loads_dumps [OF wf, of "[]" None True] by (simp add: format_record_def)
  moreover have "record_of_json (sort_json (log_payload ts logger exc l)) = Some l"
    unfolding record_of_json_def get_sort [OF wf] using assms
    by (cases "lg_node_id l"; cases "lg_job_id l"; cases "lg_reason_code l"; cases exc)
      (simp_all add: log_payload_def get_def List.map_filter_def log_texts_ok_def comp_def)
  ultimately show ?thesis by simp
qed

lemma lines_of_line: "10 \<notin> set s \<Longrightarrow> lines_of (s @ 10 # t) = s # lines_of t"
  by (induction s) simp_all

text \<open>
  C12. The log cannot be forged: whatever the node ids, job ids and messages hold (quotes, line breaks,
  whole records), every record is one line of printable ASCII, and the lines read back as exactly the
  records that were written, in their order.
\<close>

theorem log_reads_back:
  assumes "\<forall>r\<in>set rs. log_texts_ok r"
  shows "read_log (log_stream rs) = map (\<lambda>(ts, logger, exc, l). Some l) rs
    \<and> (\<forall>line\<in>set (lines_of (log_stream rs)). printable line)"
  using assms
proof (induction rs)
  case (Cons r rs)
  obtain ts logger exc l where r: "r = (ts, logger, exc, l)" by (cases r)
  then have line: "printable (format_record ts logger exc l)" "Option.bind (loads (format_record ts logger exc l)) record_of_json = Some l"
    using Cons.prems format_record_line by auto
  then have "10 \<notin> set (format_record ts logger exc l)" by (auto simp: printable_def)
  then have "lines_of (log_stream (r # rs)) = format_record ts logger exc l # lines_of (log_stream rs)"
    by (simp add: log_stream_def r lines_of_line)
  then show ?case using Cons line r by (simp add: read_log_def)
qed (simp add: read_log_def log_stream_def)

text \<open>A node id that holds a line break and what looks like a record of its own.\<close>

theorem log_reads_back_witness:
  "read_log (log_stream [(asc ''1.5'', ''hpctel.ingest_server'', None,
      info_log ''sample_batch_ingested'' (''n'' @ [CHR 0x0A] @ ''{}'') None)])
    = [Some (info_log ''sample_batch_ingested'' (''n'' @ [CHR 0x0A] @ ''{}'') None)]"
proof -
  have ts: "float_text (asc ''1.5'')" "printable (asc ''1.5'')" by code_simp+
  have "\<forall>r\<in>set [(asc ''1.5'', ''hpctel.ingest_server'', None :: string option,
      info_log ''sample_batch_ingested'' (''n'' @ [CHR 0x0A] @ ''{}'') None)]. log_texts_ok r"
    using ts by (simp add: log_texts_ok_def info_log_def ascii_unicode ascii_def)
  from log_reads_back [OF this] show ?thesis by simp
qed

end
