(* ===== verification/Fault_Loops.thy ===== *)
theory Fault_Loops
  imports Prelude "HOL-Library.Word"
begin

text \<open>
  The loops of \<open>workloadrunner/faults.py\<close> that burn time: the arithmetic of \<open>_cpu_busy_loop\<close>, which
  \<open>scripts/benchmark.py\<close> uses for its calibration as well, and the writes of \<open>_io_stall_loop\<close>. When the
  stop flag is set is an input; a loop that is never stopped is \<open>None\<close>.
\<close>

unbundle bit_operations_syntax

section \<open>The busy loop\<close>

definition lcg :: "int \<Rightarrow> int" where
  "lcg x = (x * 1103515245 + 12345) AND 0x7FFFFFFF"

text \<open>\<open>stop i\<close> is the value of the flag when it is read for the \<open>i\<close>-th time.\<close>

partial_function (option) busy_loop :: "(nat \<Rightarrow> bool) \<Rightarrow> nat \<Rightarrow> int \<Rightarrow> (nat \<times> int) option" where
  "busy_loop stop i x = (if stop i then Some (i, x) else busy_loop stop (Suc i) (lcg x))"

definition cpu_busy_loop :: "(nat \<Rightarrow> bool) \<Rightarrow> (nat \<times> int) option" where
  "cpu_busy_loop stop = busy_loop stop 0 0"

definition calibration_value :: int where
  "calibration_value = (lcg ^^ 20000000) 0"

section \<open>The I/O loop\<close>

text \<open>
  What the system calls do in round \<open>i\<close>: \<open>write\<close> takes a part of the chunk or raises, and \<open>fsync\<close> and
  \<open>lseek\<close> may raise; and whether \<open>close\<close> and \<open>remove\<close> succeed at the end, or raise.
\<close>

record io_calls =
  io_is_set :: "nat \<Rightarrow> bool"
  io_write :: "nat \<Rightarrow> nat option"
  io_fsync :: "nat \<Rightarrow> bool"
  io_lseek :: "nat \<Rightarrow> bool"
  io_close :: bool
  io_remove :: bool

datatype io_end = StopSeen | OSError

text \<open>Every round writes at the start of the file.\<close>

definition overwrite :: "nat \<Rightarrow> bytes \<Rightarrow> bytes \<Rightarrow> bytes" where
  "overwrite n chunk content = take n chunk @ drop (length (take n chunk)) content"

partial_function (option) io_rounds :: "io_calls \<Rightarrow> bytes \<Rightarrow> nat \<Rightarrow> bytes \<Rightarrow> (io_end \<times> bytes) option" where
  "io_rounds calls chunk i content =
     (if io_is_set calls i then Some (StopSeen, content)
      else case io_write calls i of
        None \<Rightarrow> Some (OSError, content)
      | Some n \<Rightarrow> let content' = overwrite n chunk content in
          if io_fsync calls i \<and> io_lseek calls i then io_rounds calls chunk (Suc i) content'
          else Some (OSError, content'))"

text \<open>
  The \<open>finally\<close> block: an exception of \<open>close\<close> replaces the outcome of the loop and skips the
  removal; an exception of \<open>remove\<close> replaces it as well and leaves the file.
\<close>

definition io_finally :: "io_calls \<Rightarrow> string \<Rightarrow> io_end \<Rightarrow> bytes \<Rightarrow> (string \<rightharpoonup> bytes) \<Rightarrow> io_end \<times> bytes \<times> (string \<rightharpoonup> bytes)" where
  "io_finally calls path e content files = (let written = files(path \<mapsto> content) in
     if \<not> io_close calls then (OSError, content, written)
     else if \<not> io_remove calls then (OSError, content, written)
     else (e, content, written(path := None)))"

text \<open>
  The whole thread: \<open>path\<close> is what \<open>mkstemp\<close> makes, \<open>None\<close> when it raises. The second component is the
  content of the file when the loop ends.
\<close>

definition io_stall_loop :: "io_calls \<Rightarrow> string option \<Rightarrow> bytes \<Rightarrow> (string \<rightharpoonup> bytes)
    \<Rightarrow> (io_end \<times> bytes \<times> (string \<rightharpoonup> bytes)) option" where
  "io_stall_loop calls mkstemp chunk files = (case mkstemp of
     None \<Rightarrow> Some (OSError, [], files)
   | Some path \<Rightarrow> map_option (\<lambda>(e, content). io_finally calls path e content files) (io_rounds calls chunk 0 []))"

section \<open>What the loops do\<close>

lemma lcg_mod: "lcg x = (x * 1103515245 + 12345) mod 2 ^ 31"
proof -
  have "(0x7FFFFFFF :: int) = mask 31" by (simp add: mask_eq_exp_minus_1)
  then show ?thesis unfolding lcg_def by (simp only: take_bit_eq_mask [symmetric] take_bit_eq_mod)
qed

text \<open>The state is a word of 31 bits: the product never has to be kept in full.\<close>

lemma lcg_word: "(lcg ^^ n) 0 = uint (((\<lambda>w. w * 1103515245 + 12345) ^^ n) (0 :: 31 word))"
proof (induction n)
  case (Suc n)
  have "uint (w * 1103515245 + 12345 :: 31 word) = lcg (uint w)" for w
    by (simp add: lcg_mod uint_word_ariths mod_simps)
  then show ?case by (simp only: funpow.simps comp_apply Suc.IH)
qed simp

lemma lcg_bounds: "0 \<le> (lcg ^^ n) 0" "(lcg ^^ n) 0 < 2 ^ 31"
  unfolding lcg_word using uint_bounded [of "_ :: 31 word"] by simp_all

lemma first_time:
  assumes "\<exists>i :: nat. P i"
  shows "P (LEAST i. P i)" and "\<forall>j. j < (LEAST i. P i) \<longrightarrow> \<not> P j"
proof -
  show "P (LEAST i. P i)" by (rule LeastI_ex [OF assms])
  show "\<forall>j. j < (LEAST i. P i) \<longrightarrow> \<not> P j" by (intro allI impI, rule not_less_Least)
qed

lemma busy_loop_from:
  assumes "\<forall>j. i \<le> j \<and> j < i + k \<longrightarrow> \<not> stop j" and "stop (i + k)"
  shows "busy_loop stop i x = Some (i + k, (lcg ^^ k) x)"
  using assms
proof (induction k arbitrary: i x)
  case 0
  then show ?case by (subst busy_loop.simps) simp
next
  case (Suc k)
  then have "\<not> stop i" by simp
  moreover have "busy_loop stop (Suc i) (lcg x) = Some (Suc i + k, (lcg ^^ k) (lcg x))" using Suc.prems by (intro Suc.IH) auto
  ultimately show ?case by (subst busy_loop.simps) (simp add: funpow_swap1)
qed

lemma busy_loop_stops: "busy_loop stop i x = Some r \<Longrightarrow> \<exists>j\<ge>i. stop j"
proof -
  have "\<exists>j\<ge>i. stop j" if "(if stop i then Some (i, x) else loop stop (Suc i) (lcg x)) = Some r"
    and "\<And>stop i x r. loop stop i x = Some r \<Longrightarrow> \<exists>j\<ge>i. stop j" for loop :: "(nat \<Rightarrow> bool) \<Rightarrow> nat \<Rightarrow> int \<Rightarrow> (nat \<times> int) option" and stop i x r
  proof (cases "stop i")
    case False
    then have "\<exists>j\<ge>Suc i. stop j" using that by simp
    then show ?thesis using Suc_leD by blast
  qed blast
  from busy_loop.raw_induct [of "\<lambda>stop i x r. \<exists>j\<ge>i. stop j" "((stop, i), x)" r, OF this] show "busy_loop stop i x = Some r \<Longrightarrow> \<exists>j\<ge>i. stop j" by simp
qed

text \<open>
  A busy worker ends exactly when its flag is ever set, in the first round that sees it, and its
  state stays below 2 to the 31, so the arithmetic of Python's integers never grows.
\<close>

theorem busy_loop_ends:
  "(if \<exists>i. stop i then cpu_busy_loop stop = Some (LEAST i. stop i, (lcg ^^ (LEAST i. stop i)) 0) else cpu_busy_loop stop = None)
    \<and> (case cpu_busy_loop stop of None \<Rightarrow> True | Some (_, x) \<Rightarrow> 0 \<le> x \<and> x < 2 ^ 31)"
proof (cases "\<exists>i. stop i")
  case True
  obtain k where k: "(LEAST i. stop i) = k" by blast
  have "cpu_busy_loop stop = Some (k, (lcg ^^ k) 0)"
    using busy_loop_from [where i = 0 and k = k and stop = stop and x = 0] first_time [OF True, unfolded k] unfolding cpu_busy_loop_def by simp
  then show ?thesis using lcg_bounds unfolding if_P [OF True] k by simp
next
  case False
  then show ?thesis using busy_loop_stops [of stop 0 0] by (cases "busy_loop stop 0 0") (auto simp: cpu_busy_loop_def)
qed

text \<open>The file after \<open>i\<close> rounds, and the first round that ends the loop.\<close>

primrec content_after :: "io_calls \<Rightarrow> bytes \<Rightarrow> nat \<Rightarrow> bytes" where
  "content_after calls chunk 0 = []"
| "content_after calls chunk (Suc i) = (case io_write calls i of None \<Rightarrow> content_after calls chunk i
     | Some n \<Rightarrow> overwrite n chunk (content_after calls chunk i))"

definition last_round :: "io_calls \<Rightarrow> nat \<Rightarrow> bool" where
  "last_round calls i \<longleftrightarrow> io_is_set calls i \<or> io_write calls i = None \<or> \<not> io_fsync calls i \<or> \<not> io_lseek calls i"

lemma overwrite_length: "length content \<le> length chunk \<Longrightarrow> length (overwrite n chunk content) \<le> length chunk"
  by (simp add: overwrite_def)

lemma content_length: "length (content_after calls chunk i) \<le> length chunk"
  by (induction i) (auto simp: overwrite_length split: option.split)

lemma io_rounds_last:
  assumes "\<forall>j. i \<le> j \<and> j < i + k \<longrightarrow> \<not> last_round calls j" and "last_round calls (i + k)"
  shows "io_rounds calls chunk i (content_after calls chunk i) = Some (if io_is_set calls (i + k)
    then (StopSeen, content_after calls chunk (i + k)) else (OSError, content_after calls chunk (Suc (i + k))))"
  using assms
proof (induction k arbitrary: i)
  case 0
  then show ?case by (subst io_rounds.simps) (auto simp: last_round_def Let_def split: option.split)
next
  case (Suc k)
  then have "\<not> last_round calls i" by simp
  then obtain n where n: "io_write calls i = Some n" "\<not> io_is_set calls i" "io_fsync calls i" "io_lseek calls i"
    by (auto simp: last_round_def)
  have "io_rounds calls chunk (Suc i) (content_after calls chunk (Suc i)) = Some (if io_is_set calls (Suc i + k)
    then (StopSeen, content_after calls chunk (Suc i + k)) else (OSError, content_after calls chunk (Suc (Suc i + k))))"
    using Suc.prems by (intro Suc.IH) auto
  then show ?case using n by (subst io_rounds.simps) (simp add: Let_def del: content_after.simps(2) add: content_after.simps(2) [of _ _ i])
qed

lemma io_rounds_stops:
  assumes "io_rounds calls chunk i content = Some r"
  shows "\<exists>j\<ge>i. last_round calls j"
proof (rule io_rounds.raw_induct [OF _ assms], goal_cases)
  case (1 loop calls chunk i content r)
  show ?case
  proof (cases "last_round calls i")
    case False
    then obtain n where n: "io_write calls i = Some n" "\<not> io_is_set calls i" "io_fsync calls i" "io_lseek calls i"
      by (auto simp: last_round_def)
    then have "loop calls chunk (Suc i) (overwrite n chunk content) = Some r" using 1(2) by (simp add: Let_def)
    then have "\<exists>j\<ge>Suc i. last_round calls j" by (rule 1(1))
    then show ?thesis using Suc_leD by blast
  qed blast
qed

text \<open>
  C32. A thread of the I/O fault never holds more than one chunk on the disk, however many rounds it
  makes and however much each write takes. It ends in the first round that sees the event or in
  which a call raises, and only then, so that an exception ends it although nobody stopped it. When
  it ends, also by such an exception, its file is removed, exactly if neither \<open>close\<close> nor \<open>remove\<close>
  raises: a \<open>close\<close> that raises skips the removal and leaves the file, with at most one chunk, and the
  thread ends with OSError. The other files are always as they were.
\<close>

theorem io_stall_leftover:
  "if \<exists>i. last_round calls i
    then \<exists>e content left. io_stall_loop calls (Some path) chunk files = Some (e, content, left)
      \<and> length content \<le> length chunk
      \<and> left path = (if io_close calls \<and> io_remove calls then None else Some content)
      \<and> (\<forall>other. other \<noteq> path \<longrightarrow> left other = files other)
      \<and> (e = StopSeen \<longleftrightarrow> io_is_set calls (LEAST i. last_round calls i) \<and> io_close calls \<and> io_remove calls)
    else io_stall_loop calls (Some path) chunk files = None"
proof (cases "\<exists>i. last_round calls i")
  case True
  obtain k where k: "(LEAST i. last_round calls i) = k" by blast
  have "io_rounds calls chunk 0 [] = Some (if io_is_set calls k then (StopSeen, content_after calls chunk k)
      else (OSError, content_after calls chunk (Suc k)))"
    using io_rounds_last [of 0 k calls chunk] first_time [OF True, unfolded k] by simp
  moreover note content_length [of calls chunk k] content_length [of calls chunk "Suc k"]
  ultimately show ?thesis unfolding if_P [OF True] k io_stall_loop_def
    by (cases "io_is_set calls k") (simp_all add: io_finally_def Let_def del: content_after.simps)
next
  case False
  then show ?thesis using io_rounds_stops [of calls chunk 0 "[]"] by (cases "io_rounds calls chunk 0 []") (auto simp: io_stall_loop_def)
qed

definition demo_calls :: "bool \<Rightarrow> io_calls" where
  "demo_calls close = \<lparr>io_is_set = (\<lambda>i. i = 3), io_write = (\<lambda>_. Some 2), io_fsync = (\<lambda>_. True), io_lseek = (\<lambda>_. True),
     io_close = close, io_remove = True\<rparr>"

theorem io_stall_leftover_witness:
  "(\<exists>content left. io_stall_loop (demo_calls True) (Some ''p'') [1, 2, 3] [''q'' \<mapsto> [4]] = Some (StopSeen, content, left) \<and> left ''p'' = None)
    \<and> (\<exists>content left. io_stall_loop (demo_calls False) (Some ''p'') [1, 2, 3] [''q'' \<mapsto> [4]] = Some (OSError, content, left) \<and> left ''p'' \<noteq> None)"
proof -
  have last: "last_round (demo_calls c) i \<longleftrightarrow> i = 3" for c i by (simp add: last_round_def demo_calls_def)
  have first: "(LEAST i. last_round (demo_calls c) i) = 3" for c unfolding last by (rule Least_equality) simp_all
  have fields: "io_is_set (demo_calls c) 3 = True" "io_close (demo_calls c) = c" "io_remove (demo_calls c) = True" for c by (simp_all add: demo_calls_def)
  have ex: "\<exists>i. last_round (demo_calls c) i" for c unfolding last by blast
  note run = io_stall_leftover [of "demo_calls c" "''p''" "[1, 2, 3]" "[''q'' \<mapsto> [4]]" for c, unfolded if_P [OF ex] first]
  have raised: "e = OSError" if "e \<noteq> StopSeen" for e using that by (cases e) simp_all
  obtain e content left where "io_stall_loop (demo_calls True) (Some ''p'') [1, 2, 3] [''q'' \<mapsto> [4]] = Some (e, content, left)"
    "left ''p'' = None" "e = StopSeen" using run [of True] unfolding fields by auto
  moreover obtain e' content' left' where "io_stall_loop (demo_calls False) (Some ''p'') [1, 2, 3] [''q'' \<mapsto> [4]] = Some (e', content', left')"
    "left' ''p'' = Some content'" "e' = OSError" using run [of False] raised unfolding fields by auto
  ultimately show ?thesis by simp
qed

end
