(* ===== verification/Benchmark.thy ===== *)
theory Benchmark
  imports Py_Float
begin

text \<open>
  \<open>scripts/benchmark.py\<close>: the percentiles of the latencies, the record of a trial, and the
  order in which the sampling interval is switched. The latencies are finite floats; the calls of
  docker, the sleeps and the timing loop are inputs.
\<close>

section \<open>Percentiles\<close>

text \<open>\<open>xs[i]\<close>, with Python's negative indices; \<open>None\<close> is IndexError.\<close>

definition py_index :: "'a list \<Rightarrow> int \<Rightarrow> 'a option" where
  "py_index xs i = (if 0 \<le> i \<and> i < int (length xs) then Some (xs ! nat i)
     else if i < 0 \<and> - int (length xs) \<le> i then Some (xs ! nat (int (length xs) + i)) else None)"

text \<open>\<open>int(x)\<close> of a finite float.\<close>

definition trunc :: "rat \<Rightarrow> int" where
  "trunc q = (if 0 \<le> q then \<lfloor>q\<rfloor> else \<lceil>q\<rceil>)"

text \<open>
  The interpolation at the rank \<open>k\<close> of the sorted values, in float arithmetic: the gap of two
  latencies of opposite sign may overflow to an infinity.
\<close>

definition interpolate :: "rat \<Rightarrow> rat \<Rightarrow> rat \<Rightarrow> int \<Rightarrow> pyfloat" where
  "interpolate lower upper k f =
     fl_add (Fin lower) (fl_mul (fl_sub (Fin upper) (Fin lower)) (fl_sub (Fin k) (fl_of_int f)))"

definition value_at_rank :: "rat list \<Rightarrow> rat \<Rightarrow> pyfloat option" where
  "value_at_rank ordered k =
     (let f = trunc k; c = min (trunc k + 1) (int (length ordered) - 1) in
      case py_index ordered f of
        None \<Rightarrow> None
      | Some lower \<Rightarrow>
          if f = c then Some (Fin lower)
          else map_option (\<lambda>upper. interpolate lower upper k f) (py_index ordered c))"

definition percentile :: "rat list \<Rightarrow> rat \<Rightarrow> pyfloat option" where
  "percentile vs pct =
     (if vs = [] then Some NaN
      else let ordered = sort vs;
               k = rnd (rnd (of_int (int (length ordered) - 1)) * rnd (pct / 100))
           in value_at_rank ordered k)"

section \<open>One trial\<close>

definition TRIAL_DURATION_S :: rat where "TRIAL_DURATION_S = 60"
definition THERMAL_THROTTLE_RATIO :: rat where "THERMAL_THROTTLE_RATIO = rnd (120/100)"
definition TRIALS_PER_CONFIG :: nat where "TRIALS_PER_CONFIG = 5"

definition CONFIGS :: "(string \<times> string) list" where
  "CONFIGS = [(''baseline_1000ms'', ''1000''), (''stress_200ms'', ''200'')]"

record bench_trial =
  bt_config :: string
  bt_throttled :: bool
  bt_sample_count :: int
  bt_throughput :: rat
  bt_p50 :: "pyfloat option"
  bt_p95 :: "pyfloat option"
  bt_p99 :: "pyfloat option"

text \<open>The calibration times before and after, and the payload of the diagnostics endpoint.\<close>

definition run_one_trial :: "string \<Rightarrow> rat \<Rightarrow> rat \<Rightarrow> int \<Rightarrow> rat list \<Rightarrow> bench_trial" where
  "run_one_trial config_label before after sample_count latencies = \<lparr>bt_config = config_label,
     bt_throttled = (rnd (before * THERMAL_THROTTLE_RATIO) < after), bt_sample_count = sample_count,
     bt_throughput = rnd (rnd (of_int sample_count) / TRIAL_DURATION_S),
     bt_p50 = percentile latencies 50, bt_p95 = percentile latencies 95, bt_p99 = percentile latencies 99\<rparr>"

section \<open>The schedule\<close>

datatype action = SetSampleInterval string | Warmup | RunTrial string

text \<open>The loop of \<open>main\<close> over the shuffled order.\<close>

fun schedule :: "string option \<Rightarrow> string list \<Rightarrow> action list" where
  "schedule current [] = []"
| "schedule current (label # labels) =
     (if current \<noteq> Some label
      then SetSampleInterval (the (map_of CONFIGS label)) # Warmup # RunTrial label # schedule (Some label) labels
      else RunTrial label # schedule current labels)"

definition bench_order :: "string list" where
  "bench_order = concat (map (\<lambda>(config, _). replicate TRIALS_PER_CONFIG config) CONFIGS)"

section \<open>Properties\<close>

lemma py_index_nonneg: "0 \<le> i \<Longrightarrow> i < int (length xs) \<Longrightarrow> py_index xs i = Some (xs ! nat i)"
  by (simp add: py_index_def)

lemma sorted_ends:
  assumes "xs \<noteq> []"
  shows "sort xs ! 0 = Min (set xs)" and "sort xs ! (length xs - 1) = Max (set (xs :: rat list))"
proof -
  have "0 < length (sort xs)" "length xs - 1 < length (sort xs)" using assms by simp_all
  from this [THEN nth_mem] have ends: "sort xs ! 0 \<in> set xs" "sort xs ! (length xs - 1) \<in> set xs" by simp_all
  have between: "sort xs ! 0 \<le> x \<and> x \<le> sort xs ! (length xs - 1)" if "x \<in> set xs" for x
  proof -
    obtain i where "i < length (sort xs)" "x = sort xs ! i" using \<open>x \<in> set xs\<close> by (metis in_set_conv_nth set_sort)
    then show ?thesis by (auto intro!: sorted_nth_mono [OF sorted_sort])
  qed
  show "sort xs ! 0 = Min (set xs)" by (rule Min_eqI [symmetric]) (use ends between in auto)
  show "sort xs ! (length xs - 1) = Max (set xs)" by (rule Max_eqI [symmetric]) (use ends between in auto)
qed

text \<open>The rank of a percentage, and the value at it.\<close>

lemma percentile_rank:
  assumes "0 \<le> pct" and "pct \<le> 100" and "length vs < 2 ^ 53" and "vs \<noteq> []"
  defines "m \<equiv> int (length vs) - 1"
  defines "k \<equiv> rnd (of_int m * rnd (pct / 100))"
  shows "0 \<le> m" and "rnd (of_int m) = of_int m" and "0 \<le> k" and "k \<le> of_int m"
proof -
  show m: "0 \<le> m" using assms(4) by (cases vs) (simp_all add: m_def)
  have "\<bar>m\<bar> \<le> 2 ^ 53" using m assms(3) by (simp add: m_def)
  then show exact: "rnd (of_int m) = of_int m" by (rule rnd_of_int)
  have "0 \<le> pct / 100" "pct / 100 \<le> 1" using assms(1,2) by simp_all
  from b64.unit_interval [OF this] have share: "0 \<le> rnd (pct / 100)" "rnd (pct / 100) \<le> 1" by simp_all
  have "0 \<le> (of_int m :: rat)" using m by (simp only: of_int_0_le_iff)
  then have "of_int m * rnd (pct / 100) \<le> of_int m * 1" "0 \<le> of_int m * rnd (pct / 100)"
    using share by (intro mult_left_mono mult_nonneg_nonneg; simp)+
  then show "0 \<le> k" "k \<le> of_int m" using exact unfolding k_def by (auto intro: rnd_nonneg b64.below)
qed

lemma interpolation_error:
  fixes d x t p r l a e n :: rat
  assumes e: "0 \<le> e" "e \<le> 1" and n: "0 \<le> n" and t: "0 \<le> t" "t \<le> 1" and d: "0 \<le> d" "d \<le> a"
    and x: "0 \<le> x" "\<bar>x - d\<bar> \<le> d * e + n" and p: "0 \<le> p" "p \<le> d" "\<bar>p - x * t\<bar> \<le> \<bar>x * t\<bar> * e + n"
    and r: "\<bar>r - (l + p)\<bar> \<le> \<bar>l + p\<bar> * e + n" and l: "\<bar>l\<bar> \<le> a"
  shows "\<bar>r - (l + d * t)\<bar> \<le> 8 * (a * e) + 8 * n"
proof -
  have a: "d * e \<le> a * e" "\<bar>l\<bar> * e \<le> a * e" "n * e \<le> n" "d * e \<le> d" "x * t \<le> x" "0 \<le> x * t"
    using mult_right_mono [OF d(2) e(1)] mult_right_mono [OF l e(1)] mult_left_mono [OF e(2) n]
      mult_left_mono [OF e(2) d(1)] mult_left_mono [OF t(2) x(1)] mult_nonneg_nonneg [OF x(1) t(1)] by simp_all
  have "x \<le> 2 * d + n" using abs_le_D1 [OF x(2)] a(4) by linarith
  then have "\<bar>x * t\<bar> \<le> 2 * d + n" using a(5,6) by linarith
  from mult_right_mono [OF this e(1)] have "\<bar>x * t\<bar> * e \<le> 2 * (d * e) + n * e" by (simp add: distrib_right)
  then have p_err: "\<bar>p - x * t\<bar> \<le> 2 * (a * e) + 2 * n" using p(3) a(1,3) by linarith
  have "\<bar>l + p\<bar> \<le> \<bar>l\<bar> + d" using p by linarith
  from mult_right_mono [OF this e(1)] have "\<bar>l + p\<bar> * e \<le> \<bar>l\<bar> * e + d * e" by (simp add: distrib_right)
  then have r_err: "\<bar>r - (l + p)\<bar> \<le> 2 * (a * e) + n" using r a(1,2) by linarith
  have "\<bar>x * t - d * t\<bar> = \<bar>x - d\<bar> * t" using t(1) by (simp add: abs_mult flip: left_diff_distrib)
  also have "\<dots> \<le> \<bar>x - d\<bar>" using mult_left_mono [OF t(2), of "\<bar>x - d\<bar>"] by simp
  finally have x_err: "\<bar>x * t - d * t\<bar> \<le> a * e + n" using x(2) a(1) by linarith
  have "0 \<le> a * e" using d e(1) by (simp add: order_trans [OF d])
  then show ?thesis using p_err r_err x_err n by linarith
qed

text \<open>
  The interpolation between two neighbours: the value stays between them and is off by less than
  two to the minus 50 of their size.
\<close>

lemma interpolate_between:
  assumes lo: "rnd lo = lo" "\<bar>lo\<bar> \<le> 2 powi 1022" and hi: "rnd hi = hi" "\<bar>hi\<bar> \<le> 2 powi 1022"
    and le: "lo \<le> hi" and k: "rnd k = k" "0 \<le> k" "k \<le> 2 powi 53"
  defines "t \<equiv> k - of_int \<lfloor>k\<rfloor>"
  shows "\<exists>r. interpolate lo hi k \<lfloor>k\<rfloor> = Fin r \<and> lo \<le> r \<and> r \<le> hi
    \<and> \<bar>r - (lo + (hi - lo) * t)\<bar> \<le> (\<bar>lo\<bar> + \<bar>hi\<bar>) * 2 powi (-50) + 2 powi (-1072)
    \<and> (t = 0 \<longrightarrow> r = lo)"
proof -
  let ?d = "hi - lo"
  let ?x = "rnd ?d"
  let ?p = "rnd (?x * t)"
  have double: "(2::rat) powi 1022 + 2 powi 1022 = 2 powi 1023" by simp
  have tn: "0 \<le> t" "t < 1" unfolding t_def by linarith+
  have tr: "rnd t = t" unfolding t_def by (rule rnd_frac_exact [OF k(1,2)])
  have t1: "t \<le> 1 - 2 powi (-53)" by (rule rnd_below_one [OF tr tn])
  have p_le: "?p \<le> ?d" by (rule rnd_share_below_gap [OF hi(1) lo(1) le tn(1) t1])
  have d0: "0 \<le> ?d" using le by simp
  have x0: "0 \<le> ?x" by (rule rnd_nonneg [OF d0])
  have p0: "0 \<le> ?p" by (intro rnd_nonneg mult_nonneg_nonneg x0 tn(1))
  have "?d \<le> 2 powi 1023" using lo(2) hi(2) double by linarith
  then have dmax: "?x \<le> 2 powi 1023" by (intro b64.below rnd_powi) simp_all
  have xt: "?x * t \<le> ?x" using mult_left_mono [of t 1 ?x] tn x0 by simp
  have f0: "0 \<le> \<lfloor>k\<rfloor>" using k(2) by simp
  have fmax: "\<lfloor>k\<rfloor> \<le> 2 ^ 53" using k(3) by (simp add: floor_le_iff)
  have fl: "fl_of_int \<lfloor>k\<rfloor> = Fin (of_int \<lfloor>k\<rfloor>)"
  proof -
    have "\<bar>\<lfloor>k\<rfloor>\<bar> \<le> 2 ^ 53" using f0 fmax by simp
    then have e: "rnd (of_int \<lfloor>k\<rfloor>) = of_int \<lfloor>k\<rfloor>" by (rule rnd_of_int)
    have "(of_int \<lfloor>k\<rfloor> :: rat) \<le> 2 powi 53" using k(3) by linarith
    also have "\<dots> \<le> 2 powi 1023" by simp
    finally have "\<bar>of_int \<lfloor>k\<rfloor> :: rat\<bar> \<le> 2 powi 1023" using f0 by simp
    then show ?thesis unfolding fl_of_int_def by (subst fin_round_bounded) (simp_all add: e)
  qed
  have "\<bar>lo + ?p\<bar> \<le> 2 powi 1023" using p0 p_le lo(2) hi(2) double by linarith
  then have r: "interpolate lo hi k \<lfloor>k\<rfloor> = Fin (rnd (lo + ?p))"
  proof -
    have "\<bar>?d\<bar> \<le> 2 powi 1023" using \<open>?d \<le> 2 powi 1023\<close> d0 by linarith
    from fin_round_bounded [OF this] have 1: "fl_sub (Fin hi) (Fin lo) = Fin ?x" by (simp add: fl_sub_def)
    have "(1::rat) \<le> 2 powi 1023" by simp
    then have "\<bar>t\<bar> \<le> 2 powi 1023" using tn by linarith
    from fin_round_bounded [OF this] have 2: "fl_sub (Fin k) (fl_of_int \<lfloor>k\<rfloor>) = Fin t" using tr by (simp add: fl fl_sub_def t_def)
    have "\<bar>?x * t\<bar> \<le> 2 powi 1023" using xt dmax mult_nonneg_nonneg [OF x0 tn(1)] by linarith
    from fin_round_bounded [OF this] have 3: "fl_mul (Fin ?x) (Fin t) = Fin ?p" by simp
    show ?thesis unfolding interpolate_def 1 2 3 fl_add.simps by (rule fin_round_bounded [OF \<open>\<bar>lo + ?p\<bar> \<le> 2 powi 1023\<close>])
  qed
  have "lo \<le> rnd (lo + ?p)" by (rule b64.above [OF lo(1)]) (use p0 in simp)
  moreover have "rnd (lo + ?p) \<le> hi" by (rule b64.below [OF hi(1)]) (use p_le in simp)
  moreover have "\<bar>rnd (lo + ?p) - (lo + ?d * t)\<bar> \<le> (\<bar>lo\<bar> + \<bar>hi\<bar>) * 2 powi (-50) + 2 powi (-1072)"
  proof -
    define e where "e = (2::rat) powi (-53)"
    define n where "n = (2::rat) powi (-1075)"
    have "\<bar>rnd (lo + ?p) - (lo + ?d * t)\<bar> \<le> 8 * ((\<bar>lo\<bar> + \<bar>hi\<bar>) * e) + 8 * n"
    proof (rule interpolation_error)
      show "\<bar>?x - ?d\<bar> \<le> ?d * e + n" using rnd_relative_error [of ?d] d0 by (simp add: e_def n_def)
      show "\<bar>?p - ?x * t\<bar> \<le> \<bar>?x * t\<bar> * e + n" "\<bar>rnd (lo + ?p) - (lo + ?p)\<bar> \<le> \<bar>lo + ?p\<bar> * e + n"
        unfolding e_def n_def by (rule rnd_relative_error)+
      show "0 \<le> e" "0 \<le> n" "e \<le> 1" by (simp_all add: e_def n_def power_int_minus)
      show "t \<le> 1" using tn by simp
      show "?d \<le> \<bar>lo\<bar> + \<bar>hi\<bar>" "\<bar>lo\<bar> \<le> \<bar>lo\<bar> + \<bar>hi\<bar>" by linarith+
    qed (fact d0 tn x0 p0 p_le)+
    moreover have "8 * e = 2 powi (-50)" "8 * n = 2 powi (-1072)"
      using power_int_add [of "2::rat" 3 "-53"] power_int_add [of "2::rat" 3 "-1075"] by (simp_all add: e_def n_def)
    ultimately show ?thesis by (simp add: mult.left_commute)
  qed
  moreover have "t = 0 \<longrightarrow> rnd (lo + ?p) = lo" using lo(1) by simp
  ultimately show ?thesis using r by blast
qed

text \<open>The rank lies between two places of the sorted latencies, and is close to the exact one.\<close>

lemma percentile_rank_error:
  assumes "0 \<le> pct" and "pct \<le> 100" and "0 \<le> m"
  shows "\<bar>rnd (of_int m * rnd (pct / 100)) - of_int m * (pct / 100)\<bar> \<le> of_int m * 2 powi (-50)"
proof (cases "m = 0")
  case False
  define e where "e = (2::rat) powi (-53)"
  define n where "n = (2::rat) powi (-1075)"
  let ?m = "of_int m :: rat" and ?p = "pct / 100"
  let ?s = "rnd ?p"
  have m: "1 \<le> ?m" using assms(3) False by simp
  have p: "0 \<le> ?p" "?p \<le> 1" using assms(1,2) by simp_all
  from b64.unit_interval [OF p] have s: "0 \<le> ?s" "?s \<le> 1" by simp_all
  have en: "0 \<le> e" "0 \<le> n" "n \<le> e" by (simp_all add: e_def n_def)
  have ms: "0 \<le> ?m * ?s" "?m * ?s \<le> ?m" using s m mult_left_mono [OF s(2), of ?m] by simp_all
  have "\<bar>?s - ?p\<bar> \<le> ?p * e + n" using rnd_relative_error [of ?p] p by (simp add: e_def n_def)
  also have "\<dots> \<le> 2 * e" using mult_right_mono [OF p(2) en(1)] en by simp
  finally have "?m * \<bar>?s - ?p\<bar> \<le> ?m * (2 * e)" using m by (intro mult_left_mono) simp_all
  moreover have "\<bar>?m * ?s - ?m * ?p\<bar> = ?m * \<bar>?s - ?p\<bar>"
    using m by (simp only: right_diff_distrib [symmetric] abs_mult)
  ultimately have 1: "\<bar>?m * ?s - ?m * ?p\<bar> \<le> 2 * (?m * e)" by simp
  have "\<bar>rnd (?m * ?s) - ?m * ?s\<bar> \<le> ?m * ?s * e + n" using rnd_relative_error [of "?m * ?s"] ms by (simp add: e_def n_def)
  moreover have "?m * ?s * e \<le> ?m * e" by (rule mult_right_mono [OF ms(2) en(1)])
  moreover have "n \<le> ?m * e" using mult_right_mono [OF m en(1)] en(3) by simp
  ultimately have "\<bar>rnd (?m * ?s) - ?m * ?p\<bar> \<le> 8 * (?m * e)" using 1 mult_nonneg_nonneg [OF _ en(1), of ?m] m by linarith
  moreover have "8 * e = 2 powi (-50)" using power_int_add [of "2::rat" 3 "-53"] by (simp add: e_def)
  ultimately show ?thesis by (simp add: mult.left_commute)
qed simp

lemma percentile_interpolates:
  assumes "0 \<le> pct" and "pct \<le> 100" and "length vs < 2 ^ 53"
    and "\<forall>v\<in>set vs. rnd v = v \<and> \<bar>v\<bar> \<le> 2 powi 1022" and "vs \<noteq> []"
  defines "k \<equiv> rnd (of_int (int (length vs) - 1) * rnd (pct / 100))"
  defines "lo \<equiv> sort vs ! nat \<lfloor>k\<rfloor>" and "hi \<equiv> sort vs ! min (nat \<lfloor>k\<rfloor> + 1) (length vs - 1)"
  shows "\<exists>r. percentile vs pct = Some (Fin r) \<and> lo \<le> r \<and> r \<le> hi
      \<and> \<bar>r - (lo + (hi - lo) * (k - of_int \<lfloor>k\<rfloor>))\<bar> \<le> (\<bar>lo\<bar> + \<bar>hi\<bar>) * 2 powi (-50) + 2 powi (-1072)
      \<and> (\<lfloor>k\<rfloor> = int (length vs) - 1 \<or> pct = 0 \<longrightarrow> r = lo)"
    and "lo \<in> set vs" and "hi \<in> set vs"
proof -
  let ?d = "sort vs" and ?last = "int (length vs) - 1" and ?f = "\<lfloor>k\<rfloor>"
  note rank = percentile_rank [OF assms(1,2,3,5), folded k_def]
  have f: "0 \<le> ?f" "?f \<le> ?last" "trunc k = ?f"
    using rank(3,4) by (simp_all add: trunc_def floor_le_iff) linarith+
  let ?c = "min (?f + 1) ?last"
  have c: "0 \<le> ?c" "?c < int (length ?d)" using f rank(1) by simp_all
  have c_nat: "nat ?c = min (nat ?f + 1) (length vs - 1)" using f(1) rank(1) by (simp add: min_def; linarith)
  have at: "py_index ?d ?f = Some lo" "py_index ?d ?c = Some hi"
    using f(1,2) c py_index_nonneg [of ?f ?d] py_index_nonneg [of ?c ?d] by (simp_all only: lo_def hi_def c_nat length_sort)
  have in_set: "sort vs ! i \<in> set vs" if "i < length vs" for i using that nth_mem [of i "sort vs"] by simp
  have "0 < length vs" using assms(5) by simp
  then have "min (nat ?f + 1) (length vs - 1) < length vs" by (simp only: min_less_iff_disj diff_less zero_less_one simp_thms)
  moreover from this have "nat ?f < length vs" using f(1,2) by linarith
  ultimately show lo_in: "lo \<in> set vs" and hi_in: "hi \<in> set vs" unfolding lo_def hi_def by (blast intro: in_set)+
  have "nat ?f \<le> min (nat ?f + 1) (length vs - 1)" using f(1,2) by (simp only: min_def split: if_split; linarith)
  then have le: "lo \<le> hi" unfolding lo_def hi_def
    using \<open>min (nat ?f + 1) (length vs - 1) < length vs\<close> by (intro sorted_nth_mono [OF sorted_sort]) simp_all
  have k53: "k \<le> 2 powi 53"
  proof -
    have "?last \<le> 2 ^ 53" using assms(3) by simp
    then have "(of_int ?last :: rat) \<le> of_int (2 ^ 53)" by (simp only: of_int_le_iff)
    then show ?thesis using rank(4) by simp
  qed
  let ?r = "if ?f = ?c then Fin lo else interpolate lo hi k ?f"
  have "value_at_rank ?d k = Some ?r" using at unfolding value_at_rank_def Let_def f(3) length_sort by simp
  then have val: "percentile vs pct = Some ?r"
    using assms(5) rank(2) unfolding percentile_def Let_def length_sort k_def by simp
  show "\<exists>r. percentile vs pct = Some (Fin r) \<and> lo \<le> r \<and> r \<le> hi
      \<and> \<bar>r - (lo + (hi - lo) * (k - of_int ?f))\<bar> \<le> (\<bar>lo\<bar> + \<bar>hi\<bar>) * 2 powi (-50) + 2 powi (-1072)
      \<and> (?f = ?last \<or> pct = 0 \<longrightarrow> r = lo)"
  proof (cases "?f = ?c")
    case True
    then have "hi = lo" using c_nat by (simp only: lo_def hi_def)
    then show ?thesis using val True by simp
  next
    case False
    obtain r where r: "interpolate lo hi k ?f = Fin r" "lo \<le> r" "r \<le> hi"
      "\<bar>r - (lo + (hi - lo) * (k - of_int ?f))\<bar> \<le> (\<bar>lo\<bar> + \<bar>hi\<bar>) * 2 powi (-50) + 2 powi (-1072)"
      "k - of_int ?f = 0 \<longrightarrow> r = lo"
      using interpolate_between [OF _ _ _ _ le _ rank(3) k53] assms(4) lo_in hi_in by (auto simp: k_def)
    moreover have "k - of_int ?f = 0" if "pct = 0" using that by (simp add: k_def)
    moreover have "?f \<noteq> ?last" using False by auto
    ultimately show ?thesis using val False by auto
  qed
qed

lemma percentile_perm:
  assumes "mset vs' = mset vs"
  shows "percentile vs' pct = percentile vs pct"
proof -
  have "sort vs' = sort vs" using assms by (intro properties_for_sort) simp_all
  moreover have "length vs' = length vs" using assms by (rule mset_eq_length)
  moreover have "vs' = [] \<longleftrightarrow> vs = []" using assms by auto
  ultimately show ?thesis by (simp add: percentile_def)
qed

text \<open>
  C31. A percentile of the latencies is the linear interpolation between two neighbours of the
  sorted latencies. For any number of finite latencies up to 2 to the 1022 in magnitude (their
  gaps then do not overflow) and any percentage from 0 to 100, no index is out of range and the
  result is NaN exactly for no latency. Otherwise the float rank is the exact one up to a relative
  2 to the minus 50; the result is not below the latency at the rank rounded down nor above its
  successor, although the rounded gap between the two may be above the gap; it differs from the
  exact interpolation between them by at most 2 to the minus 50 of their size (and a subnormal);
  the percentile 0 is the least latency and the percentile 100 the greatest; and the order of the
  latencies does not matter.
\<close>

theorem percentile_sound:
  assumes "0 \<le> pct" and "pct \<le> 100" and "length vs < 2 ^ 53"
    and "\<forall>v\<in>set vs. rnd v = v \<and> \<bar>v\<bar> \<le> 2 powi 1022" and "mset vs' = mset vs"
  shows "percentile vs' pct = percentile vs pct
    \<and> (if vs = [] then percentile vs pct = Some NaN
       else let m = int (length vs) - 1; k = rnd (of_int m * rnd (pct / 100));
                lo = sort vs ! nat \<lfloor>k\<rfloor>; hi = sort vs ! min (nat \<lfloor>k\<rfloor> + 1) (length vs - 1) in
         0 \<le> k \<and> k \<le> of_int m \<and> \<bar>k - of_int m * (pct / 100)\<bar> \<le> of_int m * 2 powi (-50)
         \<and> (\<exists>r. percentile vs pct = Some (Fin r) \<and> lo \<le> r \<and> r \<le> hi
            \<and> \<bar>r - (lo + (hi - lo) * (k - of_int \<lfloor>k\<rfloor>))\<bar> \<le> (\<bar>lo\<bar> + \<bar>hi\<bar>) * 2 powi (-50) + 2 powi (-1072)
            \<and> Min (set vs) \<le> r \<and> r \<le> Max (set vs)
            \<and> (pct = 0 \<longrightarrow> r = Min (set vs)) \<and> (pct = 100 \<longrightarrow> r = Max (set vs))))"
proof (cases "vs = []")
  case True
  then show ?thesis using assms(5) by (simp add: percentile_def)
next
  case False
  define k where "k = rnd (of_int (int (length vs) - 1) * rnd (pct / 100))"
  define lo where "lo = sort vs ! nat \<lfloor>k\<rfloor>"
  define hi where "hi = sort vs ! min (nat \<lfloor>k\<rfloor> + 1) (length vs - 1)"
  note folds = k_def [symmetric] lo_def [symmetric] hi_def [symmetric]
  note interpolates = percentile_interpolates [OF assms(1-4) False, unfolded folds]
  note rank = percentile_rank [OF assms(1-3) False, unfolded folds]
  obtain r where r: "percentile vs pct = Some (Fin r)" "lo \<le> r" "r \<le> hi"
    "\<bar>r - (lo + (hi - lo) * (k - of_int \<lfloor>k\<rfloor>))\<bar> \<le> (\<bar>lo\<bar> + \<bar>hi\<bar>) * 2 powi (-50) + 2 powi (-1072)"
    "\<lfloor>k\<rfloor> = int (length vs) - 1 \<or> pct = 0 \<longrightarrow> r = lo"
    using interpolates(1) by blast
  have "Min (set vs) \<le> lo" "hi \<le> Max (set vs)" using interpolates(2,3) by simp_all
  then have range: "Min (set vs) \<le> r" "r \<le> Max (set vs)" using r(2,3) by linarith+
  have "r = Min (set vs)" if "pct = 0"
    using r(5) that sorted_ends(1) [OF False] by (simp add: lo_def k_def)
  moreover have "r = Max (set vs)" if "pct = 100"
  proof -
    have f: "\<lfloor>k\<rfloor> = int (length vs) - 1" using that rank(2) b64.one by (simp add: k_def)
    have "nat (int (length vs) - 1) = length vs - 1" by simp
    then show ?thesis using r(5) f sorted_ends(2) [OF False] by (simp add: lo_def)
  qed
  moreover have "\<bar>k - of_int (int (length vs) - 1) * (pct / 100)\<bar> \<le> of_int (int (length vs) - 1) * 2 powi (-50)"
    unfolding k_def by (rule percentile_rank_error [OF assms(1,2) rank(1)])
  ultimately show ?thesis unfolding if_not_P [OF False] Let_def folds
    using r(1-4) range rank(3,4) by (intro conjI percentile_perm [OF assms(5)] exI [of _ r]) simp_all
qed

theorem percentile_sound_witness:
  "\<exists>r. percentile [3, 1, 2] 50 = Some (Fin r) \<and> 2 \<le> r \<and> r \<le> 3 \<and> percentile [2, 3, 1] 50 = Some (Fin r)"
proof -
  have "\<forall>v\<in>set [3, 1, 2]. rnd v = v \<and> \<bar>v\<bar> \<le> 2 powi 1022" using rnd_of_int [of 3] rnd_of_int [of 2] b64.one by simp
  moreover have "mset [2, 3, 1] = mset [3, 1, 2 :: rat]" by simp
  moreover have "rnd (of_int (int (length [3, 1, 2 :: rat]) - 1) * rnd (50 / 100)) = 1" by code_simp
  moreover have "sort [3, 1, 2 :: rat] = [1, 2, 3]" by (simp add: insort_key.simps)
  ultimately show ?thesis
    using percentile_sound [of 50 "[3, 1, 2]" "[2, 3, 1]"] by (auto simp: Let_def)
qed

section \<open>The schedule runs every trial under its own interval\<close>

text \<open>The trials of a list of actions, each with the interval that was set last.\<close>

fun trials_under :: "string option \<Rightarrow> action list \<Rightarrow> (string \<times> string option) list" where
  "trials_under interval [] = []"
| "trials_under interval (SetSampleInterval i # as) = trials_under (Some i) as"
| "trials_under interval (Warmup # as) = trials_under interval as"
| "trials_under interval (RunTrial label # as) = (label, interval) # trials_under interval as"

lemma schedule_trials:
  assumes "\<forall>l. current = Some l \<longrightarrow> interval = map_of CONFIGS l" and "set labels \<subseteq> dom (map_of CONFIGS)"
  shows "trials_under interval (schedule current labels) = map (\<lambda>l. (l, map_of CONFIGS l)) labels"
  using assms by (induction labels arbitrary: current interval) auto

text \<open>
  For every shuffle of the order, the schedule runs five trials of each configuration, in that
  order, and each under the sampling interval of its own configuration, set since the last trial
  of another one.
\<close>

theorem schedule_sound:
  assumes "mset order = mset bench_order"
  shows "trials_under None (schedule None order) = map (\<lambda>l. (l, map_of CONFIGS l)) order
    \<and> length (filter (\<lambda>l. l = ''baseline_1000ms'') order) = 5 \<and> length (filter (\<lambda>l. l = ''stress_200ms'') order) = 5
    \<and> length order = 10"
proof -
  have "set order = set bench_order" using assms by (rule mset_eq_setD)
  then have "set order \<subseteq> dom (map_of CONFIGS)"
    by (auto simp: bench_order_def CONFIGS_def TRIALS_PER_CONFIG_def)
  then have "trials_under None (schedule None order) = map (\<lambda>l. (l, map_of CONFIGS l)) order"
    by (intro schedule_trials) simp_all
  moreover have "length (filter P order) = length (filter P bench_order)" for P
    by (rule length_filter_mset_eq [OF assms])
  moreover have "length order = length bench_order" using assms by (rule mset_eq_length)
  moreover have "length (filter (\<lambda>l. l = ''baseline_1000ms'') bench_order) = 5"
    "length (filter (\<lambda>l. l = ''stress_200ms'') bench_order) = 5" "length bench_order = 10" by code_simp+
  ultimately show ?thesis by simp
qed

theorem schedule_sound_witness:
  "length (trials_under None (schedule None (rev bench_order))) = 10"
  using schedule_sound [of "rev bench_order"] by simp

end
