(* ===== verification/Agent_Stats.thy ===== *)
theory Agent_Stats
  imports Benchmark Py_Text "HOL-Library.Sublist"
begin

text \<open>
  \<open>scripts/benchmark.py\<close>, \<open>_agent_stats\<close>: the output of \<open>docker stats\<close> is read line by line, and the
  medians of the CPU shares and of the memory of the agents are taken. The output is ASCII.
\<close>

section \<open>Texts\<close>

text \<open>\<open>s.splitlines()\<close>.\<close>

definition line_break :: "char \<Rightarrow> bool" where
  "line_break c \<longleftrightarrow> c \<in> set (map char_of [10, 11, 12, 13, 28, 29, 30 :: nat])"

function splitlines :: "string \<Rightarrow> string list" where
  "splitlines s = (case s of [] \<Rightarrow> []
   | c # r \<Rightarrow> if line_break c then [] # splitlines (if c = char_of (13 :: nat) \<and> take 1 r = [char_of (10 :: nat)] then drop 1 r else r)
       else (case splitlines r of [] \<Rightarrow> [[c]] | l # ls \<Rightarrow> (c # l) # ls))"
  by pat_completeness auto
termination
  by (relation "measure length") auto

declare splitlines.simps [simp del]

text \<open>\<open>line.split(",", 2)\<close> unpacked into three names; \<open>None\<close> is the ValueError of fewer parts.\<close>

definition split3 :: "string \<Rightarrow> (string \<times> string \<times> string) option" where
  "split3 line = (let name = takeWhile (\<lambda>c. c \<noteq> CHR '','') line; r = drop (Suc (length name)) line;
       cpu = takeWhile (\<lambda>c. c \<noteq> CHR '','') r
     in if CHR '','' \<in> set line \<and> CHR '','' \<in> set r then Some (name, cpu, drop (Suc (length cpu)) r) else None)"

definition rstrip_percent :: "string \<Rightarrow> string" where
  "rstrip_percent s = rev (dropWhile (\<lambda>c. c = CHR ''%'') (rev s))"

text \<open>
  \<open>float(s)\<close> of an ASCII string. \<open>NonFinite\<close> is a text of an infinity or NaN, or a number that
  overflows, which docker does not print.
\<close>

datatype stats_failure = StatsValueError | NonFinite

definition digit_part :: "string \<Rightarrow> int option" where
  "digit_part s = read_digits 0 False s"

definition count_digits :: "string \<Rightarrow> nat" where
  "count_digits s = length (filter (\<lambda>c. digit_of c \<noteq> None) s)"

definition lower :: "char \<Rightarrow> char" where
  "lower c = (if 65 \<le> (of_char c :: nat) \<and> (of_char c :: nat) < 91 then char_of (of_char c + 32 :: nat) else c)"

definition read_exp :: "string \<Rightarrow> int option" where
  "read_exp s = (case s of [] \<Rightarrow> None
   | c # r \<Rightarrow> if c = CHR ''-'' then map_option uminus (digit_part r) else if c = CHR ''+'' then digit_part r else digit_part s)"

definition read_mantissa :: "string \<Rightarrow> rat option" where
  "read_mantissa m = (let a = takeWhile (\<lambda>c. c \<noteq> CHR ''.'') m; b = drop (Suc (length a)) m;
       int_part = (if a = [] then Some 0 else digit_part a); fraction = (if b = [] then Some 0 else digit_part b)
     in if a = [] \<and> b = [] then None
        else (case (int_part, fraction) of (Some i, Some f) \<Rightarrow> Some (of_int i + of_int f / 10 ^ count_digits b) | _ \<Rightarrow> None))"

definition read_decimal :: "string \<Rightarrow> rat option" where
  "read_decimal s = (let m = takeWhile (\<lambda>c. c \<noteq> CHR ''e'') s in
     case read_mantissa m of None \<Rightarrow> None
     | Some q \<Rightarrow> if m = s then Some q
         else map_option (\<lambda>e. if e < 0 then q / 10 ^ nat (- e) else q * 10 ^ nat e) (read_exp (drop (Suc (length m)) s)))"

definition read_float :: "string \<Rightarrow> stats_failure + rat" where
  "read_float s = (let t = map lower (py_strip s); signed = take 1 t = ''-'' \<or> take 1 t = ''+'';
       u = (if signed then drop 1 t else t) in
     if u \<in> {''inf'', ''infinity'', ''nan''} then Inl NonFinite
     else case read_decimal u of None \<Rightarrow> Inl StatsValueError
     | Some q \<Rightarrow> (case fin_round (if take 1 t = ''-'' then - q else q) of Fin r \<Rightarrow> Inr r | _ \<Rightarrow> Inl NonFinite))"

section \<open>The statistics\<close>

text \<open>The readings of one line: nothing for another container, the CPU share, and the memory in MiB.\<close>

definition memory_mib :: "string \<Rightarrow> stats_failure + rat option" where
  "memory_mib mem_str = (let part = py_strip (takeWhile (\<lambda>c. c \<noteq> CHR ''/'') mem_str); number = take (length part - 3) part in
     if suffix ''MiB'' part then map_sum id Some (read_float number)
     else if suffix ''KiB'' part then map_sum id (\<lambda>x. Some (rnd (x / 1024))) (read_float number)
     else if suffix ''GiB'' part then (case read_float number of Inl e \<Rightarrow> Inl e
       | Inr x \<Rightarrow> (case fin_round (x * 1024) of Fin r \<Rightarrow> Inr (Some r) | _ \<Rightarrow> Inl NonFinite))
     else Inr None)"

definition line_readings :: "string \<Rightarrow> stats_failure + (rat \<times> rat option) option" where
  "line_readings line = (case split3 line of
     None \<Rightarrow> Inl StatsValueError
   | Some (name, cpu, mem) \<Rightarrow>
       if \<not> sublist ''-agent-'' name then Inr None
       else (case read_float (rstrip_percent (py_strip cpu)) of Inl e \<Rightarrow> Inl e
       | Inr c \<Rightarrow> map_sum id (\<lambda>m. Some (c, m)) (memory_mib mem)))"

fun readings :: "string list \<Rightarrow> stats_failure + (rat \<times> rat option) list" where
  "readings [] = Inr []"
| "readings (l # ls) = (case line_readings l of Inl e \<Rightarrow> Inl e
   | Inr r \<Rightarrow> map_sum id (\<lambda>rs. (case r of None \<Rightarrow> rs | Some x \<Rightarrow> x # rs)) (readings ls))"

definition median_or_nan :: "rat list \<Rightarrow> pyfloat" where
  "median_or_nan xs = (case statistics_median (map PFloat xs) of None \<Rightarrow> NaN | Some m \<Rightarrow> Fin (num_val m))"

record agent_stats =
  as_cpu_pct_median :: pyfloat
  as_mem_mib_median :: pyfloat

definition agent_stats :: "string \<Rightarrow> stats_failure + agent_stats" where
  "agent_stats stdout = map_sum id (\<lambda>rs. \<lparr>as_cpu_pct_median = median_or_nan (map fst rs),
     as_mem_mib_median = median_or_nan (List.map_filter snd rs)\<rparr>) (readings (splitlines (py_strip stdout)))"

section \<open>The median\<close>

lemma sort_floats: "sort_key num_val (map PFloat xs) = map PFloat (sort xs)"
proof -
  have "insort_key num_val (PFloat x) (map PFloat ys) = map PFloat (insort x ys)" for x ys by (induction ys) simp_all
  then show ?thesis by (induction xs) simp_all
qed

lemma median_value:
  "median_or_nan xs = (let d = sort xs; n = length d in if n = 0 then NaN
     else if odd n then Fin (d ! (n div 2)) else Fin (rnd (rnd (d ! (n div 2 - 1) + d ! (n div 2)) / 2)))"
proof -
  have "rnd 2 = 2" using rnd_of_int [of 2] by simp
  moreover have "n div 2 - 1 < n" if "n \<noteq> 0" for n :: nat using that by linarith
  ultimately show ?thesis by (simp add: median_or_nan_def statistics_median_def sort_floats Let_def)
qed

section \<open>The output of docker\<close>

text \<open>
  What \<open>docker stats --no-stream\<close> prints for a list of containers: the name, which has neither a blank
  nor a comma, the CPU share, and the memory in a binary unit with its limit; a container that has stopped
  has dashes. The numbers are in decimal digits, here at most 300 before the point.
\<close>

definition is_digit :: "char \<Rightarrow> bool" where
  "is_digit c \<longleftrightarrow> 48 \<le> (of_char c :: nat) \<and> (of_char c :: nat) < 58"

definition whole_value :: "string \<Rightarrow> nat" where
  "whole_value s = foldl (\<lambda>a c. 10 * a + (of_char c - 48)) 0 s"

type_synonym decimal_digits = "string \<times> string"

definition decimal_text :: "decimal_digits \<Rightarrow> string" where
  "decimal_text d = fst d @ (if snd d = [] then [] else CHR ''.'' # snd d)"

definition decimal_number :: "decimal_digits \<Rightarrow> rat" where
  "decimal_number d = of_nat (whole_value (fst d)) + of_nat (whole_value (snd d)) / 10 ^ length (snd d)"

definition good_decimal :: "decimal_digits \<Rightarrow> bool" where
  "good_decimal d \<longleftrightarrow> fst d \<noteq> [] \<and> length (fst d) \<le> 300 \<and> list_all is_digit (fst d) \<and> list_all is_digit (snd d)"

datatype mem_unit = Bytes | KiB | MiB | GiB | TiB

primrec unit_text :: "mem_unit \<Rightarrow> string" where
  "unit_text Bytes = ''B''"
| "unit_text KiB = ''KiB''"
| "unit_text MiB = ''MiB''"
| "unit_text GiB = ''GiB''"
| "unit_text TiB = ''TiB''"

record sample_text =
  sm_cpu :: decimal_digits
  sm_memory :: decimal_digits
  sm_unit :: mem_unit
  sm_limit :: string

record container =
  ct_name :: string
  ct_sample :: "sample_text option"

definition memory_text :: "sample_text \<Rightarrow> string" where
  "memory_text s = decimal_text (sm_memory s) @ unit_text (sm_unit s) @ '' / '' @ sm_limit s"

definition stats_line :: "container \<Rightarrow> string" where
  "stats_line ct = ct_name ct @ CHR '','' # (case ct_sample ct of None \<Rightarrow> ''--,-- / --''
     | Some s \<Rightarrow> decimal_text (sm_cpu s) @ ''%'' @ CHR '','' # memory_text s)"

definition docker_output :: "container list \<Rightarrow> string" where
  "docker_output cts = concat (map (\<lambda>ct. stats_line ct @ [CHR 0x0A]) cts)"

definition docker_container :: "container \<Rightarrow> bool" where
  "docker_container ct \<longleftrightarrow> ct_name ct \<noteq> [] \<and> list_all (\<lambda>c. \<not> py_space c \<and> c \<noteq> CHR '','') (ct_name ct)
     \<and> (case ct_sample ct of None \<Rightarrow> True
        | Some s \<Rightarrow> good_decimal (sm_cpu s) \<and> good_decimal (sm_memory s)
           \<and> sm_limit s \<noteq> [] \<and> list_all (\<lambda>c. \<not> py_space c) (sm_limit s))"

subsection \<open>Numbers\<close>

lemma is_digit_neq:
  assumes "is_digit c"
  shows "c \<noteq> CHR ''.''" "c \<noteq> CHR ''e''" "c \<noteq> CHR ''-''" "c \<noteq> CHR ''+''" "c \<noteq> CHR ''i''" "c \<noteq> CHR ''n''"
    "c \<noteq> CHR ''%''" "c \<noteq> CHR '',''" "c \<noteq> CHR ''/''" "\<not> py_space c" "\<not> line_break c" "lower c = c"
  using assms by (auto simp: is_digit_def py_space_def line_break_def lower_def)

lemma whole_value_less:
  assumes "list_all is_digit s"
  shows "whole_value s < 10 ^ length s"
proof -
  have "foldl (\<lambda>a c. 10 * a + (of_char c - 48)) a s < (a + 1) * 10 ^ length s" for a :: nat
    using assms
  proof (induction s arbitrary: a)
    case (Cons c s)
    have "10 * a + (of_char c - 48) + 1 \<le> 10 * (a + 1)" using Cons.prems by (simp add: is_digit_def) linarith
    then have "(10 * a + (of_char c - 48) + 1) * 10 ^ length s \<le> 10 * (a + 1) * 10 ^ length s" by (rule mult_le_mono1)
    moreover have "foldl (\<lambda>a c. 10 * a + (of_char c - 48)) (10 * a + (of_char c - 48)) s < (10 * a + (of_char c - 48) + 1) * 10 ^ length s"
      using Cons.prems by (intro Cons.IH) simp
    ultimately have "foldl (\<lambda>a c. 10 * a + (of_char c - 48)) (10 * a + (of_char c - 48)) s < 10 * (a + 1) * 10 ^ length s" by (rule order_less_le_trans [rotated])
    then show ?case by (simp only: foldl_Cons list.size power_Suc add_Suc_right add_0_right mult.assoc mult.left_commute)
  qed simp
  from this [of 0] show ?thesis by (simp add: whole_value_def)
qed

lemma digit_part_value:
  assumes "list_all is_digit s" and "s \<noteq> []"
  shows "digit_part s = Some (int (whole_value s))"
  using read_digits_fold [of s False 0] assms by (simp add: digit_part_def whole_value_def is_digit_def list_all_iff)

lemma count_digits_all: "list_all is_digit s \<Longrightarrow> count_digits s = length s"
  by (induction s) (simp_all add: count_digits_def digit_of_def is_digit_def)

lemma takeWhile_is_digit:
  "list_all is_digit s \<Longrightarrow> (\<forall>c. is_digit c \<longrightarrow> P c) \<Longrightarrow> takeWhile P (s @ r) = s @ takeWhile P r"
  by (induction s) simp_all

lemma decimal_text_chars:
  assumes "good_decimal d"
  shows "\<forall>c\<in>set (decimal_text d). is_digit c \<or> c = CHR ''.''" and "decimal_text d \<noteq> []"
    and "is_digit (hd (decimal_text d))" and "is_digit (last (decimal_text d))"
proof -
  show "\<forall>c\<in>set (decimal_text d). is_digit c \<or> c = CHR ''.''"
    using assms by (auto simp: decimal_text_def good_decimal_def list_all_iff split: if_splits)
  show "decimal_text d \<noteq> []" using assms by (simp add: decimal_text_def good_decimal_def)
  show "is_digit (hd (decimal_text d))" "is_digit (last (decimal_text d))"
    using assms by (auto simp: decimal_text_def good_decimal_def list_all_iff)
qed

lemma read_mantissa_decimal:
  assumes "good_decimal d"
  shows "read_mantissa (decimal_text d) = Some (decimal_number d)"
proof -
  obtain w f where d: "d = (w, f)" by (cases d)
  have w: "w \<noteq> []" "list_all is_digit w" "list_all is_digit f" using assms by (simp_all add: d good_decimal_def)
  have t: "takeWhile (\<lambda>c. c \<noteq> CHR ''.'') (w @ r) = w @ takeWhile (\<lambda>c. c \<noteq> CHR ''.'') r" for r
    by (rule takeWhile_is_digit [OF w(2)]) (use is_digit_neq in blast)
  have int_part: "takeWhile (\<lambda>c. c \<noteq> CHR ''.'') (decimal_text d) = w"
    using t [of "CHR ''.'' # f"] t [of "[]"] unfolding d decimal_text_def by (cases "f = []") simp_all
  have fraction: "drop (Suc (length w)) (decimal_text d) = f" by (simp add: d decimal_text_def)
  have "(if f = [] then Some 0 else digit_part f) = Some (int (whole_value f))"
    using digit_part_value [OF w(3)] by (simp add: whole_value_def)
  then show ?thesis unfolding read_mantissa_def int_part Let_def fraction
    using w(1) by (simp add: digit_part_value [OF w(2,1)] count_digits_all [OF w(3)] decimal_number_def d)
qed

lemma decimal_number_bounds:
  assumes "good_decimal d"
  shows "0 \<le> decimal_number d" and "decimal_number d \<le> 2 powi 1000"
proof -
  show "0 \<le> decimal_number d" by (simp add: decimal_number_def)
  have "whole_value (fst d) < 10 ^ length (fst d)" "whole_value (snd d) < 10 ^ length (snd d)"
    using assms whole_value_less by (auto simp: good_decimal_def)
  then have "(of_nat (whole_value (fst d)) :: rat) < of_nat (10 ^ length (fst d))"
    "(of_nat (whole_value (snd d)) :: rat) < of_nat (10 ^ length (snd d))" by (simp_all only: of_nat_less_iff)
  then have "(of_nat (whole_value (fst d)) :: rat) \<le> 10 ^ length (fst d)" "of_nat (whole_value (snd d)) / 10 ^ length (snd d) \<le> (1 :: rat)"
    by simp_all
  moreover have "(10 :: rat) ^ length (fst d) \<le> 10 ^ 300" using assms by (intro power_increasing) (simp_all add: good_decimal_def)
  ultimately have "decimal_number d \<le> 10 ^ 300 + 1" unfolding decimal_number_def by linarith
  also have "\<dots> \<le> 2 powi 1000" by simp
  finally show "decimal_number d \<le> 2 powi 1000" .
qed

lemma read_float_decimal:
  assumes "good_decimal d"
  shows "read_float (decimal_text d) = Inr (rnd (decimal_number d))"
proof -
  note chars = decimal_text_chars [OF assms]
  let ?t = "decimal_text d"
  have strip: "py_strip ?t = ?t" by (rule strip_no_space [OF is_digit_neq(10) [OF chars(3)] is_digit_neq(10) [OF chars(4)]])
  have "lower (CHR ''.'') = CHR ''.''" by code_simp
  then have lower: "map lower ?t = ?t" using chars(1) is_digit_neq(12) by (intro map_idI) auto
  obtain c r where c: "?t = c # r" "is_digit c" using chars(2,3) by (cases ?t) auto
  have hd: "take 1 ?t \<noteq> ''-''" "take 1 ?t \<noteq> ''+''" "?t \<notin> {''inf'', ''infinity'', ''nan''}"
    using c is_digit_neq [OF c(2)] by auto
  have "takeWhile (\<lambda>c. c \<noteq> CHR ''e'') ?t = ?t" using chars(1) is_digit_neq(2) by (intro takeWhile_eq_all_conv [THEN iffD2]) auto
  then have read: "read_decimal ?t = Some (decimal_number d)"
    by (simp only: read_decimal_def Let_def read_mantissa_decimal [OF assms] option.case if_True simp_thms)
  have "(2::rat) powi 1000 \<le> 2 powi 1023" unfolding powi_le_iff by simp
  then have "\<bar>decimal_number d\<bar> \<le> 2 powi 1023" using decimal_number_bounds [OF assms] by linarith
  then have "fin_round (decimal_number d) = Fin (rnd (decimal_number d))" by (rule fin_round_bounded)
  then show ?thesis unfolding read_float_def strip lower Let_def using hd read by simp
qed

subsection \<open>Lines\<close>

lemma memory_mib_text:
  assumes "good_decimal (sm_memory s)"
  shows "memory_mib (memory_text s) = Inr (case sm_unit s of
      KiB \<Rightarrow> Some (rnd (rnd (decimal_number (sm_memory s)) / 1024)) | MiB \<Rightarrow> Some (rnd (decimal_number (sm_memory s)))
    | GiB \<Rightarrow> Some (rnd (rnd (decimal_number (sm_memory s)) * 1024)) | _ \<Rightarrow> None)"
proof -
  let ?d = "decimal_text (sm_memory s)" and ?u = "unit_text (sm_unit s)"
  note chars = decimal_text_chars [OF assms]
  have "\<forall>c\<in>set (?d @ ?u). c \<noteq> CHR ''/''" using chars(1) is_digit_neq(9) by (cases "sm_unit s") auto
  then have "takeWhile (\<lambda>c. c \<noteq> CHR ''/'') ((?d @ ?u) @ '' / '' @ sm_limit s) = (?d @ ?u) @ takeWhile (\<lambda>c. c \<noteq> CHR ''/'') ('' / '' @ sm_limit s)"
    by (intro takeWhile_append2) blast
  then have taken: "takeWhile (\<lambda>c. c \<noteq> CHR ''/'') (memory_text s) = ?d @ ?u @ '' ''" by (simp add: memory_text_def)
  have space: "py_space (CHR '' '')" "\<not> py_space (CHR ''B'')" by code_simp+
  have first: "\<not> py_space (hd (?d @ ?u @ r))" for r using chars(2,3) is_digit_neq(10) by (simp add: hd_append2)
  have last: "\<exists>u. ?u = u @ ''B''" by (cases "sm_unit s") auto
  then obtain u where u: "?u = u @ ''B''" by blast
  have "dropWhile py_space (?d @ ?u @ '' '') = ?d @ ?u @ '' ''" using first [of "'' ''"] chars(2) by (cases ?d) simp_all
  then have part: "py_strip (?d @ ?u @ '' '') = ?d @ ?u" using space by (simp add: py_strip_def u)
  let ?x = "rnd (decimal_number (sm_memory s))"
  have read: "read_float ?d = Inr ?x" by (rule read_float_decimal [OF assms])
  have "0 \<le> ?x" by (rule rnd_nonneg [OF decimal_number_bounds(1) [OF assms]])
  moreover have "?x \<le> 2 powi 1000" by (rule b64.below [OF rnd_powi decimal_number_bounds(2) [OF assms]]) simp
  moreover have "(2::rat) powi 1000 * 1024 \<le> 2 powi 1023" by simp
  ultimately have "\<bar>?x * 1024\<bar> \<le> 2 powi 1023" by linarith
  then have gib: "fin_round (?x * 1024) = Fin (rnd (?x * 1024))" by (rule fin_round_bounded)
  show ?thesis
  proof (cases "sm_unit s")
    case Bytes
    obtain v c where v: "?d = v @ [c]" "is_digit c" using chars(2,4) by (metis append_butlast_last_id)
    then show ?thesis using is_digit_neq(5) [OF v(2)] unfolding memory_mib_def taken part Let_def by (simp add: Bytes suffix_def)
  qed (unfold memory_mib_def taken part Let_def, use read gib in \<open>simp_all add: suffix_def\<close>)
qed


text \<open>The readings of a line of docker.\<close>

definition memory_reading :: "sample_text \<Rightarrow> rat option" where
  "memory_reading s = (let x = rnd (decimal_number (sm_memory s)) in case sm_unit s of
     KiB \<Rightarrow> Some (rnd (x / 1024)) | MiB \<Rightarrow> Some x | GiB \<Rightarrow> Some (rnd (x * 1024)) | _ \<Rightarrow> None)"

lemma split3_parts:
  assumes "CHR '','' \<notin> set a" and "CHR '','' \<notin> set b"
  shows "split3 (a @ CHR '','' # b @ CHR '','' # r) = Some (a, b, r)"
proof -
  have "takeWhile (\<lambda>c. c \<noteq> CHR '','') (a @ CHR '','' # x) = a" if "CHR '','' \<notin> set a" for a x
    using that by (induction a) auto
  from this [OF assms(1)] this [OF assms(2)] show ?thesis by (simp add: split3_def)
qed

lemma rstrip_percent_text:
  assumes "s \<noteq> []" and "last s \<noteq> CHR ''%''"
  shows "rstrip_percent (s @ ''%'') = s"
  using assms by (cases s rule: rev_cases) (simp_all add: rstrip_percent_def)

lemma stats_line_readings:
  assumes "docker_container ct"
  shows "line_readings (stats_line ct) = (if \<not> sublist ''-agent-'' (ct_name ct) then Inr None
    else case ct_sample ct of None \<Rightarrow> Inl StatsValueError
      | Some s \<Rightarrow> Inr (Some (rnd (decimal_number (sm_cpu s)), memory_reading s)))"
proof (cases "ct_sample ct")
  case None
  have name: "CHR '','' \<notin> set (ct_name ct)" using assms by (auto simp: docker_container_def list_all_iff)
  have dashes: "CHR '','' \<notin> set ''--''" by simp
  have "stats_line ct = ct_name ct @ CHR '','' # ''--'' @ CHR '','' # ''-- / --''" by (simp add: stats_line_def None)
  then have split: "split3 (stats_line ct) = Some (ct_name ct, ''--'', ''-- / --'')" using split3_parts [OF name dashes] by metis
  have "read_float (rstrip_percent (py_strip ''--'')) = Inl StatsValueError" by code_simp
  then show ?thesis unfolding line_readings_def split by (simp add: None)
next
  case (Some s)
  let ?c = "decimal_text (sm_cpu s)"
  have good: "good_decimal (sm_cpu s)" "good_decimal (sm_memory s)" using assms Some by (simp_all add: docker_container_def)
  note chars = decimal_text_chars [OF good(1)]
  have name: "CHR '','' \<notin> set (ct_name ct)" using assms by (auto simp: docker_container_def list_all_iff)
  have cpu: "CHR '','' \<notin> set (?c @ ''%'')" using chars(1) is_digit_neq(8) by auto
  have "stats_line ct = ct_name ct @ CHR '','' # (?c @ ''%'') @ CHR '','' # memory_text s" by (simp add: stats_line_def Some)
  then have split: "split3 (stats_line ct) = Some (ct_name ct, ?c @ ''%'', memory_text s)" using split3_parts [OF name cpu] by metis
  have percent: "\<not> py_space (CHR ''%'')" by code_simp
  have "py_strip (?c @ ''%'') = ?c @ ''%''"
    by (rule strip_no_space) (use chars(2) is_digit_neq(10) [OF chars(3)] percent in simp_all)
  moreover have "rstrip_percent (?c @ ''%'') = ?c" by (rule rstrip_percent_text [OF chars(2) is_digit_neq(7) [OF chars(4)]])
  ultimately have c: "read_float (rstrip_percent (py_strip (?c @ ''%''))) = Inr (rnd (decimal_number (sm_cpu s)))"
    by (simp only: read_float_decimal [OF good(1)])
  have m: "memory_mib (memory_text s) = Inr (memory_reading s)"
    by (simp add: memory_mib_text [OF good(2)] memory_reading_def Let_def)
  show ?thesis unfolding line_readings_def split option.case prod.case c m Some by simp
qed

subsection \<open>The whole output\<close>

lemma splitlines_cons:
  "splitlines (c # r) = (if line_break c then [] # splitlines (if c = char_of (13 :: nat) \<and> take 1 r = [char_of (10 :: nat)] then drop 1 r else r)
       else (case splitlines r of [] \<Rightarrow> [[c]] | l # ls \<Rightarrow> (c # l) # ls))"
  by (simp add: splitlines.simps [of "c # r"])

lemma splitlines_line:
  assumes "list_all (\<lambda>c. \<not> line_break c) l"
  shows "splitlines (l @ CHR 0x0A # r) = l # splitlines r" and "l \<noteq> [] \<Longrightarrow> splitlines l = [l]"
proof -
  have nl: "line_break (CHR 0x0A)" "CHR 0x0A \<noteq> char_of (13 :: nat)" by code_simp+
  show "splitlines (l @ CHR 0x0A # r) = l # splitlines r"
    using assms by (induction l) (simp_all add: splitlines_cons nl)
  have nil: "splitlines [] = []" by (simp add: splitlines.simps)
  show "splitlines l = [l]" if "l \<noteq> []"
    using assms that
  proof (induction l)
    case (Cons c l)
    then show ?case by (cases "l = []") (simp_all add: splitlines_cons nil)
  qed simp
qed

lemma stats_line_shape:
  assumes "docker_container ct"
  shows "list_all (\<lambda>c. \<not> line_break c) (stats_line ct)" and "stats_line ct \<noteq> []"
    and "\<not> py_space (hd (stats_line ct))" and "\<not> py_space (last (stats_line ct))"
proof -
  have brk: "\<not> line_break c" if "\<not> py_space c" for c using that by (auto simp: line_break_def py_space_def)
  have fixed: "list_all (\<lambda>c. \<not> line_break c) (CHR '','' # ''--,-- / --'')" "\<not> line_break (CHR '','')" "\<not> line_break (CHR ''%'')"
    "list_all (\<lambda>c. \<not> line_break c) '' / ''" "\<not> line_break (CHR ''.'')" by code_simp+
  have name: "ct_name ct \<noteq> []" "\<forall>c\<in>set (ct_name ct). \<not> py_space c" using assms by (auto simp: docker_container_def list_all_iff)
  have dec: "list_all (\<lambda>c. \<not> line_break c) (decimal_text d)" if "good_decimal d" for d
    using decimal_text_chars(1) [OF that] is_digit_neq(11) fixed(5) by (auto simp: list_all_iff)
  have units: "list_all (\<lambda>c. \<not> line_break c) (unit_text u)" for u
  proof -
    have "list_all (\<lambda>c. \<not> line_break c) ''KMGTiB''" by code_simp
    then show ?thesis by (cases u) simp_all
  qed
  show "list_all (\<lambda>c. \<not> line_break c) (stats_line ct)"
  proof (cases "ct_sample ct")
    case None
    then show ?thesis using name(2) brk fixed(1) by (auto simp: stats_line_def list_all_iff)
  next
    case (Some s)
    then have "good_decimal (sm_cpu s)" "good_decimal (sm_memory s)" "list_all (\<lambda>c. \<not> line_break c) (sm_limit s)"
      using assms brk by (auto simp: docker_container_def list_all_iff)
    moreover have "list_all (\<lambda>c. \<not> line_break c) (ct_name ct)" using name(2) brk by (auto simp: list_all_iff)
    ultimately show ?thesis using dec fixed(2,3,4) units unfolding stats_line_def Some memory_text_def option.case
      by (simp only: list_all_append list.pred_inject simp_thms)
  qed
  show "stats_line ct \<noteq> []" by (simp add: stats_line_def)
  show "\<not> py_space (hd (stats_line ct))" using name by (simp add: stats_line_def)
  have dash: "\<not> py_space (last ''--,-- / --'')" by code_simp
  show "\<not> py_space (last (stats_line ct))"
  proof (cases "ct_sample ct")
    case None
    then show ?thesis using dash by (simp add: stats_line_def)
  next
    case (Some s)
    then have "sm_limit s \<noteq> []" "\<forall>c\<in>set (sm_limit s). \<not> py_space c" using assms by (auto simp: docker_container_def list_all_iff)
    moreover from this(1) have "last (stats_line ct) = last (sm_limit s)" by (simp add: stats_line_def Some memory_text_def)
    ultimately show ?thesis by simp
  qed
qed

lemma docker_lines:
  assumes "list_all docker_container cts"
  shows "splitlines (py_strip (docker_output cts)) = map stats_line cts"
proof (cases cts rule: rev_cases)
  case Nil
  then show ?thesis by (simp add: docker_output_def py_strip_def splitlines.simps)
next
  case (snoc init ct)
  let ?body = "docker_output init @ stats_line ct"
  have ct: "docker_container ct" "list_all docker_container init" using assms snoc by simp_all
  note shape = stats_line_shape [OF ct(1)]
  have nl: "py_space (CHR 0x0A)" by code_simp
  have first: "\<not> py_space (hd ?body)"
  proof (cases init)
    case (Cons c cs)
    then have "docker_container c" using ct(2) by simp
    from stats_line_shape(2,3) [OF this] show ?thesis by (simp add: Cons docker_output_def)
  qed (use shape(3) in \<open>simp add: docker_output_def\<close>)
  have ne: "?body \<noteq> []" using shape(2) by simp
  have "py_strip (docker_output cts) = py_strip ?body"
  proof -
    have "docker_output cts = ?body @ [CHR 0x0A]" by (simp add: snoc docker_output_def)
    moreover have "dropWhile py_space (?body @ [CHR 0x0A]) = ?body @ [CHR 0x0A]" "dropWhile py_space ?body = ?body"
      using first ne by (cases ?body; simp)+
    ultimately show ?thesis using nl by (simp add: py_strip_def)
  qed
  also have "\<dots> = ?body" by (rule strip_no_space [OF first]) (use shape(2,4) in simp)
  finally have strip: "py_strip (docker_output cts) = ?body" .
  have "splitlines (docker_output init @ stats_line ct) = map stats_line init @ [stats_line ct]" using ct(2)
  proof (induction init)
    case Nil
    then show ?case using splitlines_line(2) [OF shape(1,2)] by (simp add: docker_output_def)
  next
    case (Cons c cs)
    then have "splitlines (stats_line c @ CHR 0x0A # docker_output cs @ stats_line ct) = stats_line c # map stats_line cs @ [stats_line ct]"
      using splitlines_line(1) [OF stats_line_shape(1) [of c]] by simp
    then show ?case by (simp add: docker_output_def)
  qed
  then show ?thesis unfolding strip by (simp add: snoc)
qed

text \<open>The middle of some floats, or the float mean of the two middle ones.\<close>

definition middle :: "rat list \<Rightarrow> pyfloat" where
  "middle xs = (let d = sort xs; n = length d in if n = 0 then NaN
     else if odd n then Fin (d ! (n div 2)) else Fin (rnd (rnd (d ! (n div 2 - 1) + d ! (n div 2)) / 2)))"

text \<open>
  C33. The statistics of the agents, over the output docker prints for a list of containers in any
  order: a name, then the share and the memory in decimal digits and a unit, or dashes for a
  container that has stopped. If an agent has no sample the script ends with ValueError. Otherwise
  the CPU statistic is the median of the shares of exactly the containers whose name contains
  \<open>-agent-\<close>, the memory statistic the median of their memory in MiB (KiB divided by 1024, GiB times
  1024, each rounded once), leaving out the agents printed in another unit, and either is NaN exactly
  when it has no reading. Containers that are no agents have no part, whatever is printed for them.
\<close>

theorem agent_stats_sound:
  assumes "list_all docker_container cts"
  shows "agent_stats (docker_output cts) =
    (let agents = filter (\<lambda>ct. sublist ''-agent-'' (ct_name ct)) cts in
     if \<exists>ct\<in>set agents. ct_sample ct = None then Inl StatsValueError
     else let samples = map (\<lambda>ct. the (ct_sample ct)) agents in Inr \<lparr>
       as_cpu_pct_median = middle (map (\<lambda>s. rnd (decimal_number (sm_cpu s))) samples),
       as_mem_mib_median = middle (map (\<lambda>s. case sm_unit s of
            KiB \<Rightarrow> rnd (rnd (decimal_number (sm_memory s)) / 1024)
          | GiB \<Rightarrow> rnd (rnd (decimal_number (sm_memory s)) * 1024)
          | _ \<Rightarrow> rnd (decimal_number (sm_memory s)))
         (filter (\<lambda>s. sm_unit s \<in> {KiB, MiB, GiB}) samples))\<rparr>)"
proof -
  let ?agent = "\<lambda>ct. sublist ''-agent-'' (ct_name ct)"
  let ?read = "\<lambda>s. (rnd (decimal_number (sm_cpu s)), memory_reading s)"
  define agents where "agents = filter ?agent cts"
  define samples where "samples = map (\<lambda>ct. the (ct_sample ct)) agents"
  have "readings (map stats_line cts) = (if \<exists>ct\<in>set (filter ?agent cts). ct_sample ct = None then Inl StatsValueError
      else Inr (map (\<lambda>ct. ?read (the (ct_sample ct))) (filter ?agent cts)))"
    using assms
  proof (induction cts)
    case (Cons ct cts)
    then have "line_readings (stats_line ct) = (if \<not> ?agent ct then Inr None
      else case ct_sample ct of None \<Rightarrow> Inl StatsValueError | Some s \<Rightarrow> Inr (Some (?read s)))"
      by (intro stats_line_readings) simp
    then show ?case using Cons by (cases "ct_sample ct") simp_all
  qed simp
  then have read: "readings (map stats_line cts) = (if \<exists>ct\<in>set agents. ct_sample ct = None then Inl StatsValueError
      else Inr (map ?read samples))" unfolding agents_def [symmetric] samples_def by (simp only: map_map comp_def)
  have memory: "List.map_filter snd (map ?read ss) = map (\<lambda>s. case sm_unit s of
            KiB \<Rightarrow> rnd (rnd (decimal_number (sm_memory s)) / 1024)
          | GiB \<Rightarrow> rnd (rnd (decimal_number (sm_memory s)) * 1024)
          | _ \<Rightarrow> rnd (decimal_number (sm_memory s)))
         (filter (\<lambda>s. sm_unit s \<in> {KiB, MiB, GiB}) ss)" for ss
    by (induction ss) (simp_all add: List.map_filter_def memory_reading_def Let_def split: mem_unit.split)
  have median: "median_or_nan xs = middle xs" for xs by (simp add: median_value middle_def)
  have cpu: "map fst (map ?read ss) = map (\<lambda>s. rnd (decimal_number (sm_cpu s))) ss" for ss by simp
  show ?thesis unfolding agent_stats_def docker_lines [OF assms] read Let_def agents_def [symmetric] samples_def [symmetric]
    by (simp only: if_distrib [of "map_sum id _"] map_sum.simps memory median cpu id_apply)
qed

definition demo_containers :: "container list" where
  "demo_containers =
    [\<lparr>ct_name = ''r-agent-1-1'', ct_sample = Some \<lparr>sm_cpu = (''2'', ''00''), sm_memory = (''4'', []), sm_unit = MiB, sm_limit = ''9GiB''\<rparr>\<rparr>,
     \<lparr>ct_name = ''r-ingestion-1'', ct_sample = None\<rparr>,
     \<lparr>ct_name = ''r-agent-2-1'', ct_sample = Some \<lparr>sm_cpu = (''4'', []), sm_memory = (''1'', []), sm_unit = GiB, sm_limit = ''9GiB''\<rparr>\<rparr>]"

lemma demo_output: "docker_output demo_containers =
  ''r-agent-1-1,2.00%,4MiB / 9GiB'' @ [CHR 0x0A] @ ''r-ingestion-1,--,-- / --'' @ [CHR 0x0A] @ ''r-agent-2-1,4%,1GiB / 9GiB'' @ [CHR 0x0A]"
  by code_simp

theorem agent_stats_sound_witness:
  "agent_stats (''r-agent-1-1,2.00%,4MiB / 9GiB'' @ [CHR 0x0A] @ ''r-ingestion-1,--,-- / --'' @ [CHR 0x0A] @ ''r-agent-2-1,4%,1GiB / 9GiB'' @ [CHR 0x0A])
     = Inr \<lparr>as_cpu_pct_median = Fin 3, as_mem_mib_median = Fin 514\<rparr>"
proof -
  have "list_all docker_container demo_containers" by code_simp
  note stats = agent_stats_sound [OF this]
  have agents: "filter (\<lambda>ct. sublist ''-agent-'' (ct_name ct)) demo_containers = [demo_containers ! 0, demo_containers ! 2]" by code_simp
  have samples: "ct_sample (demo_containers ! 0) = Some \<lparr>sm_cpu = (''2'', ''00''), sm_memory = (''4'', []), sm_unit = MiB, sm_limit = ''9GiB''\<rparr>"
    "ct_sample (demo_containers ! 2) = Some \<lparr>sm_cpu = (''4'', []), sm_memory = (''1'', []), sm_unit = GiB, sm_limit = ''9GiB''\<rparr>"
    by (simp_all add: demo_containers_def)
  have numbers: "decimal_number (''2'', ''00'') = 2" "decimal_number (''4'', []) = 4" "decimal_number (''1'', []) = 1" by code_simp+
  have "rnd 2 = 2" "rnd 4 = 4" "rnd 1 = 1" "rnd 1024 = 1024" "rnd 3 = 3" "rnd 6 = 6" "rnd 514 = 514" "rnd 1028 = 1028"
    using rnd_of_int [of 2] rnd_of_int [of 4] rnd_of_int [of 1024] rnd_of_int [of 3] rnd_of_int [of 6] rnd_of_int [of 514] rnd_of_int [of 1028] b64.one by simp_all
  then show ?thesis using stats unfolding agents demo_output by (simp add: samples numbers middle_def Let_def)
qed

text \<open>A memory in another unit is left out.\<close>

lemma memory_mib_other:
  "\<not> suffix ''iB'' (py_strip (takeWhile (\<lambda>c. c \<noteq> CHR ''/'') mem)) \<Longrightarrow> memory_mib mem = Inr None"
  by (auto simp: memory_mib_def Let_def suffix_def)

text \<open>An agent that stops while docker samples it is printed with \<open>--\<close> and ends the script; an empty output gives NaN.\<close>

lemma stopped_agent: "agent_stats ''r-agent-1-1,--,-- / --'' = Inl StatsValueError"
  by code_simp

lemma no_agents: "agent_stats [] = Inr \<lparr>as_cpu_pct_median = NaN, as_mem_mib_median = NaN\<rparr>"
  by code_simp

end
