(* ===== verification/Bench_Script.thy ===== *)
theory Bench_Script
  imports Agent_Stats Stored
begin

text \<open>
  \<open>scripts/benchmark.py\<close> as a whole: the environment, the trials in their schedule, and the file with
  the results, as text. Commands, clocks, sleeps, the HTTP call and the write of the file act on a world
  of an arbitrary type; the busy loop of the calibration only takes time (\<open>Fault_Loops\<close> has its
  arithmetic). The outputs of the commands are ASCII.
\<close>

section \<open>The host\<close>

text \<open>\<open>subprocess.run(..., check=True)\<close> gives the two outputs or raises.\<close>

datatype command_error = CalledProcessError | FileNotFoundError | OtherException

datatype bench_error = CommandFailed command_error | HttpFailed | StatsFailed stats_failure | IndexFailed | WriteFailed

text \<open>
  \<open>write_text\<close> opens the file, which truncates it, and writes: it may fail to open, and an exception
  (a full disk) may cut the text after some characters.
\<close>

datatype write_outcome = Written | NotOpened | CutAfter nat

definition write_text :: "write_outcome \<Rightarrow> ustr \<Rightarrow> ustr option \<Rightarrow> ustr option" where
  "write_text outcome t old = (case outcome of Written \<Rightarrow> Some t | NotOpened \<Rightarrow> old | CutAfter n \<Rightarrow> Some (take n t))"

record 'w host =
  ho_command :: "string list \<Rightarrow> (string \<times> string) list \<Rightarrow> 'w \<Rightarrow> (command_error + string \<times> string) \<times> 'w"
  ho_perf_counter :: "'w \<Rightarrow> rat \<times> 'w"
  ho_monotonic :: "'w \<Rightarrow> rat \<times> 'w"
  ho_sleep :: "rat \<Rightarrow> 'w \<Rightarrow> 'w"
  ho_latency :: "'w \<Rightarrow> (int \<times> rat list) option \<times> 'w"
  ho_write :: "ustr \<Rightarrow> 'w \<Rightarrow> write_outcome \<times> 'w"

definition WARMUP_S :: rat where "WARMUP_S = 30"

record bench_environment =
  be_docker_version :: string
  be_colima_status :: string
  be_container_kernel :: string

text \<open>A command whose failure makes the field unknown; another exception ends the script.\<close>

definition field_of :: "(string \<times> string \<Rightarrow> string) \<Rightarrow> (command_error + string \<times> string) \<Rightarrow> bench_error + string" where
  "field_of f r = (case r of Inr outputs \<Rightarrow> Inr (py_strip (f outputs))
   | Inl OtherException \<Rightarrow> Inl (CommandFailed OtherException) | Inl _ \<Rightarrow> Inr ''unknown'')"

definition record_environment :: "'w host \<Rightarrow> 'w \<Rightarrow> (bench_error + bench_environment) \<times> 'w" where
  "record_environment ho w =
     (case ho_command ho [''docker'', ''--version''] [] w of (r1, w1) \<Rightarrow>
       (case field_of fst r1 of Inl e \<Rightarrow> (Inl e, w1)
        | Inr version \<Rightarrow>
       (case ho_command ho [''colima'', ''status''] [] w1 of (r2, w2) \<Rightarrow>
       (case field_of snd r2 of Inl e \<Rightarrow> (Inl e, w2)
        | Inr status \<Rightarrow>
       (case ho_command ho [''docker'', ''compose'', ''exec'', ''-T'', ''ingestion'', ''uname'', ''-r''] [] w2 of (r3, w3) \<Rightarrow>
       (case field_of fst r3 of Inl e \<Rightarrow> (Inl e, w3)
        | Inr uname \<Rightarrow> (Inr \<lparr>be_docker_version = version, be_colima_status = status, be_container_kernel = uname\<rparr>, w3)))))))"

definition set_sample_interval :: "'w host \<Rightarrow> string \<Rightarrow> string \<Rightarrow> 'w \<Rightarrow> bench_error option \<times> 'w" where
  "set_sample_interval ho path interval_ms w =
     (case ho_command ho ([''docker'', ''compose'', ''up'', ''-d'', ''--no-deps''] @ map (\<lambda>i. ''agent-'' @ decimal i) [1..<9])
         [(''SAMPLE_INTERVAL_MS'', interval_ms), (''PATH'', path)] w of
       (Inl e, w1) \<Rightarrow> (Some (CommandFailed e), w1) | (Inr _, w1) \<Rightarrow> (None, w1))"

definition calibration_duration :: "'w host \<Rightarrow> 'w \<Rightarrow> rat \<times> 'w" where
  "calibration_duration ho w = (let (start, w1) = ho_perf_counter ho w; (finish, w2) = ho_perf_counter ho w1
     in (rnd (finish - start), w2))"

section \<open>One trial on the host\<close>

record trial_record =
  td_trial :: bench_trial
  td_before :: rat
  td_after :: rat
  td_wall_seconds :: rat
  td_stats :: agent_stats

text \<open>The percentiles never raise IndexError; \<open>IndexFailed\<close> is there because they are total by a theorem only.\<close>

definition run_trial_on :: "'w host \<Rightarrow> string \<Rightarrow> 'w \<Rightarrow> (bench_error + trial_record) \<times> 'w" where
  "run_trial_on ho config_label w =
     (let (before, w1) = calibration_duration ho w;
          (trial_start, w2) = ho_monotonic ho w1;
          (after, w3) = calibration_duration ho (ho_sleep ho TRIAL_DURATION_S w2)
      in (case ho_latency ho w3 of
        (None, w4) \<Rightarrow> (Inl HttpFailed, w4)
      | (Some (sample_count, latencies), w4) \<Rightarrow>
         (case ho_command ho [''docker'', ''stats'', ''--no-stream'', ''--format'', ''{{.Name}},{{.CPUPerc}},{{.MemUsage}}''] [] w4 of
           (Inl e, w5) \<Rightarrow> (Inl (CommandFailed e), w5)
         | (Inr (stdout, _), w5) \<Rightarrow> (case agent_stats stdout of
             Inl e \<Rightarrow> (Inl (StatsFailed e), w5)
           | Inr stats \<Rightarrow> (let (finish, w6) = ho_monotonic ho w5;
                 t = run_one_trial config_label before after sample_count latencies in
               if bt_p50 t = None \<or> bt_p95 t = None \<or> bt_p99 t = None then (Inl IndexFailed, w6)
               else (Inr \<lparr>td_trial = t, td_before = before, td_after = after, td_wall_seconds = rnd (finish - trial_start),
                 td_stats = stats\<rparr>, w6))))))"

section \<open>The script\<close>

text \<open>The actions of the loop of \<open>main\<close>, which \<open>schedule\<close> unfolds, one after the other.\<close>

fun perform :: "'w host \<Rightarrow> string \<Rightarrow> action list \<Rightarrow> 'w \<Rightarrow> (bench_error + trial_record list) \<times> 'w" where
  "perform ho path [] w = (Inr [], w)"
| "perform ho path (SetSampleInterval i # as) w = (case set_sample_interval ho path i w of
     (Some e, w1) \<Rightarrow> (Inl e, w1) | (None, w1) \<Rightarrow> perform ho path as w1)"
| "perform ho path (Warmup # as) w = perform ho path as (ho_sleep ho WARMUP_S w)"
| "perform ho path (RunTrial label # as) w = (case run_trial_on ho label w of
     (Inl e, w1) \<Rightarrow> (Inl e, w1)
   | (Inr t, w1) \<Rightarrow> (case perform ho path as w1 of (Inl e, w2) \<Rightarrow> (Inl e, w2) | (Inr ts, w2) \<Rightarrow> (Inr (t # ts), w2)))"

text \<open>
  The text of the results. \<open>json.dumps\<close> writes an infinity and NaN, as of a percentile of no latency,
  by their names; \<open>repr\<close> is that of the finite floats.
\<close>

definition float_json :: "(rat \<Rightarrow> ustr) \<Rightarrow> pyfloat \<Rightarrow> json" where
  "float_json repr x = JFloat (case x of Fin q \<Rightarrow> repr q | NaN \<Rightarrow> asc ''NaN'' | PInf \<Rightarrow> asc ''Infinity'' | NInf \<Rightarrow> asc ''-Infinity'')"

definition environment_json :: "bench_environment \<Rightarrow> json" where
  "environment_json env = JObj [(asc ''docker_version'', json_str (be_docker_version env)),
     (asc ''colima_status'', json_str (be_colima_status env)), (asc ''container_kernel'', json_str (be_container_kernel env)),
     (asc ''host'', json_str ''Apple M2 MacBook Pro, 8 GB unified memory'')]"

definition trial_record_json :: "(rat \<Rightarrow> ustr) \<Rightarrow> trial_record \<Rightarrow> json" where
  "trial_record_json repr r = (let t = td_trial r; float = (\<lambda>q. JFloat (repr q)) in JObj
     [(asc ''config'', json_str (bt_config t)), (asc ''throttled'', JBool (bt_throttled t)),
      (asc ''calibration_before_s'', float (td_before r)), (asc ''calibration_after_s'', float (td_after r)),
      (asc ''trial_wall_seconds'', float (td_wall_seconds r)), (asc ''sample_count'', JInt (bt_sample_count t)),
      (asc ''throughput_samples_per_s'', float (bt_throughput t)), (asc ''p50_ms'', json_opt (float_json repr) (bt_p50 t)),
      (asc ''p95_ms'', json_opt (float_json repr) (bt_p95 t)), (asc ''p99_ms'', json_opt (float_json repr) (bt_p99 t)),
      (asc ''agent_cpu_pct_median'', float_json repr (as_cpu_pct_median (td_stats r))),
      (asc ''agent_mem_mib_median'', float_json repr (as_mem_mib_median (td_stats r)))])"

definition results_json :: "(rat \<Rightarrow> ustr) \<Rightarrow> bench_environment \<Rightarrow> trial_record list \<Rightarrow> json" where
  "results_json repr env trials = JObj [(asc ''environment'', environment_json env),
     (asc ''trials'', JArr (map (trial_record_json repr) trials))]"

definition results_text :: "(rat \<Rightarrow> ustr) \<Rightarrow> bench_environment \<Rightarrow> trial_record list \<Rightarrow> ustr" where
  "results_text repr env trials = dumps (Some 2) True (results_json repr env trials) @ [10]"

text \<open>\<open>main\<close>: the exception or nothing, the file with the results, and the world.\<close>

definition bench_main :: "'w host \<Rightarrow> (rat \<Rightarrow> ustr) \<Rightarrow> string \<Rightarrow> (string list \<Rightarrow> string list) \<Rightarrow> ustr option \<Rightarrow> 'w
    \<Rightarrow> bench_error option \<times> ustr option \<times> 'w" where
  "bench_main ho repr path shuffle file w = (case record_environment ho w of
     (Inl e, w1) \<Rightarrow> (Some e, file, w1)
   | (Inr env, w1) \<Rightarrow> (case perform ho path (schedule None (shuffle bench_order)) w1 of
       (Inl e, w2) \<Rightarrow> (Some e, file, w2)
     | (Inr trials, w2) \<Rightarrow> (let t = results_text repr env trials; (outcome, w3) = ho_write ho t w2 in
         (if outcome = Written then None else Some WriteFailed, write_text outcome t file, w3))))"

section \<open>What the script leaves\<close>

lemma run_trial_label: "run_trial_on ho label w = (Inr t, w') \<Longrightarrow> bt_config (td_trial t) = label"
  by (auto simp: run_trial_on_def run_one_trial_def Let_def split: prod.splits option.splits sum.splits if_splits)

lemma perform_labels:
  "perform ho path as w = (Inr ts, w') \<Longrightarrow> map (bt_config \<circ> td_trial) ts = map fst (trials_under i as)"
proof (induction ho path as w arbitrary: ts i rule: perform.induct)
  case (2 ho path i' as w)
  then show ?case by (auto split: prod.splits option.splits)
next
  case (4 ho path label as w)
  then show ?case by (auto dest: run_trial_label split: prod.splits sum.splits)
qed auto

text \<open>The text of the results is read back, and no part of it short of the last brace is JSON.\<close>

lemma field_ascii:
  assumes "field_of f r = Inr s" and "\<And>x. r = Inr x \<Longrightarrow> ascii (f x)"
  shows "unicode s"
proof -
  have "ascii ''unknown''" by (simp add: ascii_def)
  then have "ascii s" using assms strip_subset
    by (auto simp: field_of_def ascii_def split: sum.splits command_error.splits)
  then show ?thesis by (rule ascii_unicode)
qed

definition ascii_host :: "'w host \<Rightarrow> bool" where
  "ascii_host ho \<longleftrightarrow> (\<forall>cmd env w out err w'. ho_command ho cmd env w = (Inr (out, err), w') \<longrightarrow> ascii out \<and> ascii err)"

lemma record_environment_unicode:
  assumes "ascii_host ho" and "record_environment ho w = (Inr env, w')"
  shows "unicode (be_docker_version env) \<and> unicode (be_colima_status env) \<and> unicode (be_container_kernel env)"
proof -
  have out: "ascii (fst x)" "ascii (snd x)" if "ho_command ho cmd e v = (Inr x, v')" for cmd e v v' x
    using assms(1) that unfolding ascii_host_def by (cases x; force)+
  show ?thesis using assms(2)
    by (auto simp: record_environment_def split: prod.splits sum.splits intro: field_ascii out)
qed

lemma float_json_wf: "(\<And>q. float_text (repr q)) \<Longrightarrow> wf_json (float_json repr x)"
proof -
  have "float_text (asc ''NaN'')" "float_text (asc ''Infinity'')" "float_text (asc ''-Infinity'')" by code_simp+
  then show "(\<And>q. float_text (repr q)) \<Longrightarrow> wf_json (float_json repr x)" by (cases x) (simp_all add: float_json_def)
qed

lemma results_wf:
  assumes "\<And>q. float_text (repr q)" and "unicode (be_docker_version env)" "unicode (be_colima_status env)" "unicode (be_container_kernel env)"
    and "\<forall>t\<in>set trials. unicode (bt_config (td_trial t))"
  shows "wf_json (results_json repr env trials)"
proof -
  have "unicode ''Apple M2 MacBook Pro, 8 GB unified memory''" by (simp add: ascii_unicode ascii_def)
  then have "wf_json (environment_json env)" using assms(2-4) by (simp add: environment_json_def)
  moreover have "wf_json (trial_record_json repr t)" if "t \<in> set trials" for t
    using that assms(5) float_json_wf [OF assms(1)] assms(1) by (simp add: trial_record_json_def Let_def)
  ultimately show ?thesis by (simp add: results_json_def wf_items_all)
qed

lemma not_all_space: "c \<in> set u \<Longrightarrow> \<not> space c \<Longrightarrow> skip_ws u \<noteq> []"
  by (induction u) auto

lemma results_text_reads:
  assumes "wf_json (results_json repr env trials)"
  defines "t \<equiv> results_text repr env trials"
  shows "loads t = Some (sort_json (results_json repr env trials))" and "n + 1 < length t \<Longrightarrow> loads (take n t) = None"
proof -
  show reads: "loads t = Some (sort_json (results_json repr env trials))"
    using assms by (simp add: results_text_def loads_dumps space_def)
  obtain ms where "sort_json (results_json repr env trials) = JObj ms" "ms \<noteq> []" by (simp add: results_json_def)
  then obtain s where t: "t = 123 # s @ [125, 10]" by (simp add: t_def results_text_def dumps_def)
  assume n: "n + 1 < length t"
  have "125 \<in> set (drop n t)"
  proof -
    have "t = (123 # s) @ [125, 10]" "n \<le> length (123 # s)" using t n by simp_all
    then have "drop n t = drop n (123 # s) @ drop 0 [125, 10]" using drop_append [of n "123 # s" "[125, 10]"] by (simp only: diff_is_0_eq')
    then show ?thesis by simp
  qed
  then have cut: "skip_ws (drop n t) \<noteq> []" by (rule not_all_space) (simp add: space_def)
  have "123 # (s @ [125, 10]) = take n t @ drop n t" using t by simp
  from loads_cut [OF _ this cut] reads t show "loads (take n t) = None" by simp
qed

text \<open>
  C34. What a run of the benchmark leaves in its file, whatever the commands, the clocks, the server
  and the disk do, and for every shuffle. If it ends without an exception, all ten trials ran, in the
  order of the shuffle and five for each configuration, and the file is a JSON text that reads back
  as exactly their records. If an exception ends it before the file is opened, in whichever trial, the
  file is as it was, and the trials that had finished are lost. If all ten trials ran and the write is cut,
  the old results are lost as well: the file is a part of the new text, and short of its last brace
  it is no JSON.
\<close>

theorem bench_file_outcomes:
  assumes "mset (shuffle bench_order) = mset bench_order" and "ascii_host ho" and "\<And>q. float_text (repr q)"
    and "bench_main ho repr path shuffle old w = (e, file, w')"
  shows "(e \<noteq> None \<and> file = old)
    \<or> (\<exists>env trials. map (bt_config \<circ> td_trial) trials = shuffle bench_order \<and> length trials = 10
       \<and> length (filter (\<lambda>t. bt_config (td_trial t) = ''baseline_1000ms'') trials) = 5
       \<and> length (filter (\<lambda>t. bt_config (td_trial t) = ''stress_200ms'') trials) = 5
       \<and> (let t = results_text repr env trials in
          (e = None \<and> file = Some t \<and> loads t = Some (sort_json (results_json repr env trials)))
        \<or> (e = Some WriteFailed \<and> (\<exists>n. file = Some (take n t) \<and> (n + 1 < length t \<longrightarrow> loads (take n t) = None)))))"
proof (cases "e \<noteq> None \<and> file = old")
  case False
  then obtain env w1 trials w2 where env: "record_environment ho w = (Inr env, w1)"
    and p: "perform ho path (schedule None (shuffle bench_order)) w1 = (Inr trials, w2)"
    using assms(4) by (auto simp: bench_main_def split: prod.splits sum.splits)
  define t where "t = results_text repr env trials"
  obtain out w3 where written: "ho_write ho t w2 = (out, w3)" by (cases "ho_write ho t w2")
  have e: "e = (if out = Written then None else Some WriteFailed)" and f: "file = write_text out t old"
    using assms(4) written by (simp_all add: bench_main_def env p t_def)
  note sched = schedule_sound [OF assms(1)]
  have labels: "map (bt_config \<circ> td_trial) trials = shuffle bench_order"
    using perform_labels [OF p, of None] sched by (simp add: comp_def)
  have counts: "length (filter (\<lambda>t. bt_config (td_trial t) = l) trials) = length (filter (\<lambda>l'. l' = l) (shuffle bench_order))" for l
    unfolding labels [symmetric] by (simp add: filter_map comp_def)
  have len: "length trials = length (shuffle bench_order)" unfolding labels [symmetric] by simp
  have "unicode (bt_config (td_trial t))" if "t \<in> set trials" for t
  proof -
    have "bt_config (td_trial t) \<in> set (shuffle bench_order)" unfolding labels [symmetric] using that by auto
    also have "set (shuffle bench_order) = set bench_order" using assms(1) by (rule mset_eq_setD)
    finally show ?thesis by (auto simp: bench_order_def CONFIGS_def ascii_unicode ascii_def)
  qed
  then have "wf_json (results_json repr env trials)"
    using record_environment_unicode [OF assms(2) env] by (intro results_wf assms(3)) auto
  note reads = results_text_reads [OF this, folded t_def]
  have "(e = None \<and> file = Some t \<and> loads t = Some (sort_json (results_json repr env trials)))
      \<or> (e = Some WriteFailed \<and> (\<exists>n. file = Some (take n t) \<and> (n + 1 < length t \<longrightarrow> loads (take n t) = None)))"
    using reads False e f by (cases out) (auto simp: write_text_def)
  moreover have "length (filter (\<lambda>t. bt_config (td_trial t) = ''baseline_1000ms'') trials) = 5"
    "length (filter (\<lambda>t. bt_config (td_trial t) = ''stress_200ms'') trials) = 5" "length trials = 10"
    using sched by (simp_all only: counts len)
  ultimately show ?thesis using labels unfolding t_def Let_def
    by (rule_tac disjI2, rule_tac exI [of _ env], rule_tac exI [of _ trials], intro conjI) assumption+
qed simp

text \<open>
  A host on which everything works, without agents and samples, and whose disk is full after the first
  character of the results; and one on which the one agent that docker lists has stopped.
\<close>

definition full_disk_host :: "unit host" where
  "full_disk_host = \<lparr>ho_command = (\<lambda>_ _ w. (Inr ([], []), w)), ho_perf_counter = (\<lambda>w. (1, w)),
     ho_monotonic = (\<lambda>w. (1, w)), ho_sleep = (\<lambda>_ w. w), ho_latency = (\<lambda>w. (Some (0, []), w)), ho_write = (\<lambda>_ w. (CutAfter 1, w))\<rparr>"

lemma full_disk_perform: "\<exists>ts. perform full_disk_host path as () = (Inr ts, ())"
proof (induction as)
  case (Cons a as)
  have trial: "\<exists>t. run_trial_on full_disk_host l () = (Inr t, ())" for l
    by (simp add: run_trial_on_def full_disk_host_def calibration_duration_def no_agents run_one_trial_def percentile_def)
  have set: "set_sample_interval full_disk_host path i () = (None, ())" for i by (simp add: set_sample_interval_def full_disk_host_def)
  from Cons obtain ts where ts: "perform full_disk_host path as () = (Inr ts, ())" by blast
  show ?case
  proof (cases a)
    case (RunTrial label)
    obtain t where "run_trial_on full_disk_host label () = (Inr t, ())" using trial by blast
    then show ?thesis using ts by (simp add: RunTrial)
  qed (simp_all add: set ts)
qed simp

theorem bench_file_outcomes_witness:
  "fst (bench_main full_disk_host (\<lambda>_. asc ''0.0'') ''/bin'' rev None ()) = Some WriteFailed
    \<and> (\<exists>t. fst (snd (bench_main full_disk_host (\<lambda>_. asc ''0.0'') ''/bin'' rev None ())) = Some t \<and> loads t = None)"
proof -
  let ?run = "bench_main full_disk_host (\<lambda>_. asc ''0.0'') ''/bin'' rev None ()"
  obtain env where env: "record_environment full_disk_host () = (Inr env, ())"
    by (simp add: record_environment_def full_disk_host_def field_of_def)
  obtain ts where "perform full_disk_host ''/bin'' (schedule None (rev bench_order)) () = (Inr ts, ())" using full_disk_perform by blast
  then have run: "?run = (Some WriteFailed, Some (take 1 (results_text (\<lambda>_. asc ''0.0'') env ts)), ())"
    unfolding bench_main_def env by (simp add: write_text_def) (simp add: full_disk_host_def)
  have hd: "results_text r e l = 123 # tl (results_text r e l) \<and> 2 < length (results_text r e l)" for r e l
    by (simp add: results_text_def dumps_def results_json_def)
  have one: "take 1 (results_text r e l) = [123]" for r e l using hd [of r e l] by (metis One_nat_def take0 take_Suc_Cons)
  have "mset (rev bench_order) = mset bench_order" "ascii_host full_disk_host" by (simp_all add: ascii_host_def full_disk_host_def ascii_def)
  moreover have "float_text (asc ''0.0'')" by code_simp
  ultimately obtain n t where t: "[123] = take n t" "n + 1 < length t \<longrightarrow> loads (take n t) = None" "2 < length t"
    using bench_file_outcomes [OF _ _ _ run] hd unfolding one Let_def by (metis option.distinct(1) option.inject)
  have "n < 2"
  proof (rule ccontr)
    assume "\<not> n < 2"
    then have "2 \<le> length (take n t)" using t(3) by simp
    then show False unfolding t(1) [symmetric] by simp
  qed
  then have "loads [123] = None" using t by simp
  then show ?thesis unfolding run one by simp
qed

end
