(* ===== verification/Mock_Listener.thy ===== *)
theory Mock_Listener
  imports Framing
begin

text \<open>
  \<open>agent/tests/mock_listener.py\<close>: the listener that counts the frames an agent sends in a given time.
  What arrives on the socket is a list of events; a socket that has none left was closed by the agent.
\<close>

section \<open>The socket\<close>

datatype socket_event = Arrives bytes | TimesOut | Resets

datatype recv_result = Received bytes | TimeoutError | ConnectionError

text \<open>\<open>conn.recv(n)\<close> takes at most \<open>n\<close> of the bytes that have arrived; nothing is the end of the stream.\<close>

fun recv :: "nat \<Rightarrow> socket_event list \<Rightarrow> recv_result \<times> socket_event list" where
  "recv n [] = (Received [], [])"
| "recv n (Arrives bs # es) = (Received (take n bs), if drop n bs = [] then es else Arrives (drop n bs) # es)"
| "recv n (TimesOut # es) = (TimeoutError, es)"
| "recv n (Resets # es) = (ConnectionError, es)"

text \<open>\<open>_recv_exactly\<close>: \<open>None\<close> at the end of the stream; an exception loses the bytes received so far.\<close>

function recv_exactly :: "nat \<Rightarrow> bytes \<Rightarrow> socket_event list \<Rightarrow> (recv_result + bytes option) \<times> socket_event list" where
  "recv_exactly n chunks es = (if length chunks < n then (case recv (n - length chunks) es of
       (Received c, es') \<Rightarrow> if c = [] then (Inr None, es') else recv_exactly n (chunks @ c) es'
     | (err, es') \<Rightarrow> (Inl err, es'))
   else (Inr (Some chunks), es))"
  by pat_completeness auto
termination
proof (relation "measure (\<lambda>(n, chunks, _). n - length chunks)", goal_cases)
  case (2 n chunks es r es' c)
  then have "0 < length c" by simp
  then have "n - (length chunks + length c) < n - length chunks" using 2(1) by (intro diff_less_mono2) simp_all
  then show ?case by simp
qed simp

declare recv_exactly.simps [simp del]

definition HEADER_LENGTH :: nat where "HEADER_LENGTH = 5"

section \<open>The loop\<close>

definition event_weight :: "socket_event \<Rightarrow> nat" where
  "event_weight e = (case e of Arrives bs \<Rightarrow> Suc (length bs) | _ \<Rightarrow> 1)"

abbreviation weight :: "socket_event list \<Rightarrow> nat" where
  "weight es \<equiv> sum_list (map event_weight es)"

lemma recv_weight: "0 < n \<Longrightarrow> es \<noteq> [] \<Longrightarrow> weight (snd (recv n es)) < weight es"
  by (cases "(n, es)" rule: recv.cases) (auto simp: event_weight_def)

lemma recv_weight_le: "weight (snd (recv n es)) \<le> weight es"
  by (cases "(n, es)" rule: recv.cases) (auto simp: event_weight_def)

lemma recv_exactly_weight_le: "weight (snd (recv_exactly n chunks es)) \<le> weight es"
proof (induction n chunks es rule: recv_exactly.induct)
  case (1 n chunks es)
  show ?case
  proof (cases "length chunks < n")
    case True
    obtain r es' where r: "recv (n - length chunks) es = (r, es')" by fastforce
    then have le: "weight es' \<le> weight es" using recv_weight_le [of "n - length chunks" es] by simp
    show ?thesis
    proof (cases "\<exists>c. r = Received c \<and> c \<noteq> []")
      case True
      then obtain c where "r = Received c" "c \<noteq> []" by blast
      then show ?thesis using "1.IH" [OF \<open>length chunks < n\<close> r [symmetric]] le \<open>length chunks < n\<close> r
        by (subst recv_exactly.simps) simp
    next
      case False
      then show ?thesis using le r \<open>length chunks < n\<close> by (subst recv_exactly.simps) (auto split: recv_result.split)
    qed
  qed (simp add: recv_exactly.simps)
qed

lemma recv_exactly_weight:
  assumes "length chunks < n" and "fst (recv_exactly n chunks es) \<noteq> Inr None"
  shows "weight (snd (recv_exactly n chunks es)) < weight es"
proof -
  obtain r es' where r: "recv (n - length chunks) es = (r, es')" by fastforce
  have "es \<noteq> []" using assms by (auto simp: recv_exactly.simps [of n chunks "[]"])
  then have less: "weight es' < weight es" using recv_weight [of "n - length chunks" es] assms(1) r by simp
  show ?thesis
  proof (cases "\<exists>c. r = Received c \<and> c \<noteq> []")
    case True
    then obtain c where "r = Received c" "c \<noteq> []" by blast
    then have "recv_exactly n chunks es = recv_exactly n (chunks @ c) es'" using r assms(1) by (subst recv_exactly.simps) simp
    then show ?thesis using recv_exactly_weight_le [of n "chunks @ c" es'] less by simp
  next
    case False
    then show ?thesis using less r assms(1) by (subst recv_exactly.simps) (auto split: recv_result.split)
  qed
qed

text \<open>
  The loop of \<open>main\<close>, where \<open>running i\<close> is the \<open>i\<close>-th comparison of the clock with the deadline: the number
  of frames and whether the connection ended, or the exception that nothing catches.
\<close>

function listen :: "(nat \<Rightarrow> bool) \<Rightarrow> nat \<Rightarrow> nat \<Rightarrow> socket_event list \<Rightarrow> recv_result + nat \<times> bool" where
  "listen running i frame_count es =
     (if \<not> running i then Inr (frame_count, False)
      else case recv_exactly HEADER_LENGTH [] es of
        (Inl TimeoutError, es') \<Rightarrow> listen running (Suc i) frame_count es'
      | (Inl _, _) \<Rightarrow> Inr (frame_count, True)
      | (Inr None, _) \<Rightarrow> Inr (frame_count, True)
      | (Inr (Some header), es') \<Rightarrow>
          (case recv_exactly (int_from_bytes_big (py_slice 1 5 header)) [] es' of
            (Inl err, _) \<Rightarrow> Inl err
          | (Inr None, _) \<Rightarrow> Inr (frame_count, True)
          | (Inr (Some _), es'') \<Rightarrow> listen running (Suc i) (frame_count + 1) es''))"
  by pat_completeness auto
termination
proof (relation "measure (\<lambda>(_, _, _, es). weight es)", goal_cases)
  case 1
  show ?case by simp
next
  case (2 running i frame_count es r es' x1)
  then show ?case using recv_exactly_weight [of "[]" HEADER_LENGTH es] by (cases "recv_exactly HEADER_LENGTH [] es") (auto simp: HEADER_LENGTH_def)
next
  case (3 running i frame_count es r es' x2 header r' es'' y2 z)
  have "weight es' < weight es" using 3 recv_exactly_weight [of "[]" HEADER_LENGTH es]
    by (cases "recv_exactly HEADER_LENGTH [] es") (auto simp: HEADER_LENGTH_def)
  moreover have "weight es'' \<le> weight es'" using 3 recv_exactly_weight_le [of _ "[]" es'] by (metis snd_conv)
  ultimately show ?case by simp
qed

declare listen.simps [simp del]

text \<open>The exit code; an exception of the loop ends the process with 1 as well.\<close>

definition exit_code :: "(nat \<Rightarrow> bool) \<Rightarrow> socket_event list \<Rightarrow> int" where
  "exit_code running es = (case listen running 0 0 es of Inl _ \<Rightarrow> 1
     | Inr (frame_count, unexpected) \<Rightarrow> if unexpected \<or> frame_count = 0 then 1 else 0)"

section \<open>What is counted\<close>

text \<open>Chunks that are not empty, and their bytes.\<close>

definition arrivals :: "bytes list \<Rightarrow> socket_event list" where
  "arrivals chunks = map Arrives chunks"

lemma recv_exactly_arrivals:
  assumes "[] \<notin> set cs" and "n \<le> length got + length (concat cs)"
  shows "\<exists>cs'. recv_exactly n got (arrivals cs) = (Inr (Some (got @ take (n - length got) (concat cs))), arrivals cs')
    \<and> [] \<notin> set cs' \<and> concat cs' = drop (n - length got) (concat cs)"
  using assms
proof (induction "n - length got" arbitrary: got cs rule: less_induct)
  case less
  show ?case
  proof (cases "length got < n")
    case False
    then show ?thesis using less.prems by (intro exI [of _ cs]) (simp add: recv_exactly.simps)
  next
    case True
    then obtain c cs0 where cs: "cs = c # cs0" using less.prems(2) by (cases cs) auto
    then have c: "c \<noteq> []" using less.prems(1) by auto
    let ?k = "n - length got"
    let ?rest = "if drop ?k c = [] then cs0 else drop ?k c # cs0"
    have step: "recv_exactly n got (arrivals cs) = recv_exactly n (got @ take ?k c) (arrivals ?rest)"
      using True c cs by (subst recv_exactly.simps) (simp add: arrivals_def)
    have "n \<le> length (got @ take ?k c) + length (concat ?rest)" using less.prems(2) cs by auto
    moreover have "[] \<notin> set ?rest" using less.prems(1) cs by auto
    moreover have "n - length (got @ take ?k c) < n - length got" using True c by (cases c) auto
    ultimately obtain cs' where cs': "recv_exactly n (got @ take ?k c) (arrivals ?rest)
        = (Inr (Some ((got @ take ?k c) @ take (n - length (got @ take ?k c)) (concat ?rest))), arrivals cs')"
      "[] \<notin> set cs'" "concat cs' = drop (n - length (got @ take ?k c)) (concat ?rest)"
      using less.hyps by blast
    show ?thesis
    proof (cases "?k \<le> length c")
      case True
      then have "n - length (got @ take ?k c) = 0" by simp
      then show ?thesis using cs' step cs True by (intro exI [of _ cs']) auto
    next
      case False
      then show ?thesis using cs' step cs by (intro exI [of _ cs']) (simp add: diff_diff_add)
    qed
  qed
qed

lemma listen_frame:
  assumes "running i" and "[] \<notin> set cs" and "concat cs = frame @ rest" and "encode_frame tg p = Some frame"
  shows "\<exists>cs'. listen running i n (arrivals cs) = listen running (Suc i) (Suc n) (arrivals cs') \<and> [] \<notin> set cs' \<and> concat cs' = rest"
proof -
  have frame: "frame = tg # be_bytes 4 (length p) @ p" and len: "length p < 256 ^ 4" using assms(4) by (auto simp: encode_frame_Some)
  let ?header = "tg # be_bytes 4 (length p)"
  have h: "length ?header = 5" by simp
  then obtain cs1 where cs1: "recv_exactly HEADER_LENGTH [] (arrivals cs) = (Inr (Some ?header), arrivals cs1)" "[] \<notin> set cs1" "concat cs1 = p @ rest"
    using recv_exactly_arrivals [OF assms(2), of HEADER_LENGTH "[]"] assms(3) unfolding frame by (auto simp: HEADER_LENGTH_def)
  have l: "int_from_bytes_big (py_slice 1 5 ?header) = length p" using int_from_be_bytes [OF len] by (simp add: py_slice_def)
  obtain cs2 where "recv_exactly (length p) [] (arrivals cs1) = (Inr (Some p), arrivals cs2)" "[] \<notin> set cs2" "concat cs2 = rest"
    using recv_exactly_arrivals [OF cs1(2), of "length p" "[]"] cs1(3) by auto
  then show ?thesis using assms(1) cs1(1) l by (intro exI [of _ cs2]) (simp add: listen.simps [of running i n "arrivals cs"])
qed

text \<open>
  The listener counts frames and nothing else: if the agent sends the encodings of some frames,
  in whatever chunks they arrive, and then closes the connection, the listener has counted a frame
  for every round of its loop, up to all of them, and reports a disconnect exactly when the time
  was not over before the stream was; it exits with 0 exactly when it saw a frame and no disconnect.
\<close>

theorem listener_counts_frames:
  assumes "list_all2 (\<lambda>(tg, p) frame. encode_frame tg p = Some frame) messages frames"
    and "concat chunks = concat frames" and "[] \<notin> set chunks"
  shows "listen (\<lambda>i. i < rounds) 0 0 (arrivals chunks) = Inr (min rounds (length messages), length messages < rounds)
    \<and> (exit_code (\<lambda>i. i < rounds) (arrivals chunks) = 0 \<longleftrightarrow> 0 < rounds \<and> rounds \<le> length messages)"
proof -
  have count: "listen (\<lambda>i. i < rounds) i n (arrivals cs) = Inr (n + min (rounds - i) (length ms), length ms < rounds - i)"
    if "list_all2 (\<lambda>(tg, p) frame. encode_frame tg p = Some frame) ms fs" "concat cs = concat fs" "[] \<notin> set cs" for ms fs cs i n
    using that
  proof (induction ms arbitrary: fs cs i n)
    case Nil
    then have "cs = []" by (cases cs) auto
    then show ?case
      by (simp add: listen.simps [of _ i n] arrivals_def recv_exactly.simps [of _ _ "[]"] HEADER_LENGTH_def)
  next
    case (Cons m ms)
    then obtain f fs' where fs: "fs = f # fs'" "encode_frame (fst m) (snd m) = Some f"
      "list_all2 (\<lambda>(tg, p) frame. encode_frame tg p = Some frame) ms fs'" by (cases m) (auto simp: list_all2_Cons1)
    show ?case
    proof (cases "i < rounds")
      case False
      then show ?thesis by (simp add: listen.simps [of _ i n])
    next
      case True
      have "concat cs = f @ concat fs'" using Cons.prems(2) fs(1) by simp
      then obtain cs' where "listen (\<lambda>i. i < rounds) i n (arrivals cs) = listen (\<lambda>i. i < rounds) (Suc i) (Suc n) (arrivals cs')"
        "[] \<notin> set cs'" "concat cs' = concat fs'"
        using listen_frame [of "\<lambda>i. i < rounds" i cs f "concat fs'" "fst m" "snd m" n] True Cons.prems(3) fs(2) by blast
      then show ?thesis using Cons.IH [OF fs(3), of cs' "Suc i" "Suc n"] True by (simp add: min_def) linarith
    qed
  qed
  then have "listen (\<lambda>i. i < rounds) 0 0 (arrivals chunks) = Inr (min rounds (length messages), length messages < rounds)"
    using assms by simp
  then show ?thesis by (auto simp: exit_code_def)
qed

theorem listener_counts_frames_witness:
  "listen (\<lambda>i. i < 2) 0 0 (arrivals [[1, 0], [0, 0, 1, 7, 2, 0], [0, 0, 0]]) = Inr (2, False)"
proof -
  have "be_bytes (Suc (Suc (Suc (Suc 0)))) 1 = [0, 0, 0, 1]" "be_bytes (Suc (Suc (Suc (Suc 0)))) 0 = [0, 0, 0, 0]" by simp_all
  then have "be_bytes 4 1 = [0, 0, 0, 1]" "be_bytes 4 0 = [0, 0, 0, 0]" by (simp_all add: eval_nat_numeral(2,3) del: be_bytes.simps)
  then have "encode_frame 1 [7] = Some [1, 0, 0, 0, 1, 7]" "encode_frame 2 [] = Some [2, 0, 0, 0, 0]"
    by (simp_all add: encode_frame_Some del: be_bytes.simps)
  then have frames: "list_all2 (\<lambda>(tg, p) frame. encode_frame tg p = Some frame) [(1, [7]), (2, [])] [[1, 0, 0, 0, 1, 7], [2, 0, 0, 0, 0]]"
    by simp
  from listener_counts_frames [OF this, of "[[1, 0], [0, 0, 1, 7, 2, 0], [0, 0, 0]]" 2] show ?thesis by simp
qed

text \<open>A timeout inside a header loses the bytes read so far, and the rest is read as if it began a frame.\<close>

lemma timeout_desynchronises:
  "listen (\<lambda>i. i < 3) 0 0 [Arrives [1, 0, 0, 0, 1, 7]] = Inr (1, True)"
  "listen (\<lambda>i. i < 3) 0 0 [Arrives [1, 0], TimesOut, Arrives [0, 0, 1, 7]] = Inr (0, True)"
  "listen (\<lambda>i. i < 3) 0 0 [Arrives [1, 0, 0, 0, 1], TimesOut, Arrives [7]] = Inl TimeoutError"
  by code_simp+

end
