(* ===== verification/Spec2Isabelle.thy ===== *)
theory Spec2Isabelle
  imports Live Service Config Stored Fault_Loops Bench_Script Mock_Listener
begin

text \<open>
  A model of the Python code of the HPC telemetry system and the theorems that make it correct.

  \<^bold>\<open>The program.\<close> Agents on the nodes of a rack send batches of samples, and workload runners
  send phase events, as length-prefixed protobuf frames over TCP to one ingestion service. The
  service validates and stores them in SQLite, recomputes rollups, serves them over HTTP, and runs
  synthetic jobs: for every phase of a job it sends a request to each workload host, waits until as
  many phase events are stored as there are hosts, and afterwards ranks the nodes by the durations
  of a phase to find stragglers and their root cause. Scripts around the service generate a frozen
  manifest of fault-injection trials, run them, decide on their results with Wilson intervals, and
  measure latencies. The service is one asyncio process: a coroutine gives up control at an await
  only, so what lies between two awaits is one step of the model. Its synchronous HTTP handlers run
  in threads; the model evaluates them on one state of the store.

  \<^bold>\<open>The theories\<close> and the files they model:

  \<^item> \<open>Prelude\<close>, \<open>Py_Numbers\<close>, \<open>Py_Float\<close>: bytes, strings, slices, sorting; Python's int and float.
    A finite float is the rational it denotes, each operation is exact followed by \<open>rnd\<close>, rounding
    to nearest even with gradual underflow; \<open>pyfloat\<close> adds infinities and NaN and is an instance of
    \<open>linorder\<close>. The locale \<open>rounding\<close> has the laws of a rounding, interpreted on \<open>rnd\<close>.
  \<^item> \<open>Py_Text\<close>: decimal numerals, \<open>int(s)\<close>, \<open>strip\<close>, \<open>split\<close>, and UTF-8: a string of the model is the UTF-8
    encoding of Python's. \<open>Config\<close>: the two \<open>config.py\<close>.
  \<^item> \<open>Telemetry\<close>: the messages of \<open>proto/telemetry.proto\<close> and \<open>hpctel/constants.py\<close>.
  \<^item> \<open>Framing\<close>: \<open>hpctel/framing.py\<close>. The locale \<open>frame_decoder\<close> states what a stream reader needs of
    a decoder (progress, stability under more input) and proves that maximal reading is
    deterministic and independent of chunks; it is interpreted on \<open>decode_frame\<close>. Frames make a
    round trip with the encoder of \<open>workloadrunner/reporter.py\<close>.
  \<^item> \<open>Validation\<close>: \<open>hpctel/validation.py\<close>, decided exactly.
  \<^item> \<open>Sql\<close>, \<open>Tsdb_Store\<close>: the statements of \<open>hpctel/storage/schema.py\<close> and \<open>tsdb.py\<close> over tables as
    lists; an integer of a request that SQLite's 64 bits do not hold makes the call raise (\<open>bindable\<close>).
    The locale \<open>ignore_insert\<close> is a table filled by INSERT OR IGNORE, which refines a map
    that the first writer sets; samples and phase events are its two interpretations. The relation
    \<open>store_step\<close> is any writing call; the constraints \<open>wf_db\<close> are invariant under it.
  \<^item> \<open>Ingest_Server\<close>: \<open>hpctel/ingest_server.py\<close>: handlers, drain loop, connection, and the step
    relation \<open>sys_step\<close> that interleaves connections with each other and with other tasks.
  \<^item> \<open>Straggler\<close>: \<open>hpctel/analysis/straggler.py\<close>; totality, order, bounds on what is flagged.
  \<^item> \<open>Stats\<close>: \<open>hpctel/analysis/stats.py\<close>, with a square root proved to be correctly rounded.
  \<^item> \<open>Jobs\<close>: \<open>hpctel/jobs.py\<close> as one coroutine in an environment that gives clock readings, the
    outcome of requests and the effect of other tasks. The locale \<open>background\<close> is what the
    orchestrator assumes of the other tasks; the ingestion of frames is its interpretation.
  \<^item> \<open>Api\<close>: \<open>hpctel/api.py\<close>: the endpoints and the rollup refresh.
  \<^item> \<open>Process\<close>: the event loop with any number of jobs, connections, start requests and refresh rounds; a
    coroutine of a job is the place where it waits, and \<open>proc_step\<close> is one step between two awaits.
  \<^item> \<open>Service\<close>: the life of the service around it: opening the store, the start, the shutdown, a crash
    and the restart on the same database file (\<open>svc_step\<close>).
  \<^item> \<open>Sieve\<close>: \<open>workloadrunner/compute.py\<close>. The locale \<open>faithful_root\<close> states the documented accuracy
    of the C library's power function; the correctly rounded root is its interpretation.
  \<^item> \<open>Workload\<close>: \<open>workloadrunner/runner.py\<close>, \<open>faults.py\<close>, \<open>reporter.py\<close>: one phase on a node.
  \<^item> \<open>Fault_Loops\<close>: the loops of the workers that \<open>faults.py\<close> starts, with the \<open>finally\<close> block that closes
    and removes the file of the I/O fault.
  \<^item> \<open>Rack\<close>: the orchestrator, the runners and the server together.
  \<^item> \<open>Trials\<close>: \<open>eval/generate_trial_seeds.py\<close> and \<open>eval/run_trials.py\<close>.
  \<^item> \<open>Live\<close>: the trial script against the model of the API, with the jobs run by the model of the rack: an
    instance of the abstract service of \<open>Trials\<close>.
  \<^item> \<open>Json\<close>, \<open>Json_Cut\<close>: \<open>json.dumps\<close> and \<open>json.loads\<close>: what is written loads back, in every indentation,
    and a text that is cut short does not load.
  \<^item> \<open>Stored\<close>: the texts the code keeps: the JSON columns of a job, the manifest file, the result files of
    the trials, and the log of \<open>hpctel/logging_utils.py\<close>.
  \<^item> \<open>Benchmark\<close>, \<open>Agent_Stats\<close>, \<open>Bench_Script\<close>: \<open>scripts/benchmark.py\<close>: percentiles and schedule, the
    statistics of the agents, and the whole script over a host, with the JSON text of its results and a
  write that can fail before or after the file is truncated.
  \<^item> \<open>Mock_Listener\<close>: \<open>agent/tests/mock_listener.py\<close>.

  \<^bold>\<open>State.\<close> The store is the record \<open>db\<close> with one list of rows per table in rowid order. The server
  record has the store, the log written so far and the number of clock readings taken, since the
  wall clock is an input sequence. A connection is its buffer. The orchestrator adds its own
  counters of clock readings and awaits and the requests it has sent. A process is the server, its
  connections and its coroutines by job id; the service adds the stage of its life, the refresh task
  and the database file. The trial batch keeps a map
  from trial ids to result files and a world of an arbitrary type behind its HTTP calls. Exceptions
  are values of sums and options. Integers are Python's unbounded ones; those of the wire format have
  the width of its fields, and the clock stays in 64 bits until the year 2262, so only the integers of
  HTTP requests can be too large for the store.

  \<^bold>\<open>What is proved.\<close> Every parsed frame ends up in the store under every interleaving and every
  chunking, and no interleaving breaks a constraint or changes a stored row; a rollup query returns
  the aggregates of the raw samples; a job is completed exactly when all phases have their reports,
  it always ends, its wait is bounded, and a fault reaches its target only; a working rack completes
  its jobs with one event per host and phase; each of the concurrent jobs of a process behaves as it
  does alone, in an environment that keeps the contract of \<open>background\<close>, so the theorems about one job
  hold for all of them; the shutdown ends when the agents have disconnected and nothing writes the
  closed store; the frozen batch against the live service, interrupted or not, finds every fault and
  supports the primary claim on a rack whose nodes agree up to a millisecond and whose faults cost at
  least 5.19 ms, a condition that the recorded batch of \<open>eval/results\<close> does not meet; a lone straggler is found, at most half of the nodes
  are flagged, and the ranking does not depend on arrival order; the report endpoint raises nothing but for a phase index that SQLite cannot bind;
  what is stored as JSON is read back, the log cannot be forged; intervals stay in range, a percentile lies between
  the two neighbouring latencies and close to their exact interpolation, and the statistics of the
  agents are the medians over what docker prints for them; the sieve counts primes; the manifest is sound, the batch
  can be resumed and replayed, and the primary claim is supported by complete batches only. Theorems about errors
  show what the code does with NaN samples, unknown tags, payloads that do not parse, late reports,
  failing rollups, unknown faults, empty estimates, interrupted jobs, result files that were cut
  short, integers too large for SQLite, a benchmark that ends early or whose write is cut, and a
  fault thread whose \<open>close\<close> raises.

  \<^bold>\<open>Termination and bounds.\<close> The drain loop terminates because a frame is at least five bytes; the
  loops that wait for a clock, a flag or a status are partial functions, whose results exist whenever
  the clock passes the deadline (\<open>execute_job_returns\<close>, \<open>run_missing_returns\<close>) or the flag is set
  (\<open>busy_loop_ends\<close>, \<open>io_stall_leftover\<close>). A job of \<open>n\<close> phases is resumed at most \<open>1 + 303 n\<close> times when its clock
  never goes back, stays below 2 to the 40 seconds, and every sleep of 0.2 seconds between two polls
  lasts at least 0.1 seconds: the 30 seconds of a phase, with the rounding of the deadline, leave
  room for 302 such sleeps, and the gathering of the requests is one more. Fuel is
  used in the JSON reader only: twice the length of the text and one, which \<open>fuel_enough\<close> shows to be as
  good as any more. Counts of 2 to the 53 or more are excluded where the code converts them to
  float; no such list or array fits into memory.

  \<^bold>\<open>Parameters.\<close> Generated or external code that is called: the protobuf parsers and serialisers
  (a parser inverts the serialiser, as protobuf documents), SQLite's AVG, the HTTP client, clocks, job
  ids, the power function, the shuffle of the benchmark, the commands it runs and what its write of the
  results reaches, the system calls of the I/O fault, and the text \<open>repr\<close> gives a float, which reads back as the same float. Each hypothesis about one is in the
  theorem that uses it and is met in its witness by a concrete function.

  \<^bold>\<open>Not modelled.\<close> The C++ agent; the generated protobuf classes; sockets below their sequence of
  reads; FastAPI's parsing of requests and its JSON replies; what the scripts print; the argument parser of
  \<open>run_trials.py\<close>; infinities and NaN in the output of docker, which it does not print. The sign of a zero float is not represented. A job whose dispatch
  raises something else than an HTTP error stays \<open>running\<close>; the model has this case as the value
  \<open>DispatchError\<close>. The synchronous handlers of FastAPI run in threads of a pool and share one SQLite
  connection with the event loop; their interleaving inside one statement is not modelled.

  \<^bold>\<open>What is left.\<close> Every Python module of the repository has its model; what could be added is the text of
  the HTTP replies between the script and the service, which \<open>Live\<close> passes as values, and the threads of
  the handlers.
\<close>

end
